(* ===== verification/Prelude.thy ===== *)
theory Prelude
  imports Main "HOL-Library.Word"
begin

text \<open>
  What every component shares: the C integer types as words, errors as values with a
  binding combinator, C byte buffers (\<open>memget\<close>, \<open>memput\<close>, C strings), the little-endian
  layout of integers in memory, and the interface \<open>fixed_codec\<close> of a value stored in a
  fixed number of bytes, with its lemmas on single values and on arrays of values.
\<close>

unbundle bit_operations_syntax

named_theorems buf_simps
named_theorems const_simps

type_synonym byte = "8 word"
type_synonym u16 = "16 word"
type_synonym u32 = "32 word"
type_synonym u64 = "64 word"
type_synonym bytes = "byte list"
type_synonym cstr = "byte list"

lemma unat_of_nat_small: "n < 2 ^ LENGTH('a::len) \<Longrightarrow> unat (of_nat n :: 'a word) = n"
  by (simp add: unat_of_nat)

section \<open>Errors as values\<close>

text \<open>
  How an operation can stop instead of returning: \<open>Exit\<close> is a call of \<open>exit\<close>, \<open>Bad_map\<close> an
  access to a mapped page that lies past the end of the disk file (SIGBUS), \<open>Out_of_bounds\<close>
  a read outside an object, \<open>Overrun\<close> a write outside an object, \<open>Blocked\<close> waiting for what never
  comes.
\<close>

datatype error = Exit int | Bad_map | Out_of_bounds | Overrun | Blocked

fun bindE :: "error + 'a \<Rightarrow> ('a \<Rightarrow> error + 'b) \<Rightarrow> error + 'b" where
  "bindE (Inl e) f = Inl e"
| "bindE (Inr x) f = f x"

lemma bindE_cong [fundef_cong]:
  "m = m' \<Longrightarrow> (\<And>x. m' = Inr x \<Longrightarrow> f x = g x) \<Longrightarrow> bindE m f = bindE m' g"
  by (cases m') auto

lemma bindE_eq_Inr:
  "bindE m f = Inr y \<longleftrightarrow> (\<exists>x. m = Inr x \<and> f x = Inr y)"
  by (cases m) auto

lemma bindE_assoc: "bindE (bindE m f) g = bindE m (\<lambda>x. bindE (f x) g)"
  by (cases m) auto

section \<open>Byte buffers\<close>

definition memget :: "'a list \<Rightarrow> nat \<Rightarrow> nat \<Rightarrow> 'a list" where
  "memget bs pos n = take n (drop pos bs)"

definition memput :: "'a list \<Rightarrow> nat \<Rightarrow> 'a list \<Rightarrow> 'a list" where
  "memput bs pos xs = take pos bs @ xs @ drop (pos + length xs) bs"

lemma length_memget [buf_simps]:
  "pos + n \<le> length bs \<Longrightarrow> length (memget bs pos n) = n"
  by (simp add: memget_def)

lemma length_memput [buf_simps]:
  "pos + length xs \<le> length bs \<Longrightarrow> length (memput bs pos xs) = length bs"
  by (simp add: memput_def)

lemma memget_memput_same [buf_simps]:
  "pos + length xs \<le> length bs \<Longrightarrow> n = length xs \<Longrightarrow> memget (memput bs pos xs) pos n = xs"
  by (simp add: memget_def memput_def)

lemma memget_memput_before [buf_simps]:
  "pos + length xs \<le> length bs \<Longrightarrow> q + n \<le> pos \<Longrightarrow>
   memget (memput bs pos xs) q n = memget bs q n"
  by (rule nth_equalityI) (auto simp: memget_def memput_def nth_append)

lemma memget_memput_after [buf_simps]:
  "pos + length xs \<le> length bs \<Longrightarrow> pos + length xs \<le> q \<Longrightarrow>
   memget (memput bs pos xs) q n = memget bs q n"
  by (simp add: memget_def memput_def min_def not_less)

lemma memput_nth:
  "pos + length xs \<le> length bs \<Longrightarrow> i < length bs \<Longrightarrow>
   memput bs pos xs ! i =
     (if i < pos then bs ! i else if i < pos + length xs then xs ! (i - pos) else bs ! i)"
  by (auto simp: memput_def nth_append)

lemma memput_memget: "pos + n \<le> length bs \<Longrightarrow> memput bs pos (memget bs pos n) = bs"
  by (simp add: memput_def memget_def)
     (metis add.commute append_take_drop_id drop_drop)

lemma memget_all: "n = length bs \<Longrightarrow> memget bs 0 n = bs"
  by (simp add: memget_def)

lemma memget_memget:
  "q + m \<le> n \<Longrightarrow> memget (memget bs p n) q m = memget bs (p + q) m"
  by (simp add: memget_def drop_take min_def add.commute)

lemma memget_nth: "i < n \<Longrightarrow> pos + n \<le> length bs \<Longrightarrow> memget bs pos n ! i = bs ! (pos + i)"
  by (simp add: memget_def)

lemma memput_append:
  "pos + length xs + length ys \<le> length bs \<Longrightarrow>
   memput (memput bs pos xs) (pos + length xs) ys = memput bs pos (xs @ ys)"
  by (simp add: memput_def add_ac)

lemma memput_next:
  "pos = length xs \<Longrightarrow> pos + length ys \<le> length bs \<Longrightarrow>
   memput (memput bs 0 xs) pos ys = memput bs 0 (xs @ ys)"
  using memput_append [of 0 xs ys bs] by simp

lemma memput_full: "length xs = length bs \<Longrightarrow> memput bs 0 xs = xs"
  by (simp add: memput_def)

section \<open>C strings\<close>

text \<open>
  The string a buffer holds: its bytes up to the first NUL. \<open>strread\<close> is what a string
  function sees at the start of a buffer; without a NUL inside the buffer it reads on
  past its end.
\<close>

definition cstr :: "bytes \<Rightarrow> cstr" where
  "cstr bs = takeWhile (\<lambda>b. b \<noteq> 0) bs"

definition strread :: "bytes \<Rightarrow> error + cstr" where
  "strread bs = (if 0 \<in> set bs then Inr (cstr bs) else Inl Out_of_bounds)"

definition is_cstr :: "cstr \<Rightarrow> bool" where
  "is_cstr s \<longleftrightarrow> 0 \<notin> set s"

lemma cstr_terminated [buf_simps]: "is_cstr s \<Longrightarrow> cstr (s @ 0 # r) = s"
  by (induction s) (auto simp: cstr_def is_cstr_def)

lemma strread_terminated [buf_simps]: "is_cstr s \<Longrightarrow> strread (s @ 0 # r) = Inr s"
  by (simp add: strread_def cstr_terminated)

lemma is_cstr_cstr [simp, intro]: "is_cstr (cstr bs)"
  by (auto simp: is_cstr_def cstr_def dest: set_takeWhileD)

lemma cstr_idem: "is_cstr s \<Longrightarrow> cstr s = s"
  by (induction s) (auto simp: cstr_def is_cstr_def)

lemma length_cstr_less: "0 \<in> set bs \<Longrightarrow> length (cstr bs) < length bs"
  by (induction bs) (auto simp: cstr_def)

text \<open>A literal of the source as bytes.\<close>

definition lit :: "string \<Rightarrow> cstr" where
  "lit s = map (\<lambda>c. of_nat (of_char c)) s"

section \<open>Little-endian integers in memory\<close>

fun le_enc :: "nat \<Rightarrow> 'a::len word \<Rightarrow> bytes" where
  "le_enc 0 w = []"
| "le_enc (Suc n) w = ucast w # le_enc n (drop_bit 8 w)"

fun le_dec :: "bytes \<Rightarrow> 'a::len word" where
  "le_dec [] = 0"
| "le_dec (b # bs) = ucast b OR push_bit 8 (le_dec bs)"

lemma length_le_enc [simp]: "length (le_enc n w) = n"
  by (induction n arbitrary: w) auto

lemma le_dec_enc_take: "le_dec (le_enc n w) = take_bit (8 * n) (w :: 'a::len word)"
proof (induction n arbitrary: w)
  case 0
  then show ?case by simp
next
  case (Suc n)
  have "ucast (ucast w :: byte) OR push_bit 8 (take_bit (8 * n) (drop_bit 8 w))
      = take_bit (8 * Suc n) w"
    by (rule bit_eqI) (auto simp: bit_simps)
  with Suc show ?case by simp
qed

lemma le_dec_enc:
  "LENGTH('a::len) \<le> 8 * n \<Longrightarrow> le_dec (le_enc n w) = (w :: 'a word)"
  by (simp add: le_dec_enc_take take_bit_word_eq_self)

lemma le_dec_bit: "bit (le_dec bs :: 'a::len word) i \<Longrightarrow> i < 8 * length bs"
proof (induction bs arbitrary: i)
  case Nil
  then show ?case by simp
next
  case (Cons b bs)
  then consider "bit b i" | "8 \<le> i" "bit (le_dec bs :: 'a word) (i - 8)"
    by (auto simp: bit_simps)
  then show ?case
  proof cases
    case 1
    then have "i < 8" by (auto dest: bit_imp_le_length)
    then show ?thesis by simp
  next
    case 2
    then have "i - 8 < 8 * length bs" by (intro Cons.IH)
    with 2 show ?thesis by simp
  qed
qed

lemma le_enc_dec:
  "length bs = n \<Longrightarrow> 8 * n \<le> LENGTH('a::len) \<Longrightarrow> le_enc n (le_dec bs :: 'a word) = bs"
proof (induction bs arbitrary: n)
  case Nil
  then show ?case by simp
next
  case (Cons b bs)
  define m where "m = length bs"
  with Cons.prems have n: "n = Suc m" and m: "8 * Suc m \<le> LENGTH('a)"
    by auto
  let ?w = "ucast b OR push_bit 8 (le_dec bs) :: 'a word"
  have low: "ucast ?w = b"
    using m by (intro bit_eqI) (auto simp: bit_simps dest: bit_imp_le_length)
  have "8 + i < LENGTH('a)" if "bit (le_dec bs :: 'a word) i" for i
    using le_dec_bit [OF that] m by (simp add: m_def)
  then have high: "drop_bit 8 ?w = le_dec bs"
    by (intro bit_eqI) (auto simp: bit_simps dest: bit_imp_le_length)
  have "le_enc m (le_dec bs :: 'a word) = bs"
    using m by (intro Cons.IH) (auto simp: m_def)
  with low high n show ?case by simp
qed

section \<open>Values of a fixed width in a buffer\<close>

text \<open>
  A value that is stored in \<open>w\<close> bytes: what decoding gives back, and what a store at one
  place leaves of the others. \<open>exact_codec\<close> adds that every \<open>w\<close> bytes are the encoding of
  something, so storing back what was read changes nothing.
\<close>

locale fixed_codec =
  fixes enc :: "'a \<Rightarrow> bytes"
    and dec :: "bytes \<Rightarrow> 'a"
    and w :: nat
    and ok :: "'a \<Rightarrow> bool"
  assumes width: "ok x \<Longrightarrow> length (enc x) = w"
    and decode: "ok x \<Longrightarrow> dec (enc x) = x"
begin

lemma get_put:
  "ok x \<Longrightarrow> pos + w \<le> length bs \<Longrightarrow> dec (memget (memput bs pos (enc x)) pos w) = x"
  by (simp add: memget_memput_same width decode)

lemma get_put_other:
  "ok x \<Longrightarrow> pos + w \<le> length bs \<Longrightarrow> q + n \<le> pos \<or> pos + w \<le> q \<Longrightarrow>
   memget (memput bs pos (enc x)) q n = memget bs q n"
  by (auto simp: memget_memput_before memget_memput_after width)

lemma cell_put:
  assumes "ok x" and "w * i + w \<le> length bs"
  shows "dec (memget (memput bs (w * i) (enc x)) (w * j) w) =
    (if j = i then x else dec (memget bs (w * j) w))"
proof (cases "j = i")
  case True
  with assms show ?thesis by (simp add: get_put)
next
  case False
  then have "j < i \<or> i < j" by arith
  then have "w * Suc j \<le> w * i \<or> w * Suc i \<le> w * j"
    by (metis Suc_leI mult_le_mono2)
  then have "w * j + w \<le> w * i \<or> w * i + w \<le> w * j" by (simp add: add.commute)
  with False assms show ?thesis by (auto simp: get_put_other)
qed

lemma length_concat_enc:
  "(\<forall>x \<in> set xs. ok x) \<Longrightarrow> length (concat (map enc xs)) = w * length xs"
  by (induction xs) (auto simp: width)

lemma cell_concat:
  "(\<forall>x \<in> set xs. ok x) \<Longrightarrow> i < length xs \<Longrightarrow>
   dec (memget (concat (map enc xs) @ r) (w * i) w) = xs ! i"
proof (induction xs arbitrary: i)
  case Nil
  then show ?case by simp
next
  case (Cons x xs)
  then show ?case
    by (cases i) (auto simp: memget_def width decode)
qed

lemma map_cells:
  "(\<forall>x \<in> set xs. ok x) \<Longrightarrow> n = length xs \<Longrightarrow>
   map (\<lambda>i. dec (memget (concat (map enc xs) @ r) (w * i) w)) [0..<n] = xs"
  by (rule nth_equalityI) (auto simp: cell_concat)

end

locale exact_codec = fixed_codec +
  assumes encode: "length bs = w \<Longrightarrow> enc (dec bs) = bs"
    and all_ok: "ok x"
begin

lemma put_get: "pos + w \<le> length bs \<Longrightarrow> memput bs pos (enc (dec (memget bs pos w))) = bs"
  by (simp add: encode length_memget memput_memget)

lemma concat_cells:
  "length bs = w * n \<Longrightarrow> concat (map enc (map (\<lambda>i. dec (memget bs (w * i) w)) [0..<n])) = bs"
proof (induction n arbitrary: bs)
  case 0
  then show ?case by simp
next
  case (Suc n)
  let ?a = "take (w * n) bs" and ?z = "drop (w * n) bs"
  have "concat (map enc (map (\<lambda>i. dec (memget ?a (w * i) w)) [0..<n])) = ?a"
    using Suc.prems by (intro Suc.IH) simp
  moreover have "memget ?a (w * i) w = memget bs (w * i) w" if "i < n" for i
  proof -
    have "w * Suc i \<le> w * n" using that by (intro mult_le_mono2) simp
    then show ?thesis by (simp add: memget_def drop_take min_def)
  qed
  ultimately have "concat (map enc (map (\<lambda>i. dec (memget bs (w * i) w)) [0..<n])) = ?a"
    by (metis (mono_tags, lifting) atLeastLessThan_iff map_eq_conv set_upt)
  moreover have "enc (dec (memget bs (w * n) w)) = ?z"
    using Suc.prems by (simp add: encode memget_def)
  ultimately show ?case by simp
qed

end

interpretation u16le: exact_codec "le_enc 2 :: u16 \<Rightarrow> bytes" "le_dec" 2 "\<lambda>_. True"
  by unfold_locales (simp_all add: le_dec_enc le_enc_dec)

interpretation u32le: exact_codec "le_enc 4 :: u32 \<Rightarrow> bytes" "le_dec" 4 "\<lambda>_. True"
  by unfold_locales (simp_all add: le_dec_enc le_enc_dec)

interpretation u64le: exact_codec "le_enc 8 :: u64 \<Rightarrow> bytes" "le_dec" 8 "\<lambda>_. True"
  by unfold_locales (simp_all add: le_dec_enc le_enc_dec)

text \<open>An array of \<open>n\<close> \<open>u_int32_t\<close> at the start of a buffer, read and laid out.\<close>

definition u32s_of :: "bytes \<Rightarrow> nat \<Rightarrow> u32 list" where
  "u32s_of bs n = map (\<lambda>i. le_dec (memget bs (4 * i) 4)) [0..<n]"

definition u32s_bytes :: "u32 list \<Rightarrow> bytes" where
  "u32s_bytes ws = concat (map (le_enc 4) ws)"

lemma length_u32s_bytes [simp]: "length (u32s_bytes ws) = 4 * length ws"
  by (simp add: u32s_bytes_def u32le.length_concat_enc)

lemma length_u32s_of [simp]: "length (u32s_of bs n) = n"
  by (simp add: u32s_of_def)

lemma u32s_of_bytes: "n = length ws \<Longrightarrow> u32s_of (u32s_bytes ws @ r) n = ws"
  by (simp add: u32s_of_def u32s_bytes_def u32le.map_cells)

lemma u32s_bytes_of: "length bs = 4 * n \<Longrightarrow> u32s_bytes (u32s_of bs n) = bs"
  unfolding u32s_of_def u32s_bytes_def by (rule u32le.concat_cells)

end
