(* ===== verification/Commons.thy ===== *)
theory Commons
  imports Prelude "HOL-Library.Sublist"
begin

text \<open>
  The interface to code that is not in the repository. The so-commons library
  (\<open>commons/bitarray.h\<close>, \<open>commons/string.h\<close>, \<open>commons/collections/list.h\<close>) is a record of
  functions, an argument of every definition that calls it; what the code relies on of it
  is the assumptions of the locales \<open>bitarray_lib\<close>, \<open>string_lib\<close> and \<open>list_lib\<close>. The record
  \<open>env\<close> adds what the target machine and the C library leave open: the sizes of pointers,
  of \<open>size_t\<close>, of \<open>off_t\<close> and of \<open>time_t\<close>, the clock, the bytes of uninitialised memory, and
  the bytes that a \<open>memcpy\<close> between overlapping ranges leaves or a \<open>send\<close> past the end of its
  buffer transmits. Nothing is assumed of these bytes.
\<close>

section \<open>Bit arrays\<close>

datatype bit_numbering_mode = LSB_FIRST | MSB_FIRST

record t_bitarray =
  bitarray :: bytes
  ba_size :: nat
  ba_mode :: bit_numbering_mode

text \<open>Strings split at a separator, empty pieces dropped, as \<open>strtok_r\<close> gives them.\<close>

fun pieces :: "byte \<Rightarrow> cstr \<Rightarrow> cstr list" where
  "pieces c [] = [[]]"
| "pieces c (x # xs) =
     (if x = c then [] # pieces c xs
      else (case pieces c xs of [] \<Rightarrow> [[x]] | p # ps \<Rightarrow> (x # p) # ps))"

definition tokens :: "byte \<Rightarrow> cstr \<Rightarrow> cstr list" where
  "tokens c s = filter (\<lambda>p. p \<noteq> []) (pieces c s)"

record commons =
  bitarray_create_with_mode :: "bytes \<Rightarrow> nat \<Rightarrow> bit_numbering_mode \<Rightarrow> t_bitarray"
  bitarray_test_bit :: "t_bitarray \<Rightarrow> nat \<Rightarrow> bool"
  bitarray_set_bit :: "t_bitarray \<Rightarrow> nat \<Rightarrow> t_bitarray"
  bitarray_clean_bit :: "t_bitarray \<Rightarrow> nat \<Rightarrow> t_bitarray"
  string_split :: "cstr \<Rightarrow> cstr \<Rightarrow> cstr list"
  string_is_empty :: "cstr \<Rightarrow> bool"
  string_starts_with :: "cstr \<Rightarrow> cstr \<Rightarrow> bool"
  string_ends_with :: "cstr \<Rightarrow> cstr \<Rightarrow> bool"
  string_substring_until :: "cstr \<Rightarrow> int \<Rightarrow> cstr"
  string_repeat :: "byte \<Rightarrow> nat \<Rightarrow> bytes"
  string_duplicate :: "cstr \<Rightarrow> cstr"
  string_length :: "cstr \<Rightarrow> nat"
  string_contains :: "cstr \<Rightarrow> cstr \<Rightarrow> bool"
  string_from_format :: "cstr \<Rightarrow> cstr \<Rightarrow> cstr \<Rightarrow> cstr"

text \<open>
  \<open>tick\<close> arguments below number the allocations of a run: \<open>uninit E t i\<close> is byte \<open>i\<close> of the
  memory that the \<open>t\<close>-th allocation returns, before anything is stored in it, and \<open>now E t\<close>
  is what \<open>time(0)\<close> returns then. \<open>past_end E t i\<close> is what a read of the \<open>i\<close>-th byte after the
  end of that memory gives, \<open>None\<close> when it faults. \<open>memcpy_overlap E bs dst src n i\<close> is the byte
  that \<open>memcpy\<close> of \<open>n\<close> bytes of the buffer \<open>bs\<close>, from offset \<open>src\<close> to offset \<open>dst\<close>, leaves at \<open>dst + i\<close>
  when the two ranges overlap: ISO C does not say which. \<open>send_past E bs n\<close> is what \<open>send\<close> transmits
  when it is asked for \<open>n\<close> bytes of memory that holds fewer, \<open>bs\<close>: it may stop at an address it
  cannot read (a partial count, or \<open>EFAULT\<close>) or pass on what lies behind.
\<close>

record env = commons +
  sizeof_ptr :: nat
  sizeof_size_t :: nat
  sizeof_off_t :: nat
  sizeof_time_t :: nat
  now :: "nat \<Rightarrow> u64"
  uninit :: "nat \<Rightarrow> nat \<Rightarrow> byte"
  past_end :: "nat \<Rightarrow> nat \<Rightarrow> byte option"
  send_past :: "bytes \<Rightarrow> nat \<Rightarrow> bytes"
  memcpy_overlap :: "bytes \<Rightarrow> nat \<Rightarrow> nat \<Rightarrow> nat \<Rightarrow> nat \<Rightarrow> byte"

record 'e list_ops =
  list_create :: "'e list"
  list_add :: "'e list \<Rightarrow> 'e \<Rightarrow> 'e list"
  list_get :: "'e list \<Rightarrow> nat \<Rightarrow> 'e option"
  list_remove :: "'e list \<Rightarrow> nat \<Rightarrow> 'e list"
  list_size :: "'e list \<Rightarrow> nat"

text \<open>
  What the programs print and log: lines of a format and its arguments. \<open>Log_null\<close> is a \<open>NULL\<close>
  pointer given for a string.
\<close>

datatype log_arg = Log_s cstr | Log_d int | Log_null

type_synonym line = "string \<times> log_arg list"

definition slash :: byte where
  "slash = 47"

text \<open>
  A \<open>u_int64_t\<close> stored in a \<open>time_t\<close> of \<open>sizeof_time_t\<close> bytes, as a \<open>u_int64_t\<close> again: the low
  bytes, with their sign.
\<close>

definition to_time_t :: "env \<Rightarrow> u64 \<Rightarrow> u64" where
  "to_time_t E x = signed_take_bit (8 * sizeof_time_t E - 1) x"

section \<open>What the code relies on\<close>

definition ba_ok :: "t_bitarray \<Rightarrow> bool" where
  "ba_ok b \<longleftrightarrow> length (bitarray b) = ba_size b \<and> ba_mode b = MSB_FIRST"

locale bitarray_lib =
  fixes E :: env
  assumes create_eq: "bitarray_create_with_mode E bs n m = \<lparr>bitarray = bs, ba_size = n, ba_mode = m\<rparr>"
    and test_zero: "i < 8 * n \<Longrightarrow>
      \<not> bitarray_test_bit E \<lparr>bitarray = replicate n 0, ba_size = n, ba_mode = MSB_FIRST\<rparr> i"
    and test_set: "ba_ok b \<Longrightarrow> i < 8 * ba_size b \<Longrightarrow> j < 8 * ba_size b \<Longrightarrow>
      bitarray_test_bit E (bitarray_set_bit E b i) j \<longleftrightarrow> j = i \<or> bitarray_test_bit E b j"
    and test_clean: "ba_ok b \<Longrightarrow> i < 8 * ba_size b \<Longrightarrow> j < 8 * ba_size b \<Longrightarrow>
      bitarray_test_bit E (bitarray_clean_bit E b i) j \<longleftrightarrow> j \<noteq> i \<and> bitarray_test_bit E b j"
    and ok_set: "ba_ok b \<Longrightarrow> i < 8 * ba_size b \<Longrightarrow> ba_ok (bitarray_set_bit E b i)"
    and size_set: "ba_ok b \<Longrightarrow> i < 8 * ba_size b \<Longrightarrow> ba_size (bitarray_set_bit E b i) = ba_size b"
    and ok_clean: "ba_ok b \<Longrightarrow> i < 8 * ba_size b \<Longrightarrow> ba_ok (bitarray_clean_bit E b i)"
    and size_clean: "ba_ok b \<Longrightarrow> i < 8 * ba_size b \<Longrightarrow> ba_size (bitarray_clean_bit E b i) = ba_size b"

locale string_lib =
  fixes E :: env
  assumes split_slash: "string_split E s [slash] = tokens slash s"
    and is_empty_eq: "string_is_empty E s \<longleftrightarrow> s = []"
    and starts_with_eq: "string_starts_with E s p \<longleftrightarrow> take (length p) s = p"
    and ends_with_eq: "string_ends_with E s p \<longleftrightarrow>
      length p \<le> length s \<and> drop (length s - length p) s = p"
    and substring_until_eq: "0 \<le> n \<Longrightarrow> string_substring_until E s n = take (nat n) s"
    and repeat_eq: "string_repeat E c m = replicate m c"
    and duplicate_eq: "string_duplicate E s = s"
    and length_eq: "string_length E s = length s"
    and format_eq: "string_from_format E (lit ''%s%s'') a b = a @ b"

locale list_lib =
  fixes L :: "'e list_ops"
  assumes create_nil: "list_create L = []"
    and add_append: "list_add L xs x = xs @ [x]"
    and get_nth: "list_get L xs i = (if i < length xs then Some (xs ! i) else None)"
    and remove_nth: "list_remove L xs i = take i xs @ drop (Suc i) xs"
    and size_length: "list_size L xs = length xs"

text \<open>
  \<open>ilp32\<close> is the target the code was written for: pointers and \<open>size_t\<close> of 4 bytes.
\<close>

locale ilp32 =
  fixes E :: env
  assumes ptr4: "sizeof_ptr E = 4"
    and size_t4: "sizeof_size_t E = 4"

locale commons_lib = bitarray_lib + string_lib

locale platform = commons_lib + ilp32

section \<open>A reference library\<close>

text \<open>
  A bit array numbered from the most significant bit of each byte, \<open>strtok\<close>-style splitting
  and the other string functions, on an ILP32 machine: the laws above hold for it, so they
  can hold. The properties that assume them are applied to it in their witnesses.
\<close>

definition ref_test :: "t_bitarray \<Rightarrow> nat \<Rightarrow> bool" where
  "ref_test b i \<longleftrightarrow> bit (bitarray b ! (i div 8)) (7 - i mod 8)"

definition ref_set :: "t_bitarray \<Rightarrow> nat \<Rightarrow> t_bitarray" where
  "ref_set b i = b\<lparr>bitarray := (bitarray b)[i div 8 := set_bit (7 - i mod 8) (bitarray b ! (i div 8))]\<rparr>"

definition ref_clean :: "t_bitarray \<Rightarrow> nat \<Rightarrow> t_bitarray" where
  "ref_clean b i = b\<lparr>bitarray := (bitarray b)[i div 8 := unset_bit (7 - i mod 8) (bitarray b ! (i div 8))]\<rparr>"

definition ref_env :: env where
  "ref_env =
    \<lparr>bitarray_create_with_mode = (\<lambda>bs n m. \<lparr>bitarray = bs, ba_size = n, ba_mode = m\<rparr>),
     bitarray_test_bit = ref_test, bitarray_set_bit = ref_set, bitarray_clean_bit = ref_clean,
     string_split = (\<lambda>s sep. tokens (hd sep) s),
     string_is_empty = (\<lambda>s. s = []),
     string_starts_with = (\<lambda>s p. take (length p) s = p),
     string_ends_with = (\<lambda>s p. length p \<le> length s \<and> drop (length s - length p) s = p),
     string_substring_until = (\<lambda>s n. take (nat n) s),
     string_repeat = (\<lambda>c n. replicate n c),
     string_duplicate = (\<lambda>s. s),
     string_length = length,
     string_contains = (\<lambda>s p. sublist p s),
     string_from_format = (\<lambda>_ a b. a @ b),
     sizeof_ptr = 4, sizeof_size_t = 4, sizeof_off_t = 4, sizeof_time_t = 4,
     now = (\<lambda>_. 1576000000), uninit = (\<lambda>_ _. 170),
     past_end = (\<lambda>_ i. if i < 8 then Some 0 else None),
     send_past = (\<lambda>bs n. bs),
     memcpy_overlap = (\<lambda>bs dst src n i. bs ! (src + i))\<rparr>"

definition ref_lists :: "'e list_ops" where
  "ref_lists = \<lparr>list_create = [], list_add = (\<lambda>xs x. xs @ [x]),
     list_get = (\<lambda>xs i. if i < length xs then Some (xs ! i) else None),
     list_remove = (\<lambda>xs i. take i xs @ drop (Suc i) xs), list_size = length\<rparr>"

lemma div_mod_8_inj:
  assumes "i div 8 = j div 8" and "7 - i mod 8 = 7 - j mod 8"
  shows "(i::nat) = j"
proof -
  have "i mod 8 < 8" and "j mod 8 < 8" by simp_all
  with assms(2) have "i mod 8 = j mod 8" by arith
  with assms(1) show ?thesis by (metis div_mult_mod_eq)
qed

lemma ref_test_set:
  assumes "i < 8 * length (bitarray b)"
  shows "ref_test (ref_set b i) j \<longleftrightarrow> j = i \<or> ref_test b j"
proof -
  have "i div 8 < length (bitarray b)" using assms by (simp add: less_mult_imp_div_less mult.commute)
  then show ?thesis
    using div_mod_8_inj [of i j]
    by (cases "i div 8 = j div 8") (auto simp: ref_test_def ref_set_def bit_simps)
qed

lemma ref_test_clean:
  assumes "i < 8 * length (bitarray b)"
  shows "ref_test (ref_clean b i) j \<longleftrightarrow> j \<noteq> i \<and> ref_test b j"
proof -
  have "i div 8 < length (bitarray b)" using assms by (simp add: less_mult_imp_div_less mult.commute)
  then show ?thesis
    using div_mod_8_inj [of i j]
    by (cases "i div 8 = j div 8") (auto simp: ref_test_def ref_clean_def bit_simps)
qed

lemma ref_shape:
  "length (bitarray (ref_set b i)) = length (bitarray b)"
  "ba_size (ref_set b i) = ba_size b"
  "ba_mode (ref_set b i) = ba_mode b"
  "length (bitarray (ref_clean b i)) = length (bitarray b)"
  "ba_size (ref_clean b i) = ba_size b"
  "ba_mode (ref_clean b i) = ba_mode b"
  by (simp_all add: ref_set_def ref_clean_def)

interpretation ref: platform ref_env
proof
  show "\<not> bitarray_test_bit ref_env \<lparr>bitarray = replicate n 0, ba_size = n, ba_mode = MSB_FIRST\<rparr> i"
    if "i < 8 * n" for n i
    using that by (simp add: ref_env_def ref_test_def less_mult_imp_div_less mult.commute)
qed (auto simp: ref_env_def ba_ok_def ref_test_set ref_test_clean ref_shape slash_def)

interpretation ref_list: list_lib ref_lists
  by unfold_locales (auto simp: ref_lists_def)

end
