(* ===== verification/Block.thy ===== *)
theory Block
  imports Commons
begin

text \<open>
  \<open>disk.h\<close> and \<open>block.c\<close>: the constants of the disk layout with their macros expanded, the
  state of the file system, and access to the disk in blocks of 4096 bytes. The disk file
  is mapped shared, so a \<open>t_block*\<close> is a window onto the disk itself: the model's handle of
  a mapped block is its number, and a store through it changes the disk at once
  (\<open>munmap\<close> and \<open>msync\<close> change nothing here). The heap around an allocation is not modelled: the
  terminator that \<open>read_blocks\<close> stores behind its pointers passes the \<open>sizeof(t_block) * diff + 1\<close>
  bytes it asked for by \<open>sizeof(t_block) - 1\<close>, and the model, which returns the list of the blocks,
  says nothing of what that overwrites.
\<close>

section \<open>Layout of the disk\<close>

definition BITMAP_INITIAL_BLOCK :: nat where
  "BITMAP_INITIAL_BLOCK = 1"

definition BLOCK_SIZE :: nat where
  "BLOCK_SIZE = 4096"

definition TOTAL_BLOCKS :: nat where
  "TOTAL_BLOCKS = 3000"

definition NODE_TABLE_BLOCKS :: nat where
  "NODE_TABLE_BLOCKS = 32"

definition DISK_SIZE :: nat where
  "DISK_SIZE = BLOCK_SIZE * TOTAL_BLOCKS"

definition BITMAP_SIZE :: nat where
  "BITMAP_SIZE = BLOCK_SIZE * TOTAL_BLOCKS div (BLOCK_SIZE * 8)"

definition BITMAP_BLOCKS :: nat where
  "BITMAP_BLOCKS = (if BITMAP_SIZE mod BLOCK_SIZE = 0 then BITMAP_SIZE div BLOCK_SIZE
     else BITMAP_SIZE div BLOCK_SIZE + 1)"

definition NODE_TABLE_INITIAL_BLOCK :: nat where
  "NODE_TABLE_INITIAL_BLOCK = BITMAP_INITIAL_BLOCK + BITMAP_BLOCKS"

definition DATA_BLOCKS :: nat where
  "DATA_BLOCKS = TOTAL_BLOCKS - 1 - BITMAP_BLOCKS - NODE_TABLE_BLOCKS"

definition DIR_ENTRY_SIZE :: nat where
  "DIR_ENTRY_SIZE = 128"

lemma layout_values [const_simps]:
  "BITMAP_INITIAL_BLOCK = 1" "BLOCK_SIZE = 4096" "TOTAL_BLOCKS = 3000"
  "NODE_TABLE_BLOCKS = 32" "DISK_SIZE = 12288000" "BITMAP_SIZE = 375" "BITMAP_BLOCKS = 1"
  "NODE_TABLE_INITIAL_BLOCK = 2" "DATA_BLOCKS = 2966" "DIR_ENTRY_SIZE = 128"
  by (simp_all add: BITMAP_INITIAL_BLOCK_def BLOCK_SIZE_def TOTAL_BLOCKS_def
      NODE_TABLE_BLOCKS_def DISK_SIZE_def BITMAP_SIZE_def BITMAP_BLOCKS_def
      NODE_TABLE_INITIAL_BLOCK_def DATA_BLOCKS_def DIR_ENTRY_SIZE_def)

section \<open>State\<close>

text \<open>
  The blocks of the disk file, the bitmap (\<open>bitmap\<close>, a global of \<open>disk.h\<close> that lives in
  memory), and the number of allocations made so far (\<open>tick\<close>, the index into the clock and
  the uninitialised memory of \<open>env\<close>).
\<close>

record fs =
  disk :: "nat \<Rightarrow> bytes"
  bitmap :: t_bitarray
  tick :: nat

definition disk_ok :: "fs \<Rightarrow> bool" where
  "disk_ok s \<longleftrightarrow> (\<forall>b < TOTAL_BLOCKS. length (disk s b) = BLOCK_SIZE)"

section \<open>Mapping and accessing blocks\<close>

text \<open>
  The offset is a \<open>u_int32_t\<close>, so \<open>block_num * BLOCK_SIZE\<close> wraps; a page past the end of the
  file can be mapped but not accessed.
\<close>

definition map_block :: "u32 \<Rightarrow> error + nat" where
  "map_block block_num =
     (let offset = block_num * of_nat BLOCK_SIZE
      in if unat offset + BLOCK_SIZE \<le> DISK_SIZE then Inr (unat offset div BLOCK_SIZE)
         else Inl Bad_map)"

fun map_blocks :: "u32 \<Rightarrow> nat \<Rightarrow> error + nat list" where
  "map_blocks b 0 = Inr []"
| "map_blocks b (Suc n) =
     bindE (map_block b) (\<lambda>h. bindE (map_blocks (b + 1) n) (\<lambda>hs. Inr (h # hs)))"

definition read_blocks :: "u32 \<Rightarrow> u32 \<Rightarrow> error + nat list" where
  "read_blocks from_block to_block =
     (let diff = to_block - from_block + 1 in map_blocks from_block (unat diff))"

definition read_block :: "u32 \<Rightarrow> error + nat" where
  "read_block block_num =
     bindE (read_blocks block_num block_num)
       (\<lambda>blocks. case blocks of [] \<Rightarrow> Inl Out_of_bounds | b # _ \<Rightarrow> Inr b)"

text \<open>\<open>memcpy\<close> from and to the mapped page \<open>b\<close>.\<close>

definition read_bytes :: "fs \<Rightarrow> nat \<Rightarrow> nat \<Rightarrow> nat \<Rightarrow> error + bytes" where
  "read_bytes s b pos n =
     (if pos + n \<le> BLOCK_SIZE then Inr (memget (disk s b) pos n) else Inl Bad_map)"

definition write_bytes :: "fs \<Rightarrow> nat \<Rightarrow> nat \<Rightarrow> bytes \<Rightarrow> error + fs" where
  "write_bytes s b pos bs =
     (if pos + length bs \<le> BLOCK_SIZE
      then Inr (s\<lparr>disk := (disk s)(b := memput (disk s b) pos bs)\<rparr>) else Inl Bad_map)"

text \<open>\<open>_bytes_to_int32\<close> of \<open>directory.c\<close>.\<close>

definition bytes_to_int32 :: "bytes \<Rightarrow> u32" where
  "bytes_to_int32 bs = le_dec (memget bs 0 4)"

section \<open>Lemmas\<close>

lemma map_block_in: "unat b < TOTAL_BLOCKS \<Longrightarrow> map_block b = Inr (unat b)"
  by (simp add: map_block_def Let_def const_simps unat_word_ariths)

lemma map_block_out:
  "TOTAL_BLOCKS \<le> unat b \<Longrightarrow> unat b < 2 ^ 20 \<Longrightarrow> map_block b = Inl Bad_map"
  by (simp add: map_block_def Let_def const_simps unat_word_ariths)

lemma read_block_eq: "read_block b = map_block b"
  by (cases "map_block b") (simp_all add: read_block_def read_blocks_def)

lemma read_block_in [simp]: "unat b < TOTAL_BLOCKS \<Longrightarrow> read_block b = Inr (unat b)"
  by (simp add: read_block_eq map_block_in)

lemma write_bytes_disk_ok:
  "disk_ok s \<Longrightarrow> b < TOTAL_BLOCKS \<Longrightarrow> write_bytes s b pos bs = Inr s' \<Longrightarrow> disk_ok s'"
  by (auto simp: write_bytes_def disk_ok_def length_memput split: if_splits)

text \<open>
  The interface of the disk to the layers above it: reads and writes at an offset of a
  block, in bounds, with the usual laws.
\<close>

locale block_store =
  fixes rd :: "'s \<Rightarrow> nat \<Rightarrow> nat \<Rightarrow> nat \<Rightarrow> error + bytes"
    and wr :: "'s \<Rightarrow> nat \<Rightarrow> nat \<Rightarrow> bytes \<Rightarrow> error + 's"
    and ok :: "'s \<Rightarrow> bool"
    and n_blocks :: nat
    and width :: nat
  assumes wr_in: "ok s \<Longrightarrow> b < n_blocks \<Longrightarrow> pos + length bs \<le> width \<Longrightarrow>
      \<exists>s'. wr s b pos bs = Inr s' \<and> ok s'"
    and wr_out: "width < pos + length bs \<Longrightarrow> \<exists>e. wr s b pos bs = Inl e"
    and rd_in: "ok s \<Longrightarrow> b < n_blocks \<Longrightarrow> pos + n \<le> width \<Longrightarrow>
      \<exists>bs. rd s b pos n = Inr bs \<and> length bs = n"
    and rd_wr_same: "ok s \<Longrightarrow> b < n_blocks \<Longrightarrow> wr s b pos bs = Inr s' \<Longrightarrow>
      rd s' b pos (length bs) = Inr bs"
    and rd_wr_other: "ok s \<Longrightarrow> b < n_blocks \<Longrightarrow> wr s b pos bs = Inr s' \<Longrightarrow>
      b' \<noteq> b \<or> q + n \<le> pos \<or> pos + length bs \<le> q \<Longrightarrow> rd s' b' q n = rd s b' q n"
begin

lemma wr_ok: "ok s \<Longrightarrow> b < n_blocks \<Longrightarrow> wr s b pos bs = Inr s' \<Longrightarrow> ok s'"
  by (metis Inl_Inr_False Inr_inject linorder_not_less wr_in wr_out)

text \<open>A table of \<open>u_int32_t\<close> in a block: storing one cell leaves every other cell.\<close>

lemma cell_after_wr:
  assumes "ok s" and "b < n_blocks" and "wr s b (4 * i) (le_enc 4 (x::u32)) = Inr s'"
  shows "rd s' b' (4 * j) 4 =
    (if b' = b \<and> j = i then Inr (le_enc 4 x) else rd s b' (4 * j) 4)"
proof (cases "b' = b \<and> j = i")
  case True
  then show ?thesis using rd_wr_same [OF assms] by simp
next
  case False
  then have "b' \<noteq> b \<or> 4 * j + 4 \<le> 4 * i \<or> 4 * i + length (le_enc 4 x) \<le> 4 * j"
    by (cases "b' = b") auto
  then have "rd s' b' (4 * j) 4 = rd s b' (4 * j) 4" by (rule rd_wr_other [OF assms])
  with False show ?thesis by (simp only: if_False)
qed

lemma two_cells:
  assumes "ok s" and "b < n_blocks" and "b' < n_blocks" and "(b, i) \<noteq> (b', j)"
    and "wr s b (4 * i) (le_enc 4 (x::u32)) = Inr s1"
    and "wr s1 b' (4 * j) (le_enc 4 (y::u32)) = Inr s2"
  shows "rd s2 b (4 * i) 4 = Inr (le_enc 4 x) \<and> rd s2 b' (4 * j) 4 = Inr (le_enc 4 y)"
proof -
  have "ok s1" using assms by (blast intro: wr_ok)
  from cell_after_wr [OF this assms(3,6)] cell_after_wr [OF assms(1,2,5)] assms(4)
  show ?thesis by auto
qed

end

interpretation store: block_store read_bytes write_bytes disk_ok TOTAL_BLOCKS BLOCK_SIZE
proof
  show "read_bytes s' b pos (length bs) = Inr bs"
    if "disk_ok s" "b < TOTAL_BLOCKS" "write_bytes s b pos bs = Inr s'" for s b pos bs s'
    using that by (auto simp: read_bytes_def write_bytes_def disk_ok_def buf_simps split: if_splits)
  show "read_bytes s' b' q n = read_bytes s b' q n"
    if "disk_ok s" "b < TOTAL_BLOCKS" "write_bytes s b pos bs = Inr s'"
      "b' \<noteq> b \<or> q + n \<le> pos \<or> pos + length bs \<le> q" for s b pos bs s' b' q n
    using that by (auto simp: read_bytes_def write_bytes_def disk_ok_def buf_simps split: if_splits)
qed (auto simp: read_bytes_def write_bytes_def disk_ok_def buf_simps)

end
