(* ===== verification/Bitmap.thy ===== *)
theory Bitmap
  imports Block
begin

text \<open>
  \<open>bitmap.c\<close>: the allocator of blocks over the bit array of the commons library. The
  allocator of data blocks and the one of node blocks are two instances of the interface
  \<open>allocator\<close>, which carries the lemmas on sequences of allocations and releases.
\<close>

section \<open>Operations\<close>

definition init_bitmap :: "env \<Rightarrow> bytes \<Rightarrow> fs \<Rightarrow> fs" where
  "init_bitmap E ba s =
     s\<lparr>bitmap := bitarray_create_with_mode E ba (TOTAL_BLOCKS div 8) MSB_FIRST\<rparr>"

text \<open>A bit past the last byte of the array is a read (or a store) outside of it.\<close>

definition block_is_free :: "env \<Rightarrow> nat \<Rightarrow> fs \<Rightarrow> error + bool" where
  "block_is_free E block_number s =
     (if block_number < 8 * ba_size (bitmap s)
      then Inr (\<not> bitarray_test_bit E (bitmap s) block_number) else Inl Out_of_bounds)"

definition set_block :: "env \<Rightarrow> nat \<Rightarrow> fs \<Rightarrow> error + fs" where
  "set_block E block_number s =
     (if block_number < 8 * ba_size (bitmap s)
      then Inr (s\<lparr>bitmap := bitarray_set_bit E (bitmap s) block_number\<rparr>) else Inl Overrun)"

definition free_block :: "env \<Rightarrow> u32 \<Rightarrow> fs \<Rightarrow> error + fs" where
  "free_block E block_number s =
     (if unat block_number < 8 * ba_size (bitmap s)
      then Inr (s\<lparr>bitmap := bitarray_clean_bit E (bitmap s) (unat block_number)\<rparr>)
      else Inl Overrun)"

text \<open>
  The search has no upper bound of its own: \<open>for (bit_index = from; !block_is_free(bit_index);
  bit_index++)\<close>. It stops at a free bit or by reading past the array.
\<close>

function next_free :: "env \<Rightarrow> fs \<Rightarrow> nat \<Rightarrow> error + nat" where
  "next_free E s bit_index =
     bindE (block_is_free E bit_index s)
       (\<lambda>f. if f then Inr bit_index else next_free E s (Suc bit_index))"
  by pat_completeness auto
termination
  by (relation "measure (\<lambda>(E, s, i). 8 * ba_size (bitmap s) - i)")
     (auto simp: block_is_free_def split: if_splits)

declare next_free.simps [simp del]

definition get_free_block :: "env \<Rightarrow> nat \<Rightarrow> nat \<Rightarrow> fs \<Rightarrow> error + (u32 \<times> fs)" where
  "get_free_block E from_block_num to_block_num s =
     bindE (next_free E s from_block_num) (\<lambda>bit_index.
       if bit_index \<ge> to_block_num then Inl (Exit (- 1))
       else bindE (set_block E bit_index s) (\<lambda>s. Inr (of_nat bit_index, s)))"

definition get_free_node_block :: "env \<Rightarrow> fs \<Rightarrow> error + (u32 \<times> fs)" where
  "get_free_node_block E s =
     get_free_block E NODE_TABLE_INITIAL_BLOCK (NODE_TABLE_INITIAL_BLOCK + NODE_TABLE_BLOCKS) s"

definition get_free_data_block :: "env \<Rightarrow> fs \<Rightarrow> error + (u32 \<times> fs)" where
  "get_free_data_block E s =
     get_free_block E (NODE_TABLE_INITIAL_BLOCK + NODE_TABLE_BLOCKS) TOTAL_BLOCKS s"

section \<open>Used blocks\<close>

definition used :: "env \<Rightarrow> fs \<Rightarrow> nat \<Rightarrow> bool" where
  "used E s b \<longleftrightarrow> bitarray_test_bit E (bitmap s) b"

definition bitmap_ok :: "fs \<Rightarrow> bool" where
  "bitmap_ok s \<longleftrightarrow> ba_ok (bitmap s) \<and> ba_size (bitmap s) = BITMAP_SIZE"

lemma bitmap_frame [simp]:
  "used E (s\<lparr>tick := t\<rparr>) b = used E s b" "used E (s\<lparr>disk := d\<rparr>) b = used E s b"
  "bitmap_ok (s\<lparr>tick := t\<rparr>) = bitmap_ok s" "bitmap_ok (s\<lparr>disk := d\<rparr>) = bitmap_ok s"
  by (simp_all add: used_def bitmap_ok_def)

text \<open>The data blocks that are not in use.\<close>

definition free_data :: "env \<Rightarrow> fs \<Rightarrow> nat set" where
  "free_data E s = {b. 34 \<le> b \<and> b < 3000 \<and> \<not> used E s b}"

lemma free_data_frame [simp]:
  "free_data E (s\<lparr>tick := t\<rparr>) = free_data E s" "free_data E (s\<lparr>disk := d\<rparr>) = free_data E s"
  by (simp_all add: free_data_def)

lemma bitmap_ok_size: "bitmap_ok s \<Longrightarrow> 8 * ba_size (bitmap s) = TOTAL_BLOCKS"
  by (simp add: bitmap_ok_def const_simps)

lemma next_free_found:
  "i \<le> j \<Longrightarrow> j < 8 * ba_size (bitmap s) \<Longrightarrow> \<not> used E s j \<Longrightarrow>
   (\<forall>k. i \<le> k \<and> k < j \<longrightarrow> used E s k) \<Longrightarrow> next_free E s i = Inr j"
proof (induction "j - i" arbitrary: i)
  case 0
  then show ?case by (simp add: next_free.simps [of E s i] block_is_free_def used_def)
next
  case (Suc n)
  then have "i < j" and "used E s i" by auto
  moreover have "next_free E s (Suc i) = Inr j"
    using Suc.prems \<open>i < j\<close> Suc.hyps(2) by (intro Suc.hyps(1)) auto
  ultimately show ?case
    using Suc.prems by (simp add: next_free.simps [of E s i] block_is_free_def used_def)
qed

lemma next_free_none:
  "(\<forall>k. i \<le> k \<and> k < 8 * ba_size (bitmap s) \<longrightarrow> used E s k) \<Longrightarrow>
   next_free E s i = Inl Out_of_bounds"
proof (induction "8 * ba_size (bitmap s) - i" arbitrary: i)
  case 0
  then show ?case by (simp add: next_free.simps [of E s i] block_is_free_def)
next
  case (Suc n)
  then have "next_free E s (Suc i) = Inl Out_of_bounds" by (intro Suc.hyps(1)) auto
  with Suc show ?case by (simp add: next_free.simps [of E s i] block_is_free_def used_def)
qed

lemma next_free_Inr:
  "next_free E s i = Inr j \<Longrightarrow>
   i \<le> j \<and> j < 8 * ba_size (bitmap s) \<and> \<not> used E s j \<and> (\<forall>k. i \<le> k \<and> k < j \<longrightarrow> used E s k)"
proof (induction E s i rule: next_free.induct)
  case (1 E s i)
  then obtain f where f: "block_is_free E i s = Inr f"
    and step: "(if f then Inr i else next_free E s (Suc i)) = Inr j"
    by (subst (asm) (2) next_free.simps) (auto simp: bindE_eq_Inr)
  from f have i: "i < 8 * ba_size (bitmap s)" "f \<longleftrightarrow> \<not> used E s i"
    by (auto simp: block_is_free_def used_def split: if_splits)
  show ?case
  proof (cases f)
    case True
    with step i show ?thesis by auto
  next
    case False
    with step have "Suc i \<le> j \<and> j < 8 * ba_size (bitmap s) \<and> \<not> used E s j \<and>
        (\<forall>k. Suc i \<le> k \<and> k < j \<longrightarrow> used E s k)"
      by (intro "1.IH" [OF f]) simp_all
    with False i show ?thesis by (metis Suc_leI Suc_le_lessD le_less)
  qed
qed

section \<open>The interface of an allocator\<close>

text \<open>
  An allocator hands out the least free number of \<open>[lo, hi)\<close> and marks it taken; releasing a
  number makes it free again; no other number below \<open>lim\<close> changes.
\<close>

locale allocator =
  fixes alloc :: "'s \<Rightarrow> error + (u32 \<times> 's)"
    and release :: "u32 \<Rightarrow> 's \<Rightarrow> error + 's"
    and taken :: "'s \<Rightarrow> nat \<Rightarrow> bool"
    and inv :: "'s \<Rightarrow> bool"
    and lo hi lim :: nat
  assumes bounds: "lo \<le> hi" "hi \<le> lim"
    and alloc_some: "inv s \<Longrightarrow> \<exists>b. lo \<le> b \<and> b < hi \<and> \<not> taken s b \<Longrightarrow> \<exists>b s'. alloc s = Inr (b, s')"
    and alloc_none: "inv s \<Longrightarrow> \<forall>b. lo \<le> b \<and> b < hi \<longrightarrow> taken s b \<Longrightarrow> \<exists>e. alloc s = Inl e"
    and alloc_least: "inv s \<Longrightarrow> alloc s = Inr (b, s') \<Longrightarrow>
      lo \<le> unat b \<and> unat b < hi \<and> \<not> taken s (unat b) \<and> (\<forall>k. lo \<le> k \<and> k < unat b \<longrightarrow> taken s k)"
    and alloc_taken: "inv s \<Longrightarrow> alloc s = Inr (b, s') \<Longrightarrow> k < lim \<Longrightarrow>
      taken s' k \<longleftrightarrow> k = unat b \<or> taken s k"
    and alloc_inv: "inv s \<Longrightarrow> alloc s = Inr (b, s') \<Longrightarrow> inv s'"
    and release_some: "inv s \<Longrightarrow> unat b < lim \<Longrightarrow> \<exists>s'. release b s = Inr s'"
    and release_taken: "inv s \<Longrightarrow> unat b < lim \<Longrightarrow> release b s = Inr s' \<Longrightarrow> k < lim \<Longrightarrow>
      taken s' k \<longleftrightarrow> k \<noteq> unat b \<and> taken s k"
    and release_inv: "inv s \<Longrightarrow> unat b < lim \<Longrightarrow> release b s = Inr s' \<Longrightarrow> inv s'"
begin

definition free_set :: "'s \<Rightarrow> nat set" where
  "free_set s = {b. lo \<le> b \<and> b < hi \<and> \<not> taken s b}"

lemma finite_free_set [simp]: "finite (free_set s)"
  by (rule finite_subset [of _ "{..<hi}"]) (auto simp: free_set_def)

lemma alloc_free_set:
  assumes "inv s" and "alloc s = Inr (b, s')"
  shows "unat b \<in> free_set s" and "free_set s' = free_set s - {unat b}"
  using alloc_least [OF assms] alloc_taken [OF assms] bounds
  by (auto simp: free_set_def)

lemma release_free_set:
  assumes "inv s" and "release b s = Inr s'" and "lo \<le> unat b" and "unat b < hi"
  shows "free_set s' = insert (unat b) (free_set s)"
  using release_taken [OF assms(1) _ assms(2)] bounds assms by (auto simp: free_set_def)

lemma alloc_succeeds_iff: "inv s \<Longrightarrow> (\<exists>b s'. alloc s = Inr (b, s')) \<longleftrightarrow> free_set s \<noteq> {}"
  using alloc_some [of s] alloc_none [of s] by (fastforce simp: free_set_def)

lemma two_allocs_distinct:
  "inv s \<Longrightarrow> alloc s = Inr (b, s1) \<Longrightarrow> alloc s1 = Inr (c, s2) \<Longrightarrow> b \<noteq> c"
  using alloc_free_set alloc_inv by (metis DiffD2 singletonI)

text \<open>Allocation after a release of the least block gives that block again.\<close>

lemma realloc_least:
  assumes "inv s" and "alloc s = Inr (b, s1)" and "release b s1 = Inr s2"
  shows "\<exists>s3. alloc s2 = Inr (b, s3)"
proof -
  note b = alloc_least [OF assms(1,2)]
  have inv1: "inv s1" using assms(1,2) by (rule alloc_inv)
  have blim: "unat b < lim" using b bounds by simp
  have inv2: "inv s2" using inv1 blim assms(3) by (rule release_inv)
  have t2: "taken s2 k \<longleftrightarrow> taken s k" if "k < lim" for k
    using release_taken [OF inv1 blim assms(3) that] alloc_taken [OF assms(1,2) that] b by auto
  obtain c s3 where c: "alloc s2 = Inr (c, s3)"
    using alloc_some [OF inv2] b t2 [OF blim] by blast
  have "unat c = unat b"
  proof (rule linorder_cases [of "unat c" "unat b"])
    assume "unat c < unat b"
    then show ?thesis using b alloc_least [OF inv2 c] t2 [of "unat c"] blim by auto
  next
    assume "unat b < unat c"
    then show ?thesis using b alloc_least [OF inv2 c] t2 [OF blim] by auto
  qed auto
  with c show ?thesis by (auto simp: word_unat_eq_iff)
qed

text \<open>A run of \<open>n\<close> allocations.\<close>

primrec allocs :: "nat \<Rightarrow> 's \<Rightarrow> error + (u32 list \<times> 's)" where
  "allocs 0 s = Inr ([], s)"
| "allocs (Suc n) s =
     bindE (alloc s) (\<lambda>(b, s). bindE (allocs n s) (\<lambda>(bs, s). Inr (b # bs, s)))"

lemma allocs_enough:
  "inv s \<Longrightarrow> n \<le> card (free_set s) \<Longrightarrow>
   \<exists>bs s'. allocs n s = Inr (bs, s') \<and> inv s' \<and> length bs = n \<and> distinct bs \<and>
     unat ` set bs \<subseteq> free_set s \<and> free_set s' = free_set s - unat ` set bs"
proof (induction n arbitrary: s)
  case 0
  then show ?case by simp
next
  case (Suc n)
  then have "free_set s \<noteq> {}" by auto
  then obtain b s1 where b: "alloc s = Inr (b, s1)"
    using alloc_succeeds_iff Suc.prems(1) by blast
  note fs = alloc_free_set [OF Suc.prems(1) b]
  have "n \<le> card (free_set s1)" using Suc.prems(2) fs by (simp add: card_Diff_singleton)
  then obtain bs s2 where bs: "allocs n s1 = Inr (bs, s2)" "inv s2" "length bs = n" "distinct bs"
      "unat ` set bs \<subseteq> free_set s1" "free_set s2 = free_set s1 - unat ` set bs"
    using Suc.IH [OF alloc_inv [OF Suc.prems(1) b]] by blast
  have "b \<notin> set bs" using bs(5) fs(2) by auto
  with b bs fs show ?case by auto
qed

end

section \<open>The two allocators\<close>

lemma get_free_block_frame:
  "get_free_block E lo hi s = Inr (b, s') \<Longrightarrow> disk s' = disk s \<and> tick s' = tick s"
  by (auto simp: get_free_block_def bindE_eq_Inr set_block_def split: if_splits)

lemma free_block_frame:
  "free_block E b s = Inr s' \<Longrightarrow> disk s' = disk s \<and> tick s' = tick s"
  by (auto simp: free_block_def split: if_splits)

lemma get_free_block_bound:
  "get_free_block E lo hi s = Inr (b, s') \<Longrightarrow> hi \<le> 2 ^ 32 \<Longrightarrow>
   \<exists>j. next_free E s lo = Inr j \<and> j < hi \<and> unat b = j \<and> b = of_nat j \<and> set_block E j s = Inr s'"
  by (auto simp: get_free_block_def bindE_eq_Inr unat_of_nat split: if_splits)

context bitarray_lib
begin

lemma get_free_block_some:
  assumes "bitmap_ok s" and "lo \<le> j" and "j < hi" and "hi \<le> TOTAL_BLOCKS" and "\<not> used E s j"
    and "\<forall>k. lo \<le> k \<and> k < j \<longrightarrow> used E s k"
  shows "get_free_block E lo hi s = Inr (of_nat j, s\<lparr>bitmap := bitarray_set_bit E (bitmap s) j\<rparr>)"
proof -
  have j: "j < 8 * ba_size (bitmap s)" using assms by (simp add: bitmap_ok_size)
  have "next_free E s lo = Inr j" using assms j by (intro next_free_found) auto
  with j assms(3) show ?thesis by (simp add: get_free_block_def set_block_def)
qed

lemma get_free_block_least:
  assumes "bitmap_ok s" and "hi \<le> TOTAL_BLOCKS" and "get_free_block E lo hi s = Inr (b, s')"
  shows "lo \<le> unat b \<and> unat b < hi \<and> \<not> used E s (unat b) \<and>
     (\<forall>k. lo \<le> k \<and> k < unat b \<longrightarrow> used E s k) \<and>
     s' = s\<lparr>bitmap := bitarray_set_bit E (bitmap s) (unat b)\<rparr>"
  using get_free_block_bound [OF assms(3)] next_free_Inr [of E s lo] assms(2)
  by (auto simp: set_block_def const_simps split: if_splits)

lemma get_free_block_none:
  assumes "\<forall>b. lo \<le> b \<and> b < hi \<longrightarrow> used E s b"
  shows "\<exists>e. get_free_block E lo hi s = Inl e"
proof (cases "next_free E s lo")
  case (Inl e)
  then show ?thesis by (simp add: get_free_block_def)
next
  case (Inr j)
  with assms next_free_Inr [OF Inr] have "\<not> j < hi" by auto
  with Inr show ?thesis by (simp add: get_free_block_def)
qed

text \<open>
  With no free bit in its range the search goes on behind it: a free bit there ends the process, and
  without one it reads past the array.
\<close>

lemma get_free_block_full:
  assumes "bitmap_ok s" and "lo \<le> hi" and "\<forall>b. lo \<le> b \<and> b < hi \<longrightarrow> used E s b"
  shows "get_free_block E lo hi s =
    Inl (if \<exists>b. hi \<le> b \<and> b < TOTAL_BLOCKS \<and> \<not> used E s b then Exit (- 1) else Out_of_bounds)"
proof (cases "\<exists>b. hi \<le> b \<and> b < TOTAL_BLOCKS \<and> \<not> used E s b")
  case True
  define j where "j = (LEAST b. hi \<le> b \<and> b < TOTAL_BLOCKS \<and> \<not> used E s b)"
  have j: "hi \<le> j \<and> j < TOTAL_BLOCKS \<and> \<not> used E s j" using LeastI_ex [OF True] by (simp add: j_def)
  have "used E s k" if "lo \<le> k" "k < j" for k
    using not_less_Least [of k "\<lambda>b. hi \<le> b \<and> b < TOTAL_BLOCKS \<and> \<not> used E s b"] that j assms(3)
    by (cases "k < hi") (auto simp: j_def [symmetric])
  then have "next_free E s lo = Inr j"
    using j assms(1,2) by (intro next_free_found) (auto simp: bitmap_ok_size)
  with True j show ?thesis by (simp add: get_free_block_def)
next
  case False
  have "used E s k" if "lo \<le> k" "k < 8 * ba_size (bitmap s)" for k
    using False that assms(3) by (cases "k < hi") (auto simp: bitmap_ok_size [OF assms(1)])
  then have "next_free E s lo = Inl Out_of_bounds" by (intro next_free_none) blast
  with False show ?thesis by (auto simp: get_free_block_def)
qed

lemma used_set_bit:
  "bitmap_ok s \<Longrightarrow> i < TOTAL_BLOCKS \<Longrightarrow> k < TOTAL_BLOCKS \<Longrightarrow>
   used E (s\<lparr>bitmap := bitarray_set_bit E (bitmap s) i\<rparr>) k \<longleftrightarrow> k = i \<or> used E s k"
  using bitmap_ok_size [of s] by (auto simp: used_def bitmap_ok_def test_set)

lemma bitmap_ok_set_bit:
  "bitmap_ok s \<Longrightarrow> i < TOTAL_BLOCKS \<Longrightarrow>
   bitmap_ok (s\<lparr>bitmap := bitarray_set_bit E (bitmap s) i\<rparr>)"
  using bitmap_ok_size [of s] by (auto simp: bitmap_ok_def ok_set size_set)

lemma free_block_some:
  "bitmap_ok s \<Longrightarrow> unat b < TOTAL_BLOCKS \<Longrightarrow>
   free_block E b s = Inr (s\<lparr>bitmap := bitarray_clean_bit E (bitmap s) (unat b)\<rparr>)"
  using bitmap_ok_size [of s] by (simp add: free_block_def)

lemma used_clean_bit:
  "bitmap_ok s \<Longrightarrow> i < TOTAL_BLOCKS \<Longrightarrow> k < TOTAL_BLOCKS \<Longrightarrow>
   used E (s\<lparr>bitmap := bitarray_clean_bit E (bitmap s) i\<rparr>) k \<longleftrightarrow> k \<noteq> i \<and> used E s k"
  using bitmap_ok_size [of s] by (auto simp: used_def bitmap_ok_def test_clean)

lemma bitmap_ok_clean_bit:
  "bitmap_ok s \<Longrightarrow> i < TOTAL_BLOCKS \<Longrightarrow>
   bitmap_ok (s\<lparr>bitmap := bitarray_clean_bit E (bitmap s) i\<rparr>)"
  using bitmap_ok_size [of s] by (auto simp: bitmap_ok_def ok_clean size_clean)

lemma allocator_range:
  assumes "lo \<le> hi" and "hi \<le> TOTAL_BLOCKS"
  shows "allocator (get_free_block E lo hi) (free_block E) (used E) bitmap_ok lo hi TOTAL_BLOCKS"
proof (unfold_locales, goal_cases)
  case (3 s)
  let ?P = "\<lambda>b. lo \<le> b \<and> b < hi \<and> \<not> used E s b"
  from 3(2) have least: "?P (LEAST b. ?P b)" by (rule LeastI_ex)
  moreover have "\<forall>k. lo \<le> k \<and> k < (LEAST b. ?P b) \<longrightarrow> used E s k"
    using not_less_Least [of _ ?P] least by (meson less_trans)
  ultimately show ?case using get_free_block_some [OF 3(1) _ _ assms(2)] by blast
next
  case (4 s)
  then show ?case using get_free_block_none by blast
next
  case (5 s b s')
  from get_free_block_least [OF 5(1) assms(2) 5(2)] show ?case by simp
next
  case (6 s b s' k)
  from get_free_block_least [OF 6(1) assms(2) 6(2)] 6(1,3) assms(2)
  show ?case by (simp add: used_set_bit)
next
  case (7 s b s')
  from get_free_block_least [OF 7(1) assms(2) 7(2)] 7(1) assms(2)
  show ?case by (simp add: bitmap_ok_set_bit)
next
  case (9 s b s' k)
  then show ?case by (auto simp: free_block_some used_clean_bit)
next
  case (10 s b s')
  then show ?case by (auto simp: free_block_some bitmap_ok_clean_bit)
qed (use assms in \<open>simp_all add: free_block_some\<close>)

end

sublocale bitarray_lib \<subseteq> data: allocator "get_free_data_block E" "free_block E" "used E"
    bitmap_ok "NODE_TABLE_INITIAL_BLOCK + NODE_TABLE_BLOCKS" TOTAL_BLOCKS TOTAL_BLOCKS
  unfolding get_free_data_block_def by (rule allocator_range) (simp_all add: const_simps)

context bitarray_lib
begin

lemma free_data_eq: "data.free_set s = free_data E s"
  unfolding data.free_set_def free_data_def by (simp add: const_simps)

text \<open>One allocation of a data block, with everything it leaves alone.\<close>

lemma get_free_data_block_spec:
  assumes "bitmap_ok s" and "free_data E s \<noteq> {}"
  shows "\<exists>b s'. get_free_data_block E s = Inr (b, s') \<and> bitmap_ok s' \<and> disk s' = disk s \<and>
    tick s' = tick s \<and> 34 \<le> unat b \<and> unat b < 3000 \<and> \<not> used E s (unat b) \<and>
    unat b \<in> free_data E s \<and> free_data E s' = free_data E s - {unat b} \<and>
    (\<forall>k < 3000. used E s' k \<longleftrightarrow> k = unat b \<or> used E s k)"
proof -
  obtain b s' where b: "get_free_data_block E s = Inr (b, s')"
    using data.alloc_succeeds_iff [OF assms(1)] assms(2) by (auto simp: free_data_eq)
  then have frame: "disk s' = disk s \<and> tick s' = tick s"
    unfolding get_free_data_block_def by (rule get_free_block_frame)
  note fs = data.alloc_free_set [OF assms(1) b, unfolded free_data_eq]
  have "34 \<le> unat b \<and> unat b < 3000 \<and> \<not> used E s (unat b)"
    using fs(1) by (simp add: free_data_def)
  moreover have "used E s' k \<longleftrightarrow> k = unat b \<or> used E s k" if "k < 3000" for k
    using data.alloc_taken [OF assms(1) b] that by (simp add: const_simps)
  ultimately show ?thesis using b frame fs data.alloc_inv [OF assms(1) b] by blast
qed

end

sublocale bitarray_lib \<subseteq> node: allocator "get_free_node_block E" "free_block E" "used E"
    bitmap_ok NODE_TABLE_INITIAL_BLOCK "NODE_TABLE_INITIAL_BLOCK + NODE_TABLE_BLOCKS" TOTAL_BLOCKS
  unfolding get_free_node_block_def by (rule allocator_range) (simp_all add: const_simps)

context bitarray_lib
begin

text \<open>One allocation of a node: the least free one.\<close>

lemma get_free_node_block_spec:
  assumes "bitmap_ok s" and "n < 32" and "\<not> used E s (2 + n)" and "\<forall>k < n. used E s (2 + k)"
  shows "\<exists>s'. get_free_node_block E s = Inr (of_nat (2 + n), s') \<and> bitmap_ok s' \<and> disk s' = disk s \<and>
    tick s' = tick s \<and> free_data E s' = free_data E s \<and>
    (\<forall>k < 3000. used E s' k \<longleftrightarrow> k = 2 + n \<or> used E s k)"
proof -
  let ?s = "s\<lparr>bitmap := bitarray_set_bit E (bitmap s) (2 + n)\<rparr>"
  have "get_free_node_block E s = Inr (of_nat (2 + n), ?s)"
    unfolding get_free_node_block_def
  proof (rule get_free_block_some)
    show "\<forall>k. NODE_TABLE_INITIAL_BLOCK \<le> k \<and> k < 2 + n \<longrightarrow> used E s k"
      using assms(4) by (auto simp: const_simps dest!: le_Suc_ex)
  qed (use assms in \<open>auto simp: const_simps\<close>)
  moreover have u: "\<forall>k < 3000. used E ?s k \<longleftrightarrow> k = 2 + n \<or> used E s k"
    using used_set_bit [OF assms(1), of "2 + n"] assms(2) by (simp add: const_simps)
  moreover have "free_data E ?s = free_data E s"
    using u assms(2) by (auto simp: free_data_def)
  moreover have "bitmap_ok ?s"
    using assms(1,2) by (intro bitmap_ok_set_bit) (simp_all add: const_simps)
  ultimately show ?thesis by simp
qed

lemmas two_data_blocks = data.two_allocs_distinct

end

end
