(* ===== verification/Utils.thy ===== *)
theory Utils
  imports Bitmap
begin

text \<open>
  The structures of \<open>disk.h\<close> and the functions of \<open>utils.c\<close> that move them to and from
  blocks (header, bitmap, node), with the helpers on paths. A node on disk is its fields
  side by side, little-endian; reading one copies its name with \<open>strcpy\<close>, so the bytes after
  the NUL of a node in memory are whatever the allocation held.
\<close>

section \<open>Structures\<close>

record t_header =
  header_identifier :: bytes
  version :: u32
  bitmap_initial_block :: u32
  bitmap_size :: u32

record t_node =
  state :: byte
  file_name :: bytes
  parent_block :: u32
  file_size :: u32
  creation_date :: u64
  modification_date :: u64
  indirect_pointer_block :: "u32 list"

section \<open>Header\<close>

text \<open>The version parameter is a \<open>u_int8_t\<close>: what does not fit in it is lost.\<close>

definition create_header :: "bytes \<Rightarrow> byte \<Rightarrow> u32 \<Rightarrow> u32 \<Rightarrow> t_header" where
  "create_header ident ver initial sz =
     \<lparr>header_identifier = memget ident 0 3, version = ucast ver,
      bitmap_initial_block = initial, bitmap_size = sz\<rparr>"

definition create_default_header :: t_header where
  "create_default_header =
     create_header (lit ''SAC'') 1 (of_nat BITMAP_INITIAL_BLOCK) (of_nat BITMAP_SIZE)"

definition header_to_block :: "t_header \<Rightarrow> bytes \<Rightarrow> bytes" where
  "header_to_block h block =
     (let block = memput block 0 (header_identifier h);
          block = memput block 3 (le_enc 4 (version h));
          block = memput block 7 (le_enc 4 (bitmap_initial_block h));
          block = memput block 11 (le_enc 4 (bitmap_size h))
      in block)"

definition block_to_header :: "bytes \<Rightarrow> t_header" where
  "block_to_header block =
     (let ident = memget block 0 3;
          ver = le_dec (memget block 3 4) :: u32;
          initial = le_dec (memget block 7 4);
          sz = le_dec (memget block 11 4)
      in create_header ident (ucast ver) initial sz)"

section \<open>Bitmap\<close>

definition create_default_bitmap :: "env \<Rightarrow> t_bitarray" where
  "create_default_bitmap E =
     (let bm = bitarray_create_with_mode E (string_repeat E 0 BITMAP_SIZE) BITMAP_SIZE MSB_FIRST;
          bm = bitarray_set_bit E bm 0;
          bm = foldl (\<lambda>bm i. bitarray_set_bit E bm (i + 1)) bm [0..<BITMAP_BLOCKS]
      in bitarray_set_bit E bm (BITMAP_BLOCKS + 1))"

text \<open>
  The loops that copy the bitmap to and from its blocks. The test that should move on to
  the next block asks for \<open>i % BLOCK_SIZE == 1\<close> and \<open>(i + 1) % BLOCK_SIZE == 0\<close> at once.
\<close>

definition next_block_num :: "nat \<Rightarrow> nat \<Rightarrow> nat" where
  "next_block_num i block_num =
     (if i mod BLOCK_SIZE = 1 \<and> (i + 1) mod BLOCK_SIZE = 0 then block_num + 1 else block_num)"

function bitmap_to_block_from ::
    "t_bitarray \<Rightarrow> nat list \<Rightarrow> nat \<Rightarrow> nat \<Rightarrow> fs \<Rightarrow> error + fs" where
  "bitmap_to_block_from bm blocks i block_num s =
     (if i < ba_size bm
      then if length (bitarray bm) \<le> i \<or> length blocks \<le> block_num then Inl Out_of_bounds
        else bindE (write_bytes s (blocks ! block_num) i [bitarray bm ! i])
          (\<lambda>s. bitmap_to_block_from bm blocks (Suc i) (next_block_num i block_num) s)
      else Inr s)"
  by pat_completeness auto
termination
  by (relation "measure (\<lambda>(bm, blocks, i, block_num, s). ba_size bm - i)") auto

definition bitmap_to_block :: "t_bitarray \<Rightarrow> nat list \<Rightarrow> fs \<Rightarrow> error + fs" where
  "bitmap_to_block bm blocks s = bitmap_to_block_from bm blocks 0 0 s"

function block_to_bitmap_from :: "nat list \<Rightarrow> nat \<Rightarrow> nat \<Rightarrow> fs \<Rightarrow> error + bytes" where
  "block_to_bitmap_from blocks i block_num s =
     (if i < BITMAP_SIZE
      then if length blocks \<le> block_num then Inl Out_of_bounds
        else bindE (read_bytes s (blocks ! block_num) i 1)
          (\<lambda>b. bindE (block_to_bitmap_from blocks (Suc i) (next_block_num i block_num) s)
            (\<lambda>bs. Inr (b @ bs)))
      else Inr [])"
  by pat_completeness auto
termination
  by (relation "measure (\<lambda>(blocks, i, block_num, s). BITMAP_SIZE - i)") auto

definition block_to_bitmap :: "env \<Rightarrow> nat list \<Rightarrow> fs \<Rightarrow> error + t_bitarray" where
  "block_to_bitmap E blocks s =
     bindE (block_to_bitmap_from blocks 0 0 s)
       (\<lambda>ba. Inr (bitarray_create_with_mode E ba BITMAP_SIZE MSB_FIRST))"

declare bitmap_to_block_from.simps [simp del] block_to_bitmap_from.simps [simp del]

section \<open>Nodes\<close>

text \<open>
  \<open>strcpy\<close> into \<open>file_name[71]\<close>: a name of 71 bytes or more does not fit with its NUL.
\<close>

definition create_node ::
    "env \<Rightarrow> byte \<Rightarrow> cstr \<Rightarrow> u32 \<Rightarrow> u32 \<Rightarrow> u64 \<Rightarrow> u64 \<Rightarrow> u32 list \<Rightarrow> fs \<Rightarrow> error + (t_node \<times> fs)" where
  "create_node E st name parent fsize cdate mdate pointers s =
     (if length name < 71
      then Inr (\<lparr>state = st,
          file_name = name @ 0 # map (\<lambda>i. uninit E (tick s) (1 + i)) [Suc (length name)..<71],
          parent_block = parent, file_size = fsize, creation_date = cdate,
          modification_date = mdate, indirect_pointer_block = pointers\<rparr>,
        s\<lparr>tick := Suc (tick s)\<rparr>)
      else Inl Overrun)"

definition create_root_dir :: "env \<Rightarrow> fs \<Rightarrow> error + (t_node \<times> fs)" where
  "create_root_dir E s =
     (let date = now E (tick s)
      in create_node E 2 (lit ''/'') 0 0 date date (replicate 1000 0) s)"

definition node_to_block :: "t_node \<Rightarrow> bytes \<Rightarrow> bytes" where
  "node_to_block node block =
     (let block = memput block 0 [state node];
          block = memput block 1 (file_name node);
          block = memput block 72 (le_enc 4 (parent_block node));
          block = memput block 76 (le_enc 4 (file_size node));
          block = memput block 80 (le_enc 8 (creation_date node));
          block = memput block 88 (le_enc 8 (modification_date node));
          block = memput block 96 (u32s_bytes (indirect_pointer_block node))
      in block)"

definition block_to_node :: "env \<Rightarrow> bytes \<Rightarrow> fs \<Rightarrow> error + (t_node \<times> fs)" where
  "block_to_node E block s =
     bindE (strread (memget block 1 71)) (\<lambda>name.
       create_node E (block ! 0) name (le_dec (memget block 72 4)) (le_dec (memget block 76 4))
         (le_dec (memget block 80 8)) (le_dec (memget block 88 8))
         (u32s_of (memget block 96 4000) 1000) s)"

text \<open>Storing a node through the mapping of block \<open>b\<close>.\<close>

definition put_node :: "t_node \<Rightarrow> nat \<Rightarrow> fs \<Rightarrow> fs" where
  "put_node node b s = s\<lparr>disk := (disk s)(b := node_to_block node (disk s b))\<rparr>"

section \<open>Paths\<close>

text \<open>
  \<open>splitted_path[len-1]\<close> is outside of the array when the path has no component.
\<close>

definition last_component :: "env \<Rightarrow> cstr \<Rightarrow> error + cstr" where
  "last_component E path =
     (let splitted_path = string_split E path [slash]
      in if splitted_path = [] then Inl Out_of_bounds else Inr (last splitted_path))"

definition getFolderPathFromFilePath :: "env \<Rightarrow> cstr \<Rightarrow> error + cstr" where
  "getFolderPathFromFilePath E filePath =
     bindE (last_component E filePath) (\<lambda>name.
       Inr (string_substring_until E filePath
         (int (string_length E filePath) - int (string_length E name) - 1)))"

definition getFileNameFromFilePath :: "env \<Rightarrow> cstr \<Rightarrow> error + cstr" where
  "getFileNameFromFilePath E filePath =
     bindE (last_component E filePath) (\<lambda>name. Inr (string_duplicate E name))"

definition min_int :: "int \<Rightarrow> int \<Rightarrow> int" where
  "min_int a b = (if a > b then b else a)"

section \<open>Lemmas: the header\<close>

definition header_ok :: "t_header \<Rightarrow> bool" where
  "header_ok h \<longleftrightarrow> length (header_identifier h) = 3 \<and> unat (version h) < 256"

lemma header_to_block_eq:
  "length (header_identifier h) = 3 \<Longrightarrow> length block = 4096 \<Longrightarrow>
   header_to_block h block =
     header_identifier h @ le_enc 4 (version h) @ le_enc 4 (bitmap_initial_block h) @
       le_enc 4 (bitmap_size h) @ drop 15 block"
  by (simp add: header_to_block_def Let_def memput_def)

lemma ucast_u8_back: "unat (v :: u32) < 256 \<Longrightarrow> ucast (ucast v :: byte) = v"
  by (simp add: word_unat_eq_iff unsigned_ucast_eq take_bit_eq_mod unat_mod)

lemma block_to_header_to_block:
  "header_ok h \<Longrightarrow> length block = 4096 \<Longrightarrow> block_to_header (header_to_block h block) = h"
  by (simp add: header_to_block_eq header_ok_def block_to_header_def create_header_def Let_def
      memget_def le_dec_enc ucast_u8_back)

section \<open>Lemmas: nodes\<close>

definition node_ok :: "t_node \<Rightarrow> bool" where
  "node_ok nd \<longleftrightarrow> length (file_name nd) = 71 \<and> length (indirect_pointer_block nd) = 1000"

definition node_bytes :: "t_node \<Rightarrow> bytes" where
  "node_bytes nd =
     state nd # file_name nd @ le_enc 4 (parent_block nd) @ le_enc 4 (file_size nd) @
       le_enc 8 (creation_date nd) @ le_enc 8 (modification_date nd) @
       u32s_bytes (indirect_pointer_block nd)"

definition node_of :: "bytes \<Rightarrow> t_node" where
  "node_of bs =
     \<lparr>state = bs ! 0, file_name = memget bs 1 71, parent_block = le_dec (memget bs 72 4),
      file_size = le_dec (memget bs 76 4), creation_date = le_dec (memget bs 80 8),
      modification_date = le_dec (memget bs 88 8),
      indirect_pointer_block = u32s_of (memget bs 96 4000) 1000\<rparr>"

lemma node_to_block_eq:
  "node_ok nd \<Longrightarrow> length block = 4096 \<Longrightarrow> node_to_block nd block = node_bytes nd"
  by (simp add: node_to_block_def Let_def memput_next node_ok_def node_bytes_def memput_full)

interpretation node_codec: fixed_codec node_bytes node_of 4096 node_ok
proof
  fix nd
  assume ok: "node_ok nd"
  show "length (node_bytes nd) = 4096"
    using ok by (simp add: node_bytes_def node_ok_def)
  have "u32s_of (u32s_bytes (indirect_pointer_block nd)) 1000 = indirect_pointer_block nd"
    using ok u32s_of_bytes [of 1000 "indirect_pointer_block nd" "[]"] by (simp add: node_ok_def)
  then show "node_of (node_bytes nd) = nd"
    using ok by (simp add: node_of_def node_bytes_def node_ok_def memget_def le_dec_enc)
qed

lemma node_of_ok: "length bs = 4096 \<Longrightarrow> node_ok (node_of bs)"
  by (simp add: node_of_def node_ok_def length_memget)

lemma node_bytes_of: "length bs = 4096 \<Longrightarrow> node_bytes (node_of bs) = bs"
proof -
  assume len: "length bs = 4096"
  have p: "u32s_bytes (u32s_of (drop 96 bs) 1000) = drop 96 bs"
    using len by (intro u32s_bytes_of) simp
  have cut: "drop i bs = take n (drop i bs) @ drop (i + n) bs" for i n
    by (metis add.commute append_take_drop_id drop_drop)
  have "bs = bs ! 0 # drop 1 bs" using len by (cases bs) auto
  also have "\<dots> = bs ! 0 # take 71 (drop 1 bs) @ take 4 (drop 72 bs) @ take 4 (drop 76 bs) @
      take 8 (drop 80 bs) @ take 8 (drop 88 bs) @ drop 96 bs"
    using cut [of 1 71] cut [of 72 4] cut [of 76 4] cut [of 80 8] cut [of 88 8] by simp
  finally have "bs = \<dots>" .
  then show ?thesis
    using len p by (simp add: node_bytes_def node_of_def memget_def le_enc_dec)
qed

text \<open>
  What a node says, without the bytes after the NUL of its name; \<open>named\<close> nodes have a NUL
  inside the name field, as every node that \<open>create_node\<close> made has.
\<close>

definition nview :: "t_node \<Rightarrow> t_node" where
  "nview nd = nd\<lparr>file_name := cstr (file_name nd)\<rparr>"

definition named :: "t_node \<Rightarrow> bool" where
  "named nd \<longleftrightarrow> node_ok nd \<and> 0 \<in> set (file_name nd)"

lemma nview_simps [simp]:
  "state (nview nd) = state nd" "file_name (nview nd) = cstr (file_name nd)"
  "parent_block (nview nd) = parent_block nd" "file_size (nview nd) = file_size nd"
  "creation_date (nview nd) = creation_date nd"
  "modification_date (nview nd) = modification_date nd"
  "indirect_pointer_block (nview nd) = indirect_pointer_block nd"
  by (simp_all add: nview_def)

lemma named_length: "named nd \<Longrightarrow> length (cstr (file_name nd)) < 71"
  using length_cstr_less [of "file_name nd"] by (simp add: named_def node_ok_def)

lemma create_node_spec:
  assumes "is_cstr name" and "length name < 71" and "length ptrs = 1000"
  shows "\<exists>nd. create_node E st name p z c m ptrs s = Inr (nd, s\<lparr>tick := Suc (tick s)\<rparr>) \<and>
    named nd \<and> nview nd = \<lparr>state = st, file_name = name, parent_block = p, file_size = z,
      creation_date = c, modification_date = m, indirect_pointer_block = ptrs\<rparr>"
  using assms by (auto simp: create_node_def named_def node_ok_def nview_def cstr_terminated)

lemma create_node_too_long: "71 \<le> length name \<Longrightarrow> create_node E st name p z c m ptrs s = Inl Overrun"
  by (simp add: create_node_def)

lemma block_to_node_spec:
  assumes "length bs = 4096" and "named (node_of bs)"
  shows "\<exists>nd. block_to_node E bs s = Inr (nd, s\<lparr>tick := Suc (tick s)\<rparr>) \<and>
    named nd \<and> nview nd = nview (node_of bs)"
proof -
  let ?n = "cstr (memget bs 1 71)"
  have nul: "0 \<in> set (memget bs 1 71)" using assms(2) by (simp add: named_def node_of_def)
  have "length ?n < 71" using named_length [OF assms(2)] by (simp add: node_of_def)
  from create_node_spec [OF is_cstr_cstr this, of "u32s_of (memget bs 96 4000) 1000" E "bs ! 0"]
  show ?thesis
    using nul by (simp add: block_to_node_def strread_def node_of_def nview_def)
qed

section \<open>Lemmas: the bitmap on disk\<close>

lemma next_block_num_same [simp]: "next_block_num i b = b"
  by (simp add: next_block_num_def BLOCK_SIZE_def mod_Suc)

lemma bitmap_to_block_from_eq:
  "length (bitarray bm) = ba_size bm \<Longrightarrow> ba_size bm \<le> 4096 \<Longrightarrow> i \<le> ba_size bm \<Longrightarrow>
   length (disk s h) = 4096 \<Longrightarrow>
   bitmap_to_block_from bm (h # hs) i 0 s =
     Inr (s\<lparr>disk := (disk s)(h := memput (disk s h) i (drop i (bitarray bm)))\<rparr>)"
proof (induction "ba_size bm - i" arbitrary: i s)
  case 0
  then show ?case by (simp add: bitmap_to_block_from.simps [of bm _ i] memput_def)
next
  case (Suc n)
  let ?x = "bitarray bm ! i" and ?D = "disk s h"
  let ?s = "s\<lparr>disk := (disk s)(h := memput ?D i [?x])\<rparr>"
  have i: "i < ba_size bm" using Suc.hyps(2) by simp
  have w: "write_bytes s h i [?x] = Inr ?s"
    using i Suc.prems by (simp add: write_bytes_def const_simps)
  have "bitmap_to_block_from bm (h # hs) (Suc i) 0 ?s =
      Inr (?s\<lparr>disk := (disk ?s)(h := memput (disk ?s h) (Suc i) (drop (Suc i) (bitarray bm)))\<rparr>)"
    using Suc.prems Suc.hyps(2) i by (intro Suc.hyps(1)) (auto simp: length_memput)
  moreover have "memput (memput ?D i [?x]) (Suc i) (drop (Suc i) (bitarray bm)) =
      memput ?D i (drop i (bitarray bm))"
    using memput_append [of i "[?x]" "drop (Suc i) (bitarray bm)" ?D] i Suc.prems
    by (simp add: Cons_nth_drop_Suc)
  ultimately show ?case
    using i w Suc.prems by (simp add: bitmap_to_block_from.simps [of bm _ i])
qed

lemma bitmap_to_block_from_large:
  "length (bitarray bm) = ba_size bm \<Longrightarrow> 4096 < ba_size bm \<Longrightarrow> i \<le> 4096 \<Longrightarrow>
   bitmap_to_block_from bm (h # hs) i 0 s = Inl Bad_map"
proof (induction "4096 - i" arbitrary: i s)
  case 0
  then show ?case
    by (simp add: bitmap_to_block_from.simps [of bm _ 4096] write_bytes_def const_simps)
next
  case (Suc n)
  then have "i < ba_size bm" and "i < 4096" by auto
  then show ?case
    using Suc by (simp add: bitmap_to_block_from.simps [of bm _ i] write_bytes_def const_simps)
qed

lemma block_to_bitmap_from_eq:
  "length (disk s h) = 4096 \<Longrightarrow> i \<le> 375 \<Longrightarrow>
   block_to_bitmap_from (h # hs) i 0 s = Inr (memget (disk s h) i (375 - i))"
proof (induction "375 - i" arbitrary: i)
  case 0
  then show ?case by (simp add: block_to_bitmap_from.simps [of _ 375] const_simps memget_def)
next
  case (Suc n)
  then have i: "i < 375" by auto
  define m where "m = 375 - Suc i"
  have m: "375 - i = Suc m" using i by (simp add: m_def)
  have "drop i (disk s h) = disk s h ! i # drop (Suc i) (disk s h)"
    using i Suc.prems by (intro Cons_nth_drop_Suc [symmetric]) simp
  then have "memget (disk s h) i 1 @ memget (disk s h) (Suc i) m = memget (disk s h) i (Suc m)"
    by (simp add: memget_def)
  then have "memget (disk s h) i 1 @ memget (disk s h) (Suc i) (375 - Suc i) =
      memget (disk s h) i (375 - i)"
    unfolding m m_def [symmetric] .
  moreover have "block_to_bitmap_from (h # hs) (Suc i) 0 s =
      Inr (memget (disk s h) (Suc i) (375 - Suc i))"
    using Suc i by (intro Suc.hyps(1)) auto
  ultimately show ?case
    using i Suc.prems
    by (simp add: block_to_bitmap_from.simps [of _ i] read_bytes_def const_simps)
qed

context bitarray_lib
begin

lemma bitmap_roundtrip_block:
  assumes "bitmap_ok s" and "length (disk s h) = 4096"
  shows "\<exists>s'. bitmap_to_block (bitmap s) [h] s = Inr s' \<and> block_to_bitmap E [h] s' = Inr (bitmap s) \<and>
    (\<forall>b. b \<noteq> h \<longrightarrow> disk s' b = disk s b) \<and> memget (disk s' h) 375 3721 = memget (disk s h) 375 3721 \<and>
    length (disk s' h) = 4096 \<and> bitmap s' = bitmap s \<and> tick s' = tick s"
proof -
  let ?B = "bitarray (bitmap s)"
  have B: "length ?B = 375" "ba_size (bitmap s) = 375" "ba_mode (bitmap s) = MSB_FIRST"
    using assms by (auto simp: bitmap_ok_def ba_ok_def const_simps)
  let ?s = "s\<lparr>disk := (disk s)(h := memput (disk s h) 0 ?B)\<rparr>"
  have "bitmap_to_block (bitmap s) [h] s = Inr ?s"
    using assms B bitmap_to_block_from_eq [of "bitmap s" 0 s h "[]"]
    by (simp add: bitmap_to_block_def)
  moreover have "block_to_bitmap E [h] ?s = Inr (bitmap s)"
    using assms B block_to_bitmap_from_eq [of ?s h 0 "[]"]
    by (simp add: block_to_bitmap_def create_eq buf_simps const_simps)
  ultimately show ?thesis using assms B by (intro exI [of _ ?s]) (simp add: buf_simps length_memput)
qed

end

end
