(* ===== verification/Node.thy ===== *)
theory Node
  imports Utils
begin

text \<open>
  \<open>node.c\<close>: nodes of the node table, and the two-level table of data blocks of a node. A
  node in memory is a copy; \<open>unmap_and_destroy_node\<close> writes it back to its block.
\<close>

section \<open>Operations\<close>

definition get_block_num_from_node_num :: "u32 \<Rightarrow> u32" where
  "get_block_num_from_node_num node_num = of_nat NODE_TABLE_INITIAL_BLOCK + node_num"

definition read_node :: "env \<Rightarrow> u32 \<Rightarrow> fs \<Rightarrow> error + (t_node \<times> nat \<times> fs)" where
  "read_node E node_num s =
     bindE (read_block (get_block_num_from_node_num node_num)) (\<lambda>node_block.
     bindE (block_to_node E (disk s node_block) s) (\<lambda>(node, s).
       Inr (node, node_block, s)))"

definition unmap_and_destroy_node :: "t_node \<Rightarrow> nat \<Rightarrow> fs \<Rightarrow> fs" where
  "unmap_and_destroy_node node node_block s = put_node node node_block s"

definition delete_node :: "env \<Rightarrow> u32 \<Rightarrow> fs \<Rightarrow> error + fs" where
  "delete_node E node_num s =
     (let numBloque = get_block_num_from_node_num node_num
      in bindE (read_node E node_num s) (\<lambda>(unNodo, unBloque, s).
         let unNodo = unNodo\<lparr>file_name := (file_name unNodo)[0 := 0], state := 0\<rparr>
         in free_block E numBloque (unmap_and_destroy_node unNodo unBloque s)))"

text \<open>\<open>indirect_pointer_block[i]\<close>, an array of 1000.\<close>

definition pointer_at :: "t_node \<Rightarrow> nat \<Rightarrow> error + u32" where
  "pointer_at node i =
     (if i < 1000 then Inr (indirect_pointer_block node ! i) else Inl Out_of_bounds)"

definition set_pointer :: "nat \<Rightarrow> u32 \<Rightarrow> t_node \<Rightarrow> error + t_node" where
  "set_pointer i v node =
     (if i < 1000 then Inr (node\<lparr>indirect_pointer_block := (indirect_pointer_block node)[i := v]\<rparr>)
      else Inl Overrun)"

definition create_pointers_block_in_node ::
    "env \<Rightarrow> t_node \<Rightarrow> u16 \<Rightarrow> fs \<Rightarrow> error + (u32 \<times> t_node \<times> fs)" where
  "create_pointers_block_in_node E node pointers_block_array_pos s =
     bindE (get_free_data_block E s) (\<lambda>(new_pointers_block_num, s).
     bindE (set_pointer (unat pointers_block_array_pos) new_pointers_block_num node) (\<lambda>node.
       Inr (new_pointers_block_num, node, s)))"

definition create_data_block_in_pointer_block ::
    "env \<Rightarrow> t_node \<Rightarrow> u16 \<Rightarrow> u16 \<Rightarrow> fs \<Rightarrow> error + (u32 \<times> fs)" where
  "create_data_block_in_pointer_block E node pointers_block_array_pos position s =
     bindE (get_free_data_block E s) (\<lambda>(new_data_block_num, s).
     bindE (pointer_at node (unat pointers_block_array_pos)) (\<lambda>p.
     bindE (read_block p) (\<lambda>pointers_block.
     bindE (write_bytes s pointers_block (unat position * 4) (le_enc 4 new_data_block_num)) (\<lambda>s.
       Inr (new_data_block_num, s)))))"

text \<open>The loop \<open>for (p = 0; p < 1000 && indirect_pointer_block[p] != 0; p++);\<close>.\<close>

definition count_pointers :: "t_node \<Rightarrow> nat" where
  "count_pointers node = length (takeWhile (\<lambda>p. p \<noteq> 0) (take 1000 (indirect_pointer_block node)))"

definition add_data_block_to_node :: "env \<Rightarrow> t_node \<Rightarrow> fs \<Rightarrow> error + (t_node \<times> fs)" where
  "add_data_block_to_node E unNodo s =
     (let posicionArray = int (count_pointers unNodo) - 1;
          cantBloquesDatos = int (unat (file_size unNodo div of_nat BLOCK_SIZE)) + 1
      in if cantBloquesDatos < 1024 * (posicionArray + 1)
         then bindE (create_data_block_in_pointer_block E unNodo
                (word_of_int posicionArray) (word_of_int (cantBloquesDatos mod 1024)) s)
              (\<lambda>(_, s). Inr (unNodo, s))
         else bindE (create_pointers_block_in_node E unNodo (word_of_int (posicionArray + 1)) s)
              (\<lambda>(_, unNodo, s).
              bindE (create_data_block_in_pointer_block E unNodo
                (word_of_int (posicionArray + 1)) 0 s)
              (\<lambda>(_, s). Inr (unNodo, s))))"

text \<open>
  The number stored at \<open>numBloque * sizeof(pointer)\<close> of a pointer block: \<open>sizeof\<close> is taken of
  the pointer \<open>numBloqueDatos\<close>, not of the \<open>u_int32_t\<close> it points to. As many bytes are copied into
  the four that \<open>malloc(sizeof(u_int32_t))\<close> gives, which is a write outside them where pointers
  are wider.
\<close>

definition getBlockNumberFromNodeDataBlock :: "env \<Rightarrow> t_node \<Rightarrow> u32 \<Rightarrow> fs \<Rightarrow> error + u32" where
  "getBlockNumberFromNodeDataBlock E unNodo numeroBloqueDatos s =
     bindE (pointer_at unNodo (unat (numeroBloqueDatos div 1024))) (\<lambda>p.
     bindE (read_block p) (\<lambda>bloquePunteros.
     bindE (read_bytes s bloquePunteros (unat (numeroBloqueDatos mod 1024) * sizeof_ptr E)
              (sizeof_ptr E)) (\<lambda>numBloque.
       if 4 < sizeof_ptr E then Inl Overrun else Inr (bytes_to_int32 numBloque))))"

definition get_data_block_from_node :: "env \<Rightarrow> t_node \<Rightarrow> u32 \<Rightarrow> fs \<Rightarrow> error + nat" where
  "get_data_block_from_node E unNodo numBloque s =
     bindE (pointer_at unNodo (unat (numBloque div 1024))) (\<lambda>p.
     bindE (read_block p) (\<lambda>bloquePunteros.
     bindE (read_bytes s bloquePunteros (unat (numBloque mod 1024) * sizeof_ptr E)
              (sizeof_ptr E)) (\<lambda>numBloqueDatos.
       if 4 < sizeof_ptr E then Inl Overrun else read_block (bytes_to_int32 numBloqueDatos))))"

definition deleteLastDataBlock :: "env \<Rightarrow> t_node \<Rightarrow> fs \<Rightarrow> error + (t_node \<times> fs)" where
  "deleteLastDataBlock E unNodo s =
     (if file_size unNodo = 0 then Inr (unNodo, s)
      else let ultimoBloqueDatos = file_size unNodo div of_nat BLOCK_SIZE;
               ultimoBloquePunteros = unat (ultimoBloqueDatos div 1024);
               new_size = (if ultimoBloqueDatos = 0 then 0
                           else (ultimoBloqueDatos - 1) * of_nat BLOCK_SIZE)
      in bindE (getBlockNumberFromNodeDataBlock E unNodo ultimoBloqueDatos s) (\<lambda>b.
         bindE (free_block E b s) (\<lambda>s.
         if ultimoBloqueDatos mod 1024 = 0
         then bindE (pointer_at unNodo ultimoBloquePunteros) (\<lambda>p.
              bindE (free_block E p s) (\<lambda>s.
              bindE (set_pointer ultimoBloquePunteros 0 unNodo) (\<lambda>unNodo.
                Inr (unNodo\<lparr>file_size := new_size\<rparr>, s))))
         else Inr (unNodo\<lparr>file_size := new_size\<rparr>, s))))"

section \<open>Reading and writing nodes\<close>

definition node_at :: "fs \<Rightarrow> nat \<Rightarrow> t_node" where
  "node_at s n = node_of (disk s (NODE_TABLE_INITIAL_BLOCK + n))"

text \<open>Node number \<open>n\<close> can be read: it is in the table and its name has its NUL.\<close>

definition readable :: "fs \<Rightarrow> nat \<Rightarrow> bool" where
  "readable s n \<longleftrightarrow> disk_ok s \<and> n < NODE_TABLE_BLOCKS \<and> named (node_at s n)"

lemma disk_ok_length: "disk_ok s \<Longrightarrow> b < 3000 \<Longrightarrow> length (disk s b) = 4096"
  by (simp add: disk_ok_def const_simps)

lemma node_block_in:
  "n < NODE_TABLE_BLOCKS \<Longrightarrow>
   read_block (get_block_num_from_node_num (of_nat n)) = Inr (NODE_TABLE_INITIAL_BLOCK + n)"
  by (subst read_block_in)
     (simp_all add: get_block_num_from_node_num_def const_simps unat_word_ariths unat_of_nat)

lemma read_node_spec:
  assumes "readable s n"
  shows "\<exists>nd. read_node E (of_nat n) s =
      Inr (nd, NODE_TABLE_INITIAL_BLOCK + n, s\<lparr>tick := Suc (tick s)\<rparr>) \<and>
    named nd \<and> nview nd = nview (node_at s n)"
proof -
  let ?b = "NODE_TABLE_INITIAL_BLOCK + n"
  have "length (disk s ?b) = 4096" and "named (node_of (disk s ?b))"
    using assms by (auto simp: readable_def node_at_def const_simps disk_ok_length)
  from block_to_node_spec [OF this, of E s] show ?thesis
    using assms by (auto simp: read_node_def node_block_in readable_def node_at_def)
qed

lemma put_node_disk:
  "node_ok nd \<Longrightarrow> disk_ok s \<Longrightarrow> h < 3000 \<Longrightarrow>
   disk (put_node nd h s) = (disk s)(h := node_bytes nd)"
  by (simp add: put_node_def node_to_block_eq disk_ok_length)

lemma put_node_disk_ok:
  "node_ok nd \<Longrightarrow> disk_ok s \<Longrightarrow> h < 3000 \<Longrightarrow> disk_ok (put_node nd h s)"
  using put_node_disk [of nd s h] node_codec.width
  by (simp add: disk_ok_def const_simps)

lemma put_node_at:
  "node_ok nd \<Longrightarrow> disk_ok s \<Longrightarrow> m < NODE_TABLE_BLOCKS \<Longrightarrow>
   node_at (put_node nd (NODE_TABLE_INITIAL_BLOCK + m) s) n = (if n = m then nd else node_at s n)"
  by (simp add: node_at_def put_node_disk const_simps node_codec.decode)

section \<open>The table of data blocks\<close>

text \<open>
  \<open>cell s p i\<close> is entry \<open>i\<close> of the pointer block \<open>p\<close>; \<open>data_block_num s nd k\<close> is the number of
  the \<open>k\<close>-th data block of a node.
\<close>

definition cell :: "fs \<Rightarrow> nat \<Rightarrow> nat \<Rightarrow> u32" where
  "cell s p i = le_dec (memget (disk s p) (4 * i) 4)"

definition data_block_num :: "fs \<Rightarrow> t_node \<Rightarrow> nat \<Rightarrow> u32" where
  "data_block_num s nd k =
     cell s (unat (indirect_pointer_block nd ! (k div 1024))) (k mod 1024)"

lemma bytes_to_int32_memget: "bytes_to_int32 (memget bs pos 4) = le_dec (memget bs pos 4)"
  by (simp add: bytes_to_int32_def memget_memget)

lemma unat_of_nat_div_mod_1024:
  "k < 1024000 \<Longrightarrow> unat ((of_nat k :: u32) div 1024) = k div 1024"
  "k < 1024000 \<Longrightarrow> unat ((of_nat k :: u32) mod 1024) = k mod 1024"
  by (simp_all add: unat_div unat_mod unat_of_nat)

lemma getBlockNumber_spec:
  assumes "sizeof_ptr E = 4" and "k < 1024000"
    and "unat (indirect_pointer_block nd ! (k div 1024)) < TOTAL_BLOCKS"
  shows "getBlockNumberFromNodeDataBlock E nd (of_nat k) s = Inr (data_block_num s nd k)"
proof -
  have "k div 1024 < 1000" and "k mod 1024 < 1024"
    using assms(2) by (simp_all add: less_mult_imp_div_less)
  then have "k mod 1024 * 4 + 4 \<le> BLOCK_SIZE" by (simp add: const_simps)
  with assms \<open>k div 1024 < 1000\<close> show ?thesis
    by (simp add: getBlockNumberFromNodeDataBlock_def unat_of_nat_div_mod_1024 pointer_at_def
        read_bytes_def bytes_to_int32_memget data_block_num_def cell_def mult.commute)
qed

lemma get_data_block_eq:
  "get_data_block_from_node E nd k s = bindE (getBlockNumberFromNodeDataBlock E nd k s) read_block"
  by (simp add: get_data_block_from_node_def getBlockNumberFromNodeDataBlock_def bindE_assoc
      if_distrib [of "\<lambda>m. bindE m _"] cong: if_cong)

lemma get_data_block_spec:
  assumes "sizeof_ptr E = 4" and "k < 1024000"
    and "unat (indirect_pointer_block nd ! (k div 1024)) < TOTAL_BLOCKS"
    and "unat (data_block_num s nd k) < TOTAL_BLOCKS"
  shows "get_data_block_from_node E nd (of_nat k) s = Inr (unat (data_block_num s nd k))"
  using getBlockNumber_spec [OF assms(1-3)] assms(4) by (simp add: get_data_block_eq)

text \<open>
  With pointers of 8 bytes the same call never returns: it copies 8 bytes into 4, or has read past
  the page before.
\<close>

lemma getBlockNumber_lp64:
  assumes "sizeof_ptr E = 8" and "k < 1024000"
    and "unat (indirect_pointer_block nd ! (k div 1024)) < TOTAL_BLOCKS"
  shows "getBlockNumberFromNodeDataBlock E nd (of_nat k) s =
    Inl (if k mod 1024 < 512 then Overrun else Bad_map)"
proof -
  have "k div 1024 < 1000" using assms(2) by (simp add: less_mult_imp_div_less)
  with assms show ?thesis
    by (auto simp: getBlockNumberFromNodeDataBlock_def unat_of_nat_div_mod_1024 pointer_at_def
        read_bytes_def const_simps mult.commute)
qed

section \<open>Adding a data block\<close>

lemma count_pointers_bound: "count_pointers nd \<le> 1000"
  unfolding count_pointers_def by (rule order_trans [OF length_takeWhile_le]) simp

text \<open>The place where \<open>add_data_block_to_node\<close> puts the new block.\<close>

definition next_slot :: "t_node \<Rightarrow> nat \<times> nat" where
  "next_slot nd =
     (let k = unat (file_size nd) div 4096 + 1; c = count_pointers nd
      in if k < 1024 * c then (c - 1, k mod 1024) else (c, 0))"

lemma size_div_block: "unat (file_size nd div of_nat BLOCK_SIZE) = unat (file_size nd) div 4096"
  by (simp add: const_simps unat_div)

lemma add_data_block_cases:
  fixes nd :: t_node
  defines "k \<equiv> unat (file_size nd) div 4096 + 1" and "c \<equiv> count_pointers nd"
  shows "add_data_block_to_node E nd s =
    (if k < 1024 * c
     then bindE (create_data_block_in_pointer_block E nd (of_nat (c - 1)) (of_nat (k mod 1024)) s)
            (\<lambda>(_, s). Inr (nd, s))
     else bindE (create_pointers_block_in_node E nd (of_nat c) s)
            (\<lambda>(_, nd, s). bindE (create_data_block_in_pointer_block E nd (of_nat c) 0 s)
              (\<lambda>(_, s). Inr (nd, s))))"
proof -
  let ?K = "int (unat (file_size nd) div 4096) + 1" and ?P = "int c - 1"
  have K: "?K = int k" by (simp add: k_def)
  have "1024 * (?P + 1) = int (1024 * c)" by simp
  then have cond: "int k < 1024 * (?P + 1) \<longleftrightarrow> k < 1024 * c" by (simp only: of_nat_less_iff)
  have k1: "word_of_int (int k mod 1024) = (of_nat (k mod 1024) :: u16)"
    by (metis of_int_of_nat_eq of_nat_numeral zmod_int)
  have c1: "word_of_int (?P + 1) = (of_nat c :: u16)" by simp
  show ?thesis
  proof (cases "k < 1024 * c")
    case True
    then have "0 < c" by (cases c) auto
    then have "word_of_int ?P = (of_nat (c - 1) :: u16)" by (simp add: of_nat_diff)
    then show ?thesis
      using True
      by (simp only: add_data_block_to_node_def Let_def size_div_block c_def [symmetric] K cond
          k1 if_True)
  next
    case False
    then show ?thesis
      by (simp only: add_data_block_to_node_def Let_def size_div_block c_def [symmetric] K cond
          c1 if_False)
  qed
qed

end
