(* ===== verification/Directory.thy ===== *)
theory Directory
  imports Node
begin

text \<open>
  \<open>directory.c\<close> and the directory helpers of \<open>utils.c\<close>: a directory is a node whose data
  blocks hold entries of 128 bytes (node number, then the name), read by three nested
  loops over pointer blocks, data blocks and bytes. The function pointer \<open>process_entry\<close> is
  a function on an accumulator, the variables of its enclosing C function.
\<close>

section \<open>Structures\<close>

record t_data_position =
  pointer_block_num :: u32
  block_num :: u32
  byte_num :: u32

record t_dir_entry =
  entry_name :: cstr
  node_num :: u32
  entry_data :: t_data_position

type_synonym 'a process = "'a \<Rightarrow> t_dir_entry \<Rightarrow> error + (t_dir_entry \<times> 'a)"

definition zero_position :: t_data_position where
  "zero_position = \<lparr>pointer_block_num = 0, block_num = 0, byte_num = 0\<rparr>"

text \<open>\<open>{ .name[0] = '\0' }\<close>: the other members are zero.\<close>

definition invalid_entry :: t_dir_entry where
  "invalid_entry = \<lparr>entry_name = [], node_num = 0, entry_data = zero_position\<rparr>"

definition is_valid_entry :: "t_dir_entry \<Rightarrow> bool" where
  "is_valid_entry entry \<longleftrightarrow> entry_name entry \<noteq> []"

definition is_valid_path :: "env \<Rightarrow> cstr \<Rightarrow> bool" where
  "is_valid_path E path \<longleftrightarrow>
     \<not> string_is_empty E path \<and> string_starts_with E path [slash] \<and>
     (length path = 1 \<or> \<not> string_ends_with E path [slash])"

definition get_next_write_position :: "t_node \<Rightarrow> t_data_position" where
  "get_next_write_position node =
     (let total_block_num = file_size node div of_nat BLOCK_SIZE
      in \<lparr>pointer_block_num = total_block_num div 1024,
          block_num = total_block_num mod 1024,
          byte_num = file_size node mod of_nat BLOCK_SIZE\<rparr>)"

section \<open>Iterating over the entries of a directory\<close>

definition next_byte :: "nat \<Rightarrow> u32 \<Rightarrow> nat \<Rightarrow> bool \<Rightarrow> bool" where
  "next_byte pos min_limit max_limit is_last_block \<longleftrightarrow>
     pos \<le> unat min_limit \<or> (pos < max_limit \<and> \<not> is_last_block)"

text \<open>
  The name is copied with \<open>strcpy\<close> from the mapped page into \<open>name[71]\<close>. The position of a
  fresh entry is not set here; the loops below set it before it is used.
\<close>

definition read_directory_entry :: "fs \<Rightarrow> nat \<Rightarrow> nat \<Rightarrow> error + t_dir_entry" where
  "read_directory_entry s b k =
     bindE (read_bytes s b k 4) (\<lambda>num.
     bindE (strread (drop (k + 4) (disk s b))) (\<lambda>nm.
       if length nm < 71
       then Inr \<lparr>entry_name = nm, node_num = bytes_to_int32 num, entry_data = zero_position\<rparr>
       else Inl Overrun))"

lemma read_directory_entry_in: "read_directory_entry s b k = Inr e \<Longrightarrow> k + 4 \<le> 4096"
  by (auto simp: read_directory_entry_def bindE_eq_Inr read_bytes_def const_simps split: if_splits)

function iterate_bytes_from ::
    "'a process \<Rightarrow> fs \<Rightarrow> nat \<Rightarrow> bool \<Rightarrow> t_data_position \<Rightarrow> nat \<Rightarrow> t_dir_entry \<Rightarrow> 'a \<Rightarrow>
     error + (t_dir_entry \<times> 'a)" where
  "iterate_bytes_from process_entry s data_block is_last_data_block position k result acc =
     (if \<not> is_valid_entry result \<and> next_byte k (byte_num position - 1) BLOCK_SIZE is_last_data_block
      then bindE (read_directory_entry s data_block k) (\<lambda>entry.
           bindE (process_entry acc entry) (\<lambda>(result, acc).
             iterate_bytes_from process_entry s data_block is_last_data_block position
               (k + 128) result acc))
      else Inr (result\<lparr>entry_data := (entry_data result)\<lparr>byte_num := of_int (int k - 128)\<rparr>\<rparr>, acc))"
  by pat_completeness auto
termination
  by (relation "measure (\<lambda>(p, s, b, l, pos, k, r, a). 4096 - k)")
     (auto dest: read_directory_entry_in)

definition iterate_bytes_in_block ::
    "'a process \<Rightarrow> fs \<Rightarrow> nat \<Rightarrow> bool \<Rightarrow> t_data_position \<Rightarrow> 'a \<Rightarrow> error + (t_dir_entry \<times> 'a)" where
  "iterate_bytes_in_block process_entry s data_block is_last_data_block position acc =
     iterate_bytes_from process_entry s data_block is_last_data_block position 0 invalid_entry acc"

function iterate_blocks_from ::
    "'a process \<Rightarrow> fs \<Rightarrow> nat \<Rightarrow> bool \<Rightarrow> t_data_position \<Rightarrow> nat \<Rightarrow> u32 \<Rightarrow> t_dir_entry \<Rightarrow> 'a \<Rightarrow>
     error + (t_dir_entry \<times> 'a)" where
  "iterate_blocks_from process_entry s pointers_block is_last_pointers_block position j nroBloque
       result acc =
     (if \<not> is_valid_entry result \<and> next_byte j (block_num position) 1024 is_last_pointers_block
      then bindE (read_bytes s pointers_block (j * 4) 4) (\<lambda>bs.
           let nroBloque = bytes_to_int32 bs in
           bindE (read_block nroBloque) (\<lambda>data_block.
           let is_last_data_block = (j = unat (block_num position) \<and> is_last_pointers_block) in
           bindE (iterate_bytes_in_block process_entry s data_block is_last_data_block position acc)
             (\<lambda>(result, acc).
               iterate_blocks_from process_entry s pointers_block is_last_pointers_block position
                 (Suc j) nroBloque result acc)))
      else Inr (result\<lparr>entry_data := (entry_data result)\<lparr>block_num := nroBloque\<rparr>\<rparr>, acc))"
  by pat_completeness auto
termination
  by (relation "measure (\<lambda>(p, s, b, l, pos, j, n, r, a). 1024 - j)")
     (auto simp: read_bytes_def const_simps split: if_splits)

text \<open>The loop always runs once, so the first value of \<open>nroBloque\<close> is never used.\<close>

definition iterate_blocks ::
    "'a process \<Rightarrow> fs \<Rightarrow> nat \<Rightarrow> bool \<Rightarrow> t_data_position \<Rightarrow> 'a \<Rightarrow> error + (t_dir_entry \<times> 'a)" where
  "iterate_blocks process_entry s pointers_block is_last_pointers_block position acc =
     iterate_blocks_from process_entry s pointers_block is_last_pointers_block position 0 0
       invalid_entry acc"

function iterate_pointers_from ::
    "'a process \<Rightarrow> fs \<Rightarrow> t_node \<Rightarrow> t_data_position \<Rightarrow> nat \<Rightarrow> t_dir_entry \<Rightarrow> 'a \<Rightarrow>
     error + (t_dir_entry \<times> 'a)" where
  "iterate_pointers_from process_entry s node position i result acc =
     (if is_valid_entry result then Inr (result, acc)
      else bindE (pointer_at node i) (\<lambda>p.
        if p \<noteq> 0 \<and> state node \<noteq> 0
        then bindE (read_block p) (\<lambda>pointers_block.
             let is_last_pointers_block = (i = unat (pointer_block_num position)) in
             bindE (iterate_blocks process_entry s pointers_block is_last_pointers_block position acc)
               (\<lambda>(result, acc).
                 iterate_pointers_from process_entry s node position (Suc i) result acc))
        else Inr (result, acc)))"
  by pat_completeness auto
termination
  by (relation "measure (\<lambda>(p, s, nd, pos, i, r, a). 1000 - i)")
     (auto simp: pointer_at_def split: if_splits)

declare iterate_bytes_from.simps [simp del] iterate_blocks_from.simps [simp del]
  iterate_pointers_from.simps [simp del]

definition iterate_pointers_blocks ::
    "t_node \<Rightarrow> 'a process \<Rightarrow> fs \<Rightarrow> 'a \<Rightarrow> error + (t_dir_entry \<times> 'a)" where
  "iterate_pointers_blocks node process_entry s acc =
     bindE (iterate_pointers_from process_entry s node (get_next_write_position node) 0
              invalid_entry acc)
       (\<lambda>(result, acc).
         Inr (result\<lparr>entry_data := (entry_data result)\<lparr>pointer_block_num := - 1\<rparr>\<rparr>, acc))"

section \<open>Searching\<close>

definition find_entry :: "cstr \<Rightarrow> unit process" where
  "find_entry name acc entry =
     Inr (if entry_name entry = name then entry else invalid_entry, acc)"

definition get_entry :: "t_node \<Rightarrow> cstr \<Rightarrow> fs \<Rightarrow> error + t_dir_entry" where
  "get_entry node name s =
     bindE (iterate_pointers_blocks node (find_entry name) s ()) (\<lambda>(entry, _). Inr entry)"

definition exists_entry :: "t_node \<Rightarrow> cstr \<Rightarrow> fs \<Rightarrow> error + bool" where
  "exists_entry node name s = bindE (get_entry node name s) (\<lambda>entry. Inr (is_valid_entry entry))"

text \<open>\<open>.name = '/'\<close> initialises the first character: the name is \<open>"/"\<close>.\<close>

definition root_entry :: t_dir_entry where
  "root_entry = \<lparr>entry_name = [slash], node_num = 0, entry_data = zero_position\<rparr>"

fun search_from :: "env \<Rightarrow> cstr list \<Rightarrow> t_dir_entry \<Rightarrow> fs \<Rightarrow> error + (t_dir_entry \<times> fs)" where
  "search_from E [] entry s = Inr (entry, s)"
| "search_from E (part # parts) entry s =
     (if is_valid_entry entry
      then bindE (read_node E (node_num entry) s) (\<lambda>(node, node_block, s).
           bindE (get_entry node part s) (\<lambda>entry.
             search_from E parts entry (unmap_and_destroy_node node node_block s)))
      else Inr (entry, s))"

definition search_path :: "env \<Rightarrow> cstr \<Rightarrow> fs \<Rightarrow> error + (t_dir_entry \<times> fs)" where
  "search_path E path s = search_from E (string_split E path [slash]) root_entry s"

text \<open>What \<open>print_entries\<close> prints, in order: node number and name of every entry.\<close>

definition print_entry :: "(u32 \<times> cstr) list process" where
  "print_entry out entry = Inr (invalid_entry, out @ [(node_num entry, entry_name entry)])"

definition print_entries :: "t_node \<Rightarrow> fs \<Rightarrow> error + (u32 \<times> cstr) list" where
  "print_entries node s =
     bindE (iterate_pointers_blocks node print_entry s []) (\<lambda>(_, out). Inr out)"

section \<open>Adding an entry\<close>

definition read_next_data_block ::
    "env \<Rightarrow> t_node \<Rightarrow> t_data_position \<Rightarrow> fs \<Rightarrow> error + (nat \<times> t_node \<times> fs)" where
  "read_next_data_block E node position s =
     bindE (pointer_at node (unat (pointer_block_num position))) (\<lambda>p.
     if p = 0
     then bindE (create_pointers_block_in_node E node (ucast (pointer_block_num position)) s)
            (\<lambda>(_, node, s).
          bindE (create_data_block_in_pointer_block E node (ucast (pointer_block_num position))
                   (ucast (block_num position)) s) (\<lambda>(data_block_num, s).
          bindE (read_block data_block_num) (\<lambda>data_block. Inr (data_block, node, s))))
     else bindE (read_block p) (\<lambda>pointers_block.
          bindE (read_bytes s pointers_block (unat (block_num position) * 4) 4) (\<lambda>block_bytes.
          bindE (read_block (bytes_to_int32 block_bytes)) (\<lambda>data_block.
            Inr (data_block, node, s)))))"

text \<open>
  \<open>char entry_name[124]; strcpy(entry_name, name);\<close> on the stack: the bytes after the NUL
  are what the stack held.
\<close>

definition entry_name_buffer :: "env \<Rightarrow> cstr \<Rightarrow> fs \<Rightarrow> error + (bytes \<times> fs)" where
  "entry_name_buffer E name s =
     (if length name < 124
      then Inr (name @ 0 # map (uninit E (tick s)) [Suc (length name)..<124],
                s\<lparr>tick := Suc (tick s)\<rparr>)
      else Inl Overrun)"

definition add_directory_entry :: "env \<Rightarrow> t_node \<Rightarrow> cstr \<Rightarrow> u32 \<Rightarrow> fs \<Rightarrow> error + (t_node \<times> fs)" where
  "add_directory_entry E node name num s =
     bindE (entry_name_buffer E name s) (\<lambda>(buf, s).
     let position = get_next_write_position node in
     bindE (read_next_data_block E node position s) (\<lambda>(data_block, node, s).
     bindE (write_bytes s data_block (unat (byte_num position)) (le_enc 4 num)) (\<lambda>s.
     bindE (write_bytes s data_block (unat (byte_num position + 4)) buf) (\<lambda>s.
       Inr (node\<lparr>file_size := file_size node + 128\<rparr>, s)))))"

section \<open>Deleting an entry\<close>

text \<open>
  \<open>memcpy\<close> of \<open>n\<close> bytes inside one page, from \<open>src\<close> to \<open>dst\<close>. ISO C defines it when the ranges do
  not overlap. When they do, the \<open>n\<close> bytes at \<open>dst\<close> may be any bytes afterwards, which the
  argument \<open>E\<close> gives; the bytes before \<open>dst\<close> and after \<open>dst + n\<close> stay as they were. The code below
  copies \<open>4096 - (b + 128)\<close> bytes down by 128, so its ranges overlap for each of the first 30
  places of a directory.
\<close>

definition memcpy_within :: "env \<Rightarrow> bytes \<Rightarrow> nat \<Rightarrow> nat \<Rightarrow> nat \<Rightarrow> bytes" where
  "memcpy_within E bs dst src n =
     (if dst + n \<le> src \<or> src + n \<le> dst then memput bs dst (memget bs src n)
      else memput bs dst (map (memcpy_overlap E bs dst src n) [0..<n]))"

definition delete_directory_entry :: "env \<Rightarrow> t_node \<Rightarrow> cstr \<Rightarrow> fs \<Rightarrow> error + (t_node \<times> fs)" where
  "delete_directory_entry E node name s =
     bindE (get_entry node name s) (\<lambda>entradaEliminar.
     if \<not> is_valid_entry entradaEliminar then Inr (node, s)
     else bindE (read_block (block_num (entry_data entradaEliminar))) (\<lambda>unBloque.
     let b = unat (byte_num (entry_data entradaEliminar)) in
     bindE (read_bytes s unBloque b 128) (\<lambda>nombreEntrada.
     let page = memcpy_within E (disk s unBloque) b (b + DIR_ENTRY_SIZE)
                  (BLOCK_SIZE - (b + DIR_ENTRY_SIZE));
         s = s\<lparr>disk := (disk s)(unBloque := page)\<rparr>;
         node = node\<lparr>file_size := file_size node - of_nat DIR_ENTRY_SIZE\<rparr>
     in if file_size node = 0
        then bindE (set_pointer 0 0 node) (\<lambda>node. Inr (node, s))
        else Inr (node, s))))"

fun free_pointers :: "env \<Rightarrow> u32 list \<Rightarrow> fs \<Rightarrow> error + fs" where
  "free_pointers E [] s = Inr s"
| "free_pointers E (p # ps) s =
     (if p = 0 then Inr s else bindE (free_block E p s) (\<lambda>s. free_pointers E ps s))"

definition delete_all_directory_entries :: "env \<Rightarrow> u32 \<Rightarrow> fs \<Rightarrow> error + fs" where
  "delete_all_directory_entries E num s =
     bindE (read_node E num s) (\<lambda>(unNodo, unBloque, s).
     bindE (free_pointers E (take 1000 (indirect_pointer_block unNodo)) s) (\<lambda>s.
       Inr (unmap_and_destroy_node unNodo unBloque s)))"

definition delete_parent_entry :: "env \<Rightarrow> t_dir_entry \<Rightarrow> fs \<Rightarrow> error + fs" where
  "delete_parent_entry E unaEntrada s =
     bindE (read_node E (node_num unaEntrada) s) (\<lambda>(unNodo, unBloque, s).
     bindE (read_block (parent_block unNodo)) (\<lambda>bloquePadre.
     bindE (block_to_node E (disk s bloquePadre) s) (\<lambda>(nodoPadre, s).
     bindE (delete_directory_entry E nodoPadre (entry_name unaEntrada) s) (\<lambda>(nodoPadre, s).
       let s = unmap_and_destroy_node unNodo unBloque s
       in Inr (unmap_and_destroy_node nodoPadre bloquePadre s)))))"

section \<open>Creating directories\<close>

definition create_dir_node :: "env \<Rightarrow> cstr \<Rightarrow> u32 \<Rightarrow> fs \<Rightarrow> error + (t_node \<times> fs)" where
  "create_dir_node E name parent_node_num s =
     (let parent = get_block_num_from_node_num parent_node_num;
          date = now E (tick s)
      in create_node E 2 name parent 0 date date (replicate 1000 0) s)"

definition create_and_save_dir_node :: "env \<Rightarrow> cstr \<Rightarrow> u32 \<Rightarrow> u32 \<Rightarrow> fs \<Rightarrow> error + fs" where
  "create_and_save_dir_node E new_dir_name pre_dir_node_num new_block_num s =
     bindE (create_dir_node E new_dir_name pre_dir_node_num s) (\<lambda>(new_dir_node, s).
     bindE (read_block new_block_num) (\<lambda>new_node_block.
       let s = put_node new_dir_node new_node_block s
       in Inr (unmap_and_destroy_node new_dir_node new_node_block s)))"

definition create_dir_node_and_add_entry ::
    "env \<Rightarrow> t_node \<Rightarrow> u32 \<Rightarrow> cstr \<Rightarrow> fs \<Rightarrow> error + (t_node \<times> fs)" where
  "create_dir_node_and_add_entry E pre_dir_node pre_dir_node_num new_dir_name s =
     bindE (get_free_node_block E s) (\<lambda>(new_block_num, s).
     let node_table_initial_block = of_nat NODE_TABLE_INITIAL_BLOCK :: u16;
         new_node_num = ucast (new_block_num - ucast node_table_initial_block) :: u16
     in bindE (create_and_save_dir_node E new_dir_name pre_dir_node_num new_block_num s) (\<lambda>s.
          add_directory_entry E pre_dir_node new_dir_name (ucast new_node_num) s))"

text \<open>Its body is the one of the function above (a comment says it is not done).\<close>

definition delete_dir_node_and_remove_entry ::
    "env \<Rightarrow> t_node \<Rightarrow> u32 \<Rightarrow> cstr \<Rightarrow> fs \<Rightarrow> error + (t_node \<times> fs)" where
  "delete_dir_node_and_remove_entry E pre_dir_node pre_dir_node_num new_dir_name s =
     bindE (get_free_node_block E s) (\<lambda>(new_block_num, s).
     let node_table_initial_block = of_nat NODE_TABLE_INITIAL_BLOCK :: u16;
         new_node_num = ucast (new_block_num - ucast node_table_initial_block) :: u16
     in bindE (create_and_save_dir_node E new_dir_name pre_dir_node_num new_block_num s) (\<lambda>s.
          add_directory_entry E pre_dir_node new_dir_name (ucast new_node_num) s))"

section \<open>Names and lists of entries\<close>

definition get_new_dir_name_from_path :: "env \<Rightarrow> cstr \<Rightarrow> error + cstr" where
  "get_new_dir_name_from_path E path =
     bindE (last_component E path) (\<lambda>name. Inr (string_duplicate E name))"

definition get_pre_dir_path_from_path :: "env \<Rightarrow> cstr \<Rightarrow> cstr \<Rightarrow> cstr" where
  "get_pre_dir_path_from_path E path new_dir_name =
     string_substring_until E path (int (length path) - int (length new_dir_name))"

definition add_entry_to_list ::
    "t_dir_entry list_ops \<Rightarrow> t_dir_entry list \<Rightarrow> t_dir_entry \<Rightarrow> t_dir_entry list" where
  "add_entry_to_list L unaLista unaEntrada =
     list_add L unaLista \<lparr>entry_name = entry_name unaEntrada, node_num = node_num unaEntrada,
       entry_data = zero_position\<rparr>"

definition add_child :: "t_dir_entry list_ops \<Rightarrow> t_dir_entry list process" where
  "add_child L unaLista entry = Inr (invalid_entry, add_entry_to_list L unaLista entry)"

definition add_childs_to_list :: "env \<Rightarrow> t_dir_entry list_ops \<Rightarrow> t_dir_entry list \<Rightarrow> t_dir_entry \<Rightarrow>
    fs \<Rightarrow> error + (t_dir_entry list \<times> fs)" where
  "add_childs_to_list E L unaLista unaDirEntry s =
     bindE (read_node E (node_num unaDirEntry) s) (\<lambda>(unNodo, unBloque, s).
     bindE (iterate_pointers_blocks unNodo (add_child L) s unaLista) (\<lambda>(_, unaLista).
       Inr (unaLista, unmap_and_destroy_node unNodo unBloque s)))"

definition is_directory :: "env \<Rightarrow> t_dir_entry \<Rightarrow> fs \<Rightarrow> error + (bool \<times> fs)" where
  "is_directory E entry s =
     bindE (read_node E (node_num entry) s) (\<lambda>(unNodo, _, s). Inr (state unNodo = 2, s))"

end
