(* ===== verification/File.thy ===== *)
theory File
  imports Directory
begin

text \<open>
  \<open>file.c\<close>: the node of a file, created in its folder the first time it is opened.
\<close>

definition create_file_node :: "env \<Rightarrow> cstr \<Rightarrow> u32 \<Rightarrow> fs \<Rightarrow> error + (t_node \<times> fs)" where
  "create_file_node E new_file_name folder_node_num s =
     (let parent = get_block_num_from_node_num folder_node_num;
          date = now E (tick s)
      in create_node E 1 new_file_name parent 0 date date (replicate 1000 0) s)"

definition create_and_save_file_node :: "env \<Rightarrow> cstr \<Rightarrow> u32 \<Rightarrow> fs \<Rightarrow> error + (u32 \<times> fs)" where
  "create_and_save_file_node E fname folder_node_num s =
     bindE (read_node E folder_node_num s) (\<lambda>(folder_node, folder_node_block, s).
     bindE (exists_entry folder_node fname s) (\<lambda>found.
     if found
     then bindE (get_entry folder_node fname s) (\<lambda>entradaArchivo.
            Inr (node_num entradaArchivo, unmap_and_destroy_node folder_node folder_node_block s))
     else bindE (create_file_node E fname folder_node_num s) (\<lambda>(new_file_node, s).
          bindE (get_free_node_block E s) (\<lambda>(new_block_num, s).
          bindE (read_block new_block_num) (\<lambda>new_file_block.
          let s = put_node new_file_node new_file_block s;
              num = new_block_num - of_nat NODE_TABLE_INITIAL_BLOCK
          in bindE (add_directory_entry E folder_node fname num s) (\<lambda>(folder_node, s).
             let s = unmap_and_destroy_node new_file_node new_file_block s;
                 s = unmap_and_destroy_node folder_node folder_node_block s
             in Inr (num, s)))))))"

end
