(* ===== verification/Sacio.thy ===== *)
theory Sacio
  imports File "HOL-Library.Signed_Division"
begin

text \<open>
  \<open>sacio.c\<close>: the operations of the file system, each as the whole of its C function. A result
  of \<open>-1\<close> is the code's own (\<open>(size_t) -1\<close> where the C function returns \<open>size_t\<close>); offsets and
  counts are those an \<open>int\<close> holds, as the code converts them to \<open>int\<close> itself. The messages that
  the code prints are left out.
\<close>

section \<open>Directories\<close>

definition sac_mkdir :: "env \<Rightarrow> cstr \<Rightarrow> u32 \<Rightarrow> fs \<Rightarrow> error + (int \<times> fs)" where
  "sac_mkdir E path mode s =
     (if \<not> is_valid_path E path then Inr (- 1, s)
      else bindE (get_new_dir_name_from_path E path) (\<lambda>new_dir_name.
      let pre_dir_path = get_pre_dir_path_from_path E path new_dir_name in
      bindE (search_path E pre_dir_path s) (\<lambda>(entry, s).
      if is_valid_entry entry
      then let pre_dir_node_num = node_num entry in
           bindE (read_node E pre_dir_node_num s) (\<lambda>(pre_dir_node, pre_dir_node_block, s).
           bindE (exists_entry pre_dir_node new_dir_name s) (\<lambda>found.
           if found then Inr (- 1, unmap_and_destroy_node pre_dir_node pre_dir_node_block s)
           else bindE (create_dir_node_and_add_entry E pre_dir_node pre_dir_node_num new_dir_name s)
                  (\<lambda>(pre_dir_node, s).
                    Inr (0, unmap_and_destroy_node pre_dir_node pre_dir_node_block s))))
      else Inr (- 1, s))))"

text \<open>
  The list of directories to delete grows while it is walked. \<open>None\<close>: the loop does not
  return (it follows entries that lead back to a directory already on the list).
\<close>

partial_function (option) collect_childs ::
    "env \<Rightarrow> t_dir_entry list_ops \<Rightarrow> nat \<Rightarrow> t_dir_entry list \<Rightarrow> t_dir_entry \<Rightarrow> fs \<Rightarrow>
     (error + (t_dir_entry list \<times> t_dir_entry \<times> fs)) option" where
  "collect_childs E L i listaEliminacion entry s =
     (if i < list_size L listaEliminacion
      then (case list_get L listaEliminacion i of
          None \<Rightarrow> Some (Inl Out_of_bounds)
        | Some unaEntrada \<Rightarrow>
            (let entry = entry\<lparr>entry_name := entry_name unaEntrada, node_num := node_num unaEntrada\<rparr>
             in case add_childs_to_list E L listaEliminacion entry s of
                  Inl e \<Rightarrow> Some (Inl e)
                | Inr r \<Rightarrow> collect_childs E L (Suc i) (fst r) entry (snd r)))
      else Some (Inr (listaEliminacion, entry, s)))"

function delete_collected :: "env \<Rightarrow> t_dir_entry list_ops \<Rightarrow> nat \<Rightarrow> t_dir_entry list \<Rightarrow> fs \<Rightarrow> error + fs" where
  "delete_collected E L i listaEliminacion s =
     (if i < list_size L listaEliminacion
      then (case list_get L listaEliminacion i of
          None \<Rightarrow> Inl Out_of_bounds
        | Some unaEntrada \<Rightarrow>
            bindE (delete_all_directory_entries E (node_num unaEntrada) s) (\<lambda>s.
            bindE (delete_node E (node_num unaEntrada) s) (\<lambda>s.
              delete_collected E L (Suc i) listaEliminacion s)))
      else Inr s)"
  by pat_completeness auto
termination
  by (relation "measure (\<lambda>(E, L, i, lst, s). list_size L lst - i)") auto

declare delete_collected.simps [simp del]

definition rmdir_tree :: "env \<Rightarrow> t_dir_entry list_ops \<Rightarrow> t_dir_entry \<Rightarrow> fs \<Rightarrow> (error + (int \<times> fs)) option" where
  "rmdir_tree E L entry s =
     (case bindE (delete_parent_entry E entry s) (\<lambda>s.
             add_childs_to_list E L (add_entry_to_list L (list_create L) entry) entry s) of
        Inl e \<Rightarrow> Some (Inl e)
      | Inr (listaEliminacion, s) \<Rightarrow>
          (case collect_childs E L 1 listaEliminacion entry s of
             None \<Rightarrow> None
           | Some (Inl e) \<Rightarrow> Some (Inl e)
           | Some (Inr (listaEliminacion, _, s)) \<Rightarrow>
               Some (bindE (delete_collected E L 0 listaEliminacion s) (\<lambda>s. Inr (0, s)))))"

definition sac_rmdir :: "env \<Rightarrow> t_dir_entry list_ops \<Rightarrow> cstr \<Rightarrow> fs \<Rightarrow> (error + (int \<times> fs)) option" where
  "sac_rmdir E L path s =
     (if \<not> is_valid_path E path then Some (Inr (- 1, s))
      else case bindE (get_new_dir_name_from_path E path) (\<lambda>dir_name.
                  search_path E path s) of
        Inl e \<Rightarrow> Some (Inl e)
      | Inr (entry, s) \<Rightarrow>
          if \<not> is_valid_entry entry then Some (Inr (- 1, s))
          else case is_directory E entry s of
            Inl e \<Rightarrow> Some (Inl e)
          | Inr (dir, s) \<Rightarrow>
              if \<not> dir then Some (Inr (- 1, s))
              else case read_node E (node_num entry) s of
                Inl e \<Rightarrow> Some (Inl e)
              | Inr (nodoDirectorioEliminar, bloqueDirectorioEliminar, s) \<Rightarrow>
                  if file_size nodoDirectorioEliminar > 0
                  then Some (Inr (- 2,
                    unmap_and_destroy_node nodoDirectorioEliminar bloqueDirectorioEliminar s))
                  else rmdir_tree E L entry s)"

section \<open>Opening, writing and reading files\<close>

definition sac_open :: "env \<Rightarrow> cstr \<Rightarrow> int \<Rightarrow> fs \<Rightarrow> error + (int \<times> fs)" where
  "sac_open E path mode s =
     (if \<not> is_valid_path E path then Inr (- 1, s)
      else bindE (getFolderPathFromFilePath E path) (\<lambda>pathCarpeta.
      bindE (search_path E pathCarpeta s) (\<lambda>(entryCarpeta, s).
      if \<not> is_valid_entry entryCarpeta then Inr (- 1, s)
      else bindE (getFileNameFromFilePath E path) (\<lambda>nombreArchivo.
           bindE (create_and_save_file_node E nombreArchivo (node_num entryCarpeta) s)
             (\<lambda>(nodoArchivo, s). Inr (sint nodoArchivo, s))))))"

text \<open>
  The loop that fills with zeros up to the offset: \<open>off\<close> is the 32 bits of the \<open>int\<close>
  \<open>offsetRestante\<close>, compared unsigned with \<open>file_size\<close>. A negative \<open>cantNullsEscribir\<close> would be
  a \<open>memset\<close> of almost the whole memory.
\<close>

lemma sint_cases: "sint (w :: u32) = (if uint w < 2147483648 then uint w else uint w - 4294967296)"
proof -
  have b: "uint w < 4294967296" "0 \<le> uint w" using uint_bounded [of w] by auto
  have "sint w = signed_take_bit 31 (uint w)" by (simp add: sint_uint)
  also have "\<dots> = (if uint w < 2147483648 then uint w else uint w - 4294967296)"
  proof (cases "uint w < 2147483648")
    case True
    have "- (2 ^ 31) \<le> uint w" by (rule order_trans [of _ 0]) (use b in auto)
    moreover have "uint w < 2 ^ 31" using True by simp
    ultimately have "signed_take_bit 31 (uint w) = uint w" by (rule signed_take_bit_int_eq_self)
    then show ?thesis using True by simp
  next
    case False
    have "signed_take_bit 31 (uint w) = signed_take_bit 31 (uint w - 4294967296)"
      by (rule signed_take_bit_eq_iff_take_bit_eq [THEN iffD2]) (simp add: take_bit_eq_mod mod_diff_eq)
    also have "\<dots> = uint w - 4294967296" using b False by (intro signed_take_bit_int_eq_self) auto
    finally show ?thesis using False by simp
  qed
  finally show ?thesis .
qed

lemma null_fill_decreases:
  fixes off bn :: u32
  assumes "bn < off" and "bn < 4096"
    and c: "c = sint (word_of_int (min_int (sint off) 4096) - bn)" and "0 \<le> c" and "c \<le> 4096"
  shows "unat (off - word_of_int c) < unat off"
proof -
  have u: "uint bn < uint off" "uint bn < 4096" "0 \<le> uint bn" "uint off < 4294967296"
    using assms(1,2) uint_bounded [of off] by (simp_all add: word_less_def)
  have "uint off < 2147483648"
  proof (rule ccontr)
    assume big: "\<not> uint off < 2147483648"
    then have "min_int (sint off) 4096 = sint off" using u by (simp add: sint_cases min_int_def)
    then have "c = sint (off - bn)" using c by simp
    moreover have "uint (off - bn) = uint off - uint bn" using u by (simp add: uint_sub_if')
    ultimately have "c = uint off - uint bn \<or> c = uint off - uint bn - 4294967296"
      by (simp add: sint_cases)
    then show False using assms(4,5) u big by linarith
  qed
  then have so: "sint off = uint off" by (simp add: sint_cases)
  define m where "m = min_int (uint off) 4096"
  have m: "uint bn < m" "m \<le> 4096" "m \<le> uint off" using u by (auto simp: m_def min_int_def)
  have wi: "uint (word_of_int z :: u32) = z" if "0 \<le> z" and "z < 4294967296" for z
    using that by (simp add: uint_word_of_int)
  have "uint (word_of_int m :: u32) = m" using m u by (intro wi) linarith+
  then have "uint (word_of_int m - bn) = m - uint bn" using m u by (simp add: uint_sub_if')
  moreover have "c = sint (word_of_int m - bn)" using c so by (simp add: m_def)
  ultimately have cm: "c = m - uint bn" using m u by (simp add: sint_cases)
  then have "uint (word_of_int c :: u32) = c" using m u by (intro wi) linarith+
  moreover have "c \<le> uint off" using cm m u by linarith
  ultimately have "uint (off - word_of_int c) = uint off - c" by (simp add: uint_sub_if')
  then have "uint (off - word_of_int c) < uint off" using cm m by simp
  then show ?thesis by (simp add: word_less_def [symmetric] word_less_nat_alt)
qed

function null_fill :: "env \<Rightarrow> t_node \<Rightarrow> u32 \<Rightarrow> fs \<Rightarrow> error + (t_node \<times> fs)" where
  "null_fill E file_node off s =
     (if file_size file_node < off
      then let posUltimoByte = get_next_write_position file_node;
               cantNullsEscribir =
                 sint (word_of_int (min_int (sint off) (int BLOCK_SIZE)) - byte_num posUltimoByte)
           in if cantNullsEscribir < 0 then Inl Overrun
           else bindE (get_data_block_from_node E file_node (block_num posUltimoByte) s) (\<lambda>bloqueDatos.
                bindE (write_bytes s bloqueDatos (unat (byte_num posUltimoByte))
                         (replicate (nat cantNullsEscribir) 0)) (\<lambda>s.
                let file_node = file_node\<lparr>file_size := file_size file_node + word_of_int cantNullsEscribir\<rparr>;
                    off = off - word_of_int cantNullsEscribir
                in bindE (if byte_num posUltimoByte + word_of_int cantNullsEscribir = of_nat BLOCK_SIZE \<and>
                             0 < sint off
                          then add_data_block_to_node E file_node s else Inr (file_node, s))
                     (\<lambda>(file_node, s). null_fill E file_node off s)))
      else Inr (file_node, s))"
  by pat_completeness auto
termination
proof (relation "measure (\<lambda>(E, nd, off, s). unat off)", simp, goal_cases)
  case (1 E nd off s pos c b s1 nd1 off1 r nd2 s2)
  have bn: "byte_num pos = file_size nd mod of_nat BLOCK_SIZE"
    using 1(2) by (simp add: get_next_write_position_def Let_def)
  have "unat (byte_num pos) + nat c \<le> 4096"
    using 1(6) by (simp add: write_bytes_def const_simps split: if_splits)
  then have "c \<le> 4096" by linarith
  moreover have "byte_num pos < 4096"
    unfolding bn by (simp add: const_simps word_mod_less_divisor)
  moreover have "byte_num pos \<le> file_size nd"
    unfolding bn by (simp add: word_le_nat_alt unat_mod)
  then have "byte_num pos < off" using 1(1) by (rule le_less_trans)
  ultimately have "unat (off - word_of_int c) < unat off"
    using 1(3,4) by (intro null_fill_decreases) (simp_all add: const_simps)
  then show ?case using 1(8) by simp
qed

text \<open>
  The loop that writes. The comparison of \<open>count - cantBytesEscritos\<close> with \<open>espacioDisponible\<close> is
  unsigned.
\<close>

function write_loop ::
    "env \<Rightarrow> bytes \<Rightarrow> nat \<Rightarrow> int \<Rightarrow> int \<Rightarrow> t_node \<Rightarrow> u32 \<Rightarrow> int \<Rightarrow> nat \<Rightarrow> nat \<Rightarrow> fs \<Rightarrow>
     error + (t_node \<times> fs)" where
  "write_loop E buffer count offset fileSizeOriginal file_node bloqueInicio byteInicio
       cantBytesEscritos cantBytesEscritosEnBloqueActual s =
     (if cantBytesEscritos < count
      then bindE (get_data_block_from_node E file_node bloqueInicio s) (\<lambda>data_block.
        let espacioDisponible = int BLOCK_SIZE - byteInicio;
            cantBytesEscribir =
              (if 0 \<le> espacioDisponible \<and> int (count - cantBytesEscritos) > espacioDisponible
               then nat espacioDisponible else count - cantBytesEscritos);
            pos = byteInicio + int cantBytesEscritosEnBloqueActual
        in if pos < 0 \<or> length buffer < cantBytesEscritos + cantBytesEscribir then Inl Out_of_bounds
        else bindE (write_bytes s data_block (nat pos) (memget buffer cantBytesEscritos cantBytesEscribir))
          (\<lambda>s.
          let escritos = cantBytesEscritos + cantBytesEscribir;
              enBloque = cantBytesEscritosEnBloqueActual + cantBytesEscribir
          in bindE (if int cantBytesEscribir = espacioDisponible \<and> escritos \<le> count
                    then bindE (add_data_block_to_node E file_node s) (\<lambda>(file_node, s).
                           Inr (file_node, bloqueInicio + 1, 0, 0, s))
                    else Inr (file_node, bloqueInicio, byteInicio, enBloque, s))
             (\<lambda>(file_node, bloqueInicio, byteInicio, enBloque, s).
             let file_node = (if offset + int escritos > fileSizeOriginal
                              then file_node\<lparr>file_size := word_of_int (offset + int escritos)\<rparr>
                              else file_node)
             in write_loop E buffer count offset fileSizeOriginal file_node bloqueInicio byteInicio
                  escritos enBloque s)))
      else Inr (file_node, s))"
  by pat_completeness auto
termination
proof (relation "measures [\<lambda>(E, b, count, off, fs0, nd, bi, byi, es, eb, s). count - es,
    \<lambda>(E, b, count, off, fs0, nd, bi, byi, es, eb, s). nat byi]", simp, goal_cases)
  case (1 E buf count off fs0 nd bi byi es eb s db sp c pos s1 es1 eb1 r nd1 y1 bi1 y2 byi1 y3 eb1' s2 nd2)
  show ?case
  proof (cases "c = 0")
    case True
    with 1 have "sp = 0" by (auto split: if_splits)
    with True 1 show ?thesis by (auto simp: const_simps bindE_eq_Inr split: if_splits)
  next
    case False
    with 1 show ?thesis by auto
  qed
qed

definition sac_write :: "env \<Rightarrow> int \<Rightarrow> bytes \<Rightarrow> nat \<Rightarrow> int \<Rightarrow> fs \<Rightarrow> error + (int \<times> fs)" where
  "sac_write E fd buffer count offset s =
     bindE (read_node E (word_of_int fd) s) (\<lambda>(file_node, file_node_block, s).
     bindE (pointer_at file_node 0) (\<lambda>p.
     bindE (if p = 0 then add_data_block_to_node E file_node s else Inr (file_node, s))
       (\<lambda>(file_node, s).
     let bloqueInicio = offset sdiv int BLOCK_SIZE;
         byteInicio = offset - int BLOCK_SIZE * bloqueInicio
     in bindE (null_fill E file_node (word_of_int offset) s) (\<lambda>(file_node, s).
        bindE (write_loop E buffer count offset (sint (file_size file_node)) file_node
                 (word_of_int bloqueInicio) byteInicio 0 0 s) (\<lambda>(file_node, s).
          Inr (int count, unmap_and_destroy_node file_node file_node_block s))))))"

text \<open>The read loop, with the bytes it has stored in the caller's buffer.\<close>

function read_loop ::
    "env \<Rightarrow> t_node \<Rightarrow> nat \<Rightarrow> u32 \<Rightarrow> int \<Rightarrow> nat \<Rightarrow> nat \<Rightarrow> nat \<Rightarrow> bytes \<Rightarrow> fs \<Rightarrow> error + bytes" where
  "read_loop E file_node count bloqueInicio byteInicio bloqueDatos datosLeidos bloquesLeidos buffer s =
     (if datosLeidos < count
      then let minimo = (if of_nat BLOCK_SIZE > file_size file_node then int (unat (file_size file_node))
                         else int BLOCK_SIZE);
               datosALeer = (if 0 \<le> minimo - byteInicio \<and> int (count - datosLeidos) > minimo - byteInicio
                             then nat (minimo - byteInicio) else count - datosLeidos)
           in if byteInicio < 0 then Inl Out_of_bounds
           else bindE (read_bytes s bloqueDatos (nat byteInicio) datosALeer) (\<lambda>bs.
             let buffer = buffer @ bs;
                 leidos = datosLeidos + datosALeer
             in if leidos \<ge> unat (file_size file_node) then Inr buffer
             else if leidos < count
             then bindE (get_data_block_from_node E file_node
                           (bloqueInicio + of_nat (Suc bloquesLeidos)) s) (\<lambda>bloqueDatos.
                    read_loop E file_node count bloqueInicio 0 bloqueDatos leidos (Suc bloquesLeidos)
                      buffer s)
             else Inr buffer)
      else Inr buffer)"
  by pat_completeness auto
termination
proof (relation "measures [\<lambda>(E, nd, count, bi, byi, b, l, k, buf, s). count - l,
    \<lambda>(E, nd, count, bi, byi, b, l, k, buf, s). nat byi]", simp, goal_cases)
  case (1 E nd count bi byi b l k buf s m n bs buf1 l1 b1)
  show ?case
  proof (cases "n = 0")
    case True
    with 1 have "byi = m" by (auto split: if_splits)
    have "0 < unat (file_size nd)" using 1(8) by linarith
    then have "0 < int (unat (file_size nd))" by (simp only: of_nat_0_less_iff)
    then have "0 < m" unfolding 1(2) by (simp only: const_simps split: if_splits) simp
    with \<open>byi = m\<close> show ?thesis using 1 True by auto
  next
    case False
    with 1 show ?thesis by auto
  qed
qed

definition sac_read :: "env \<Rightarrow> int \<Rightarrow> nat \<Rightarrow> int \<Rightarrow> fs \<Rightarrow> error + (int \<times> bytes \<times> fs)" where
  "sac_read E fd count offset s =
     bindE (read_node E (word_of_int fd) s) (\<lambda>(file_node, file_node_block, s).
     let close = unmap_and_destroy_node file_node file_node_block s in
     if state file_node \<noteq> 1 then Inr (- 1, [], close)
     else bindE (pointer_at file_node 0) (\<lambda>p.
     if p = 0 then Inr (- 1, [], close)
     else if offset \<ge> sint (file_size file_node) then Inr (0, [], close)
     else let bloqueInicio = offset sdiv int BLOCK_SIZE;
              byteInicio = offset - int BLOCK_SIZE * bloqueInicio
          in bindE (get_data_block_from_node E file_node (word_of_int bloqueInicio) s) (\<lambda>bloqueDatos.
             let size = int (unat (file_size file_node));
                 count = (if int count + offset > size \<or> int count + offset < 0
                          then nat (size - offset) else count)
             in bindE (read_loop E file_node count (word_of_int bloqueInicio) byteInicio bloqueDatos
                         0 0 [] s) (\<lambda>buffer.
                Inr (int (length buffer), buffer, close)))))"

declare null_fill.simps [simp del] write_loop.simps [simp del] read_loop.simps [simp del]

definition sac_close :: "int \<Rightarrow> int" where
  "sac_close fd =
     (if int NODE_TABLE_INITIAL_BLOCK \<le> fd \<and> fd \<le> int (NODE_TABLE_INITIAL_BLOCK + NODE_TABLE_BLOCKS)
      then 1 else 0)"

section \<open>Attributes and listings\<close>

text \<open>
  The fields of \<open>struct stat\<close> that the code fills, as its readers take them: the dates are
  \<open>time_t\<close>, read as \<open>u_int64_t\<close>.
\<close>

record stat_buf =
  st_mode :: u32
  st_ino :: u32
  st_size :: u32
  st_mtime :: u64
  st_ctime :: u64

definition S_IFREG :: u32 where
  "S_IFREG = 0x8000"

definition S_IFDIR :: u32 where
  "S_IFDIR = 0x4000"

definition sac_stat :: "env \<Rightarrow> cstr \<Rightarrow> fs \<Rightarrow> error + (int \<times> stat_buf option \<times> fs)" where
  "sac_stat E path s =
     (if \<not> is_valid_path E path then Inr (- 1, None, s)
      else bindE (search_path E path s) (\<lambda>(entry, s).
      if \<not> is_valid_entry entry then Inr (- 1, None, s)
      else bindE (read_node E (node_num entry) s) (\<lambda>(file_node, file_node_block, s).
        let close = unmap_and_destroy_node file_node file_node_block s;
            fill = (\<lambda>mode. Inr (0, Some \<lparr>st_mode = mode, st_ino = node_num entry,
                      st_size = file_size file_node, st_mtime = to_time_t E (modification_date file_node),
                      st_ctime = to_time_t E (creation_date file_node)\<rparr>, close))
        in if state file_node = 1 then fill (or S_IFREG 0x1FF)
           else if state file_node = 2 then fill (or S_IFDIR 0x1FF)
           else Inr (- 1, None, close))))"

text \<open>
  The array has \<open>number_of_entries + 1\<close> places; \<open>load_entry\<close> stores a name in the next one. The
  last is then set to \<open>NULL\<close>, so what the caller sees is the first \<open>number_of_entries\<close> places
  (\<open>None\<close>: one that was never set).
\<close>

definition load_entry :: "nat \<Rightarrow> cstr list process" where
  "load_entry number_of_entries entry_names entry =
     (if length entry_names \<le> number_of_entries
      then Inr (invalid_entry, entry_names @ [entry_name entry]) else Inl Overrun)"

definition sac_readdir :: "env \<Rightarrow> cstr \<Rightarrow> fs \<Rightarrow> error + (cstr option list option \<times> fs)" where
  "sac_readdir E path s =
     (if \<not> is_valid_path E path then Inr (None, s)
      else bindE (search_path E path s) (\<lambda>(dir_entry, s).
      bindE (read_node E (node_num dir_entry) s) (\<lambda>(dir_node, dir_node_block, s).
      let close = unmap_and_destroy_node dir_node dir_node_block s in
      if \<not> is_valid_entry dir_entry \<or> state dir_node \<noteq> 2 then Inr (None, close)
      else let number_of_entries = unat (file_size dir_node div of_nat DIR_ENTRY_SIZE) in
        bindE (iterate_pointers_blocks dir_node (load_entry number_of_entries) s [])
          (\<lambda>(_, entry_names).
            Inr (Some (map Some (take number_of_entries entry_names) @
                       replicate (number_of_entries - length entry_names) None), close)))))"

section \<open>Renaming and removing\<close>

definition sac_rename :: "env \<Rightarrow> cstr \<Rightarrow> cstr \<Rightarrow> fs \<Rightarrow> error + (int \<times> fs)" where
  "sac_rename E old_path new_path s =
     (if \<not> is_valid_path E old_path \<or> \<not> is_valid_path E new_path then Inr (- 1, s)
      else bindE (get_new_dir_name_from_path E old_path) (\<lambda>old_file_name.
      bindE (get_new_dir_name_from_path E new_path) (\<lambda>new_file_name.
      let old_pre_dir_path = get_pre_dir_path_from_path E old_path old_file_name;
          new_pre_dir_path = get_pre_dir_path_from_path E new_path new_file_name
      in bindE (search_path E old_pre_dir_path s) (\<lambda>(old_dir_entry, s).
      bindE (search_path E new_pre_dir_path s) (\<lambda>(new_dir_entry, s).
      if is_valid_entry old_dir_entry \<and> is_valid_entry new_dir_entry
      then bindE (read_node E (node_num old_dir_entry) s) (\<lambda>(pre_dir_node, pre_dir_node_block, s).
           bindE (get_entry pre_dir_node old_file_name s) (\<lambda>old_file_entry.
           bindE (delete_directory_entry E pre_dir_node (entry_name old_file_entry) s)
             (\<lambda>(pre_dir_node, s).
           let s = unmap_and_destroy_node pre_dir_node pre_dir_node_block s in
           bindE (read_node E (node_num new_dir_entry) s) (\<lambda>(pre_dir_node, pre_dir_node_block, s).
           bindE (add_directory_entry E pre_dir_node new_file_name (node_num old_file_entry) s)
             (\<lambda>(pre_dir_node, s).
           let s = unmap_and_destroy_node pre_dir_node pre_dir_node_block s in
           bindE (read_node E (node_num old_file_entry) s) (\<lambda>(file_node, file_node_block, s).
           let file_node = file_node\<lparr>parent_block :=
                 node_num new_dir_entry + of_nat NODE_TABLE_INITIAL_BLOCK\<rparr>
           in Inr (0, unmap_and_destroy_node file_node file_node_block s)))))))
      else Inr (- 1, s))))))"

text \<open>
  Freeing the blocks of a file: the data blocks of one pointer block (\<open>cantBloques\<close> is what
  remains to free), then the pointer block, for every pointer up to the first zero.
\<close>

fun free_pointed :: "env \<Rightarrow> nat \<Rightarrow> nat list \<Rightarrow> nat \<Rightarrow> fs \<Rightarrow> error + (nat \<times> fs)" where
  "free_pointed E bloquePunteros [] cantBloques s = Inr (cantBloques, s)"
| "free_pointed E bloquePunteros (j # js) cantBloques s =
     (if cantBloques > 0
      then bindE (read_bytes s bloquePunteros (j * 4) 4) (\<lambda>numBloque.
           bindE (free_block E (bytes_to_int32 numBloque) s) (\<lambda>s.
             free_pointed E bloquePunteros js (cantBloques - 1) s))
      else Inr (cantBloques, s))"

fun free_file_blocks :: "env \<Rightarrow> u32 list \<Rightarrow> nat \<Rightarrow> fs \<Rightarrow> error + fs" where
  "free_file_blocks E [] cantBloques s = Inr s"
| "free_file_blocks E (p # ps) cantBloques s =
     (if p = 0 then Inr s
      else bindE (read_block p) (\<lambda>bloquePunteros.
           bindE (free_pointed E bloquePunteros [0..<1024] cantBloques s) (\<lambda>(cantBloques, s).
           bindE (free_block E p s) (\<lambda>s. free_file_blocks E ps cantBloques s))))"

definition sac_remove :: "env \<Rightarrow> cstr \<Rightarrow> fs \<Rightarrow> error + (int \<times> fs)" where
  "sac_remove E path s =
     (if \<not> is_valid_path E path then Inr (- 1, s)
      else bindE (search_path E path s) (\<lambda>(entry, s).
      if \<not> is_valid_entry entry then Inr (- 1, s)
      else bindE (read_node E (node_num entry) s) (\<lambda>(file_node, file_node_block, s).
      if state file_node \<noteq> 1 then Inr (- 1, unmap_and_destroy_node file_node file_node_block s)
      else let cantBloques = unat (file_size file_node div of_nat BLOCK_SIZE) + 1 in
        bindE (free_file_blocks E (take 1000 (indirect_pointer_block file_node)) cantBloques s) (\<lambda>s.
        bindE (read_block (parent_block file_node)) (\<lambda>bloquePadre.
        bindE (block_to_node E (disk s bloquePadre) s) (\<lambda>(nodoPadre, s).
        bindE (getFileNameFromFilePath E path) (\<lambda>nombreArchivo.
        bindE (delete_directory_entry E nodoPadre nombreArchivo s) (\<lambda>(nodoPadre, s).
        let s = unmap_and_destroy_node nodoPadre bloquePadre s;
            file_node = file_node\<lparr>state := 0\<rparr>;
            numBloqueNodo = get_block_num_from_node_num (node_num entry);
            s = unmap_and_destroy_node file_node file_node_block s
        in bindE (free_block E numBloqueNodo s) (\<lambda>s. Inr (0, s))))))))))"

section \<open>Truncating\<close>

lemma size_before_last:
  "unat (if file_size nd div of_nat BLOCK_SIZE = 0 then 0
         else (file_size nd div of_nat BLOCK_SIZE - 1) * of_nat BLOCK_SIZE) =
   (unat (file_size nd) div 4096 - 1) * 4096"
proof -
  let ?u = "file_size nd div of_nat BLOCK_SIZE" and ?q = "unat (file_size nd) div 4096"
  have u: "unat ?u = ?q" by (rule size_div_block)
  show ?thesis
  proof (cases "?u = 0")
    case True
    then show ?thesis using u by simp
  next
    case False
    have m: "unat (?u - 1) = ?q - 1" unfolding u [symmetric] using False by (rule unat_minus_one)
    have "(?q - 1) * 4096 \<le> unat (file_size nd)"
      using div_times_less_eq_dividend [of "unat (file_size nd)" 4096] by (simp add: diff_mult_distrib)
    moreover have "unat (file_size nd) < 4294967296" using unsigned_less [of "file_size nd"] by simp
    ultimately have "unat (?u - 1) * unat (of_nat BLOCK_SIZE :: u32) < 4294967296"
      unfolding m by (simp add: const_simps)
    then have "unat ((?u - 1) * of_nat BLOCK_SIZE) = unat (?u - 1) * unat (of_nat BLOCK_SIZE :: u32)"
      by (intro unat_mult_lem [THEN iffD1]) simp
    also have "\<dots> = (?q - 1) * 4096" unfolding m by (simp add: const_simps)
    finally show ?thesis using False by (simp only: if_False)
  qed
qed

lemma deleteLastDataBlock_shrinks:
  "deleteLastDataBlock E nd s = Inr (nd', s') \<Longrightarrow> file_size nd \<noteq> 0 \<Longrightarrow>
   unat (file_size nd') < unat (file_size nd)"
proof -
  assume del: "deleteLastDataBlock E nd s = Inr (nd', s')" and nz: "file_size nd \<noteq> 0"
  have "unat (file_size nd') = (unat (file_size nd) div 4096 - 1) * 4096"
    using del nz size_before_last [of nd]
    by (auto simp: deleteLastDataBlock_def Let_def bindE_eq_Inr set_pointer_def split: if_splits)
  moreover have "(q div 4096 - 1) * 4096 < q" if "q \<noteq> 0" for q :: nat
    using that div_times_less_eq_dividend [of q 4096] by (cases "q div 4096") simp_all
  moreover have "unat (file_size nd) \<noteq> 0" using nz by (simp only: unsigned_eq_0_iff not_False_eq_True)
  ultimately show ?thesis by presburger
qed

text \<open>The loop that shortens a file to \<open>largoTruncado\<close> bytes.\<close>

function shrink_loop :: "env \<Rightarrow> nat \<Rightarrow> t_node \<Rightarrow> fs \<Rightarrow> error + (t_node \<times> fs)" where
  "shrink_loop E largoTruncado file_node s =
     (let tamanoArchivo = sint (file_size file_node);
          cantBytesATruncar = tamanoArchivo - int largoTruncado
      in if tamanoArchivo > int largoTruncado \<and> tamanoArchivo > 0
         then if cantBytesATruncar \<ge> int BLOCK_SIZE \<or> largoTruncado = 0
              then bindE (deleteLastDataBlock E file_node s) (\<lambda>(file_node, s).
                     shrink_loop E largoTruncado file_node s)
              else shrink_loop E largoTruncado
                     (file_node\<lparr>file_size := file_size file_node - word_of_int cantBytesATruncar\<rparr>) s
         else Inr (file_node, s))"
  by pat_completeness auto
termination
proof (relation "measure (\<lambda>(E, l, nd, s). unat (file_size nd))", simp, goal_cases)
  case (1 E l nd s t c r nd' s')
  then have "file_size nd \<noteq> 0" by auto
  then show ?case using 1 deleteLastDataBlock_shrinks [of E nd s nd' s'] by auto
next
  case (2 E l nd s t c)
  have t: "t = uint (file_size nd)"
    using 2 uint_bounded [of "file_size nd"] by (simp add: sint_cases split: if_splits)
  have c: "0 < c" "c \<le> uint (file_size nd)" "c < 4294967296"
    using 2 t uint_bounded [of "file_size nd"] by auto
  then have "uint (word_of_int c :: u32) = c" by (simp add: uint_word_of_int)
  then have "uint (file_size nd - word_of_int c) < uint (file_size nd)"
    using c by (simp add: uint_sub_if')
  then have "unat (file_size nd - word_of_int c) < unat (file_size nd)"
    by (simp add: word_less_def [symmetric] word_less_nat_alt)
  then show ?case by simp
qed

declare shrink_loop.simps [simp del]

definition sac_truncate :: "env \<Rightarrow> cstr \<Rightarrow> int \<Rightarrow> fs \<Rightarrow> error + (int \<times> fs)" where
  "sac_truncate E path lenght s =
     (let lenght = (if lenght < 0 then 0 else lenght) in
      if \<not> is_valid_path E path then Inr (- 1, s)
      else bindE (search_path E path s) (\<lambda>(entry, s).
      if \<not> is_valid_entry entry then Inr (- 1, s)
      else bindE (read_node E (node_num entry) s) (\<lambda>(file_node, file_node_block, s).
      if state file_node \<noteq> 1 then Inr (- 1, unmap_and_destroy_node file_node file_node_block s)
      else let tamanoArchivo = sint (file_size file_node) in
        if lenght > tamanoArchivo
        then let n = nat (lenght - tamanoArchivo) in
             bindE (sac_open E path 0 s) (\<lambda>(fd, s).
             bindE (sac_write E fd (replicate n 65) n tamanoArchivo s) (\<lambda>(_, s). Inr (0, s)))
        else bindE (shrink_loop E (nat lenght) file_node s) (\<lambda>(file_node, s).
               Inr (0, unmap_and_destroy_node file_node file_node_block s)))))"

end
