(* ===== verification/Serialization.thy ===== *)
theory Serialization
  imports Commons
begin

text \<open>
  \<open>serialization.c\<close>: the packages that client and server exchange, their layout in bytes, and
  the functions that build them and take them apart, with the round trips between the two.
  A package's data is a block of allocated memory; its allocation number \<open>t\<close> gives the bytes
  it holds before it is written and those that lie after it.
\<close>

section \<open>Memory of the heap\<close>

definition malloc :: "env \<Rightarrow> nat \<Rightarrow> nat \<Rightarrow> bytes" where
  "malloc E t n = map (uninit E t) [0..<n]"

definition mem_write :: "bytes \<Rightarrow> nat \<Rightarrow> bytes \<Rightarrow> error + bytes" where
  "mem_write buf pos xs =
     (if pos + length xs \<le> length buf then Inr (memput buf pos xs) else Inl Overrun)"

text \<open>Reading past the end of a block gives what lies there, unless it faults.\<close>

definition mem_read :: "env \<Rightarrow> nat \<Rightarrow> bytes \<Rightarrow> nat \<Rightarrow> nat \<Rightarrow> error + bytes" where
  "mem_read E t buf pos n =
     (let over = map (past_end E t) [0..<pos + n - length buf]
      in if None \<in> set over then Inl Out_of_bounds
         else Inr (memget (buf @ map the over) pos n))"

lemma length_malloc [simp]: "length (malloc E t n) = n"
  by (simp add: malloc_def)

lemma mem_write_in [buf_simps]:
  "pos + length xs \<le> length buf \<Longrightarrow> mem_write buf pos xs = Inr (memput buf pos xs)"
  by (simp add: mem_write_def)

lemma mem_write_out [buf_simps]: "length buf < pos + length xs \<Longrightarrow> mem_write buf pos xs = Inl Overrun"
  by (simp add: mem_write_def)

lemma mem_read_in [buf_simps]: "pos + n \<le> length buf \<Longrightarrow> mem_read E t buf pos n = Inr (memget buf pos n)"
  by (simp add: mem_read_def)

lemma mem_read_past:
  assumes "length buf < pos + n" and "past_end E t (pos + n - length buf - 1) = None"
  shows "mem_read E t buf pos n = Inl Out_of_bounds"
proof -
  have "pos + n - length buf - 1 \<in> set [0..<pos + n - length buf]" using assms(1) by auto
  then have "None \<in> set (map (past_end E t) [0..<pos + n - length buf])"
    using assms(2) by (metis image_eqI set_map)
  then show ?thesis by (simp add: mem_read_def)
qed

text \<open>Conversion to \<open>off_t\<close>, a signed integer.\<close>

definition to_off_t :: "env \<Rightarrow> int \<Rightarrow> int" where
  "to_off_t E v = signed_take_bit (8 * sizeof_off_t E - 1) v"

lemma to_off_t_small:
  assumes "0 \<le> v" and "v < 2 ^ 31" and "4 \<le> sizeof_off_t E"
  shows "to_off_t E v = v"
proof -
  have "(31 :: nat) \<le> 8 * sizeof_off_t E - 1" using assms(3) by simp
  then have "(2 :: int) ^ 31 \<le> 2 ^ (8 * sizeof_off_t E - 1)" by (intro power_increasing) simp_all
  then have "v < 2 ^ (8 * sizeof_off_t E - 1)" using assms(2) by linarith
  moreover have "- (2 ^ (8 * sizeof_off_t E - 1)) \<le> v" using assms(1) by (rule order_trans [rotated]) simp
  ultimately show ?thesis unfolding to_off_t_def by (intro signed_take_bit_int_eq_self)
qed

section \<open>Packages and functions\<close>

datatype t_identifier_message =
  IDENTIFIER_SAC | IDENTIFIER_OPEN | IDENTIFIER_CLOSE | IDENTIFIER_WRITE | IDENTIFIER_READ |
  IDENTIFIER_REMOVE | IDENTIFIER_MKDIR | IDENTIFIER_RMDIR | IDENTIFIER_STAT |
  IDENTIFIER_READDIR | IDENTIFIER_RENAME | IDENTIFIER_TRUNCATE

text \<open>The value of an enumerator.\<close>

fun ident :: "t_identifier_message \<Rightarrow> nat" where
  "ident IDENTIFIER_SAC = 0"
| "ident IDENTIFIER_OPEN = 1"
| "ident IDENTIFIER_CLOSE = 2"
| "ident IDENTIFIER_WRITE = 3"
| "ident IDENTIFIER_READ = 4"
| "ident IDENTIFIER_REMOVE = 5"
| "ident IDENTIFIER_MKDIR = 6"
| "ident IDENTIFIER_RMDIR = 7"
| "ident IDENTIFIER_STAT = 8"
| "ident IDENTIFIER_READDIR = 9"
| "ident IDENTIFIER_RENAME = 10"
| "ident IDENTIFIER_TRUNCATE = 11"

text \<open>\<open>message_id\<close> is a signed 64-bit integer, kept as its bits.\<close>

record t_package =
  message_id :: u64
  pkg_size :: u32
  pkg_data :: bytes

record t_function =
  function_id :: byte
  args :: "bytes list"
  arg_count :: byte

abbreviation id_word :: "t_identifier_message \<Rightarrow> u64" where
  "id_word m \<equiv> of_nat (ident m)"

section \<open>On the wire\<close>

text \<open>
  What \<open>send_package\<close> puts on the socket, and what \<open>receive_package\<close> takes off it. \<open>recv\<close> with
  \<open>MSG_WAITALL\<close> stores fewer bytes than asked only when the peer has closed: \<open>stream\<close> is all
  that the peer sends before. The fields it does not reach keep what \<open>malloc\<close> gave. The results
  of \<open>send\<close> are not looked at, so a size above the length of the data is not noticed: the header
  says so, and \<open>send\<close> transmits what it can.
\<close>

definition send_bytes :: "env \<Rightarrow> bytes \<Rightarrow> nat \<Rightarrow> bytes" where
  "send_bytes E bs n = (if n \<le> length bs then take n bs else send_past E bs n)"

definition send_package :: "env \<Rightarrow> t_package \<Rightarrow> bytes" where
  "send_package E p =
     le_enc 8 (message_id p) @ le_enc 4 (pkg_size p) @
     (if pkg_size p > 0 then send_bytes E (pkg_data p) (unat (pkg_size p)) else [])"

definition recv :: "bytes \<Rightarrow> bytes \<Rightarrow> bytes \<times> bytes" where
  "recv buf stream = (memput buf 0 (take (length buf) stream), drop (length buf) stream)"

definition receive_package :: "env \<Rightarrow> nat \<Rightarrow> bytes \<Rightarrow> t_package \<times> bytes" where
  "receive_package E t stream =
     (let (i, stream) = recv (map (uninit E t) [0..<8]) stream;
          (n, stream) = recv (map (uninit E t) [8..<12]) stream;
          sz = le_dec n :: u32;
          dat = malloc E (Suc t) (unat sz);
          (d, stream) = (if sz > 0 then recv dat stream else (dat, stream))
      in (\<lparr>message_id = le_dec i, pkg_size = sz, pkg_data = d\<rparr>, stream))"

definition send_handshake :: "env \<Rightarrow> bytes" where
  "send_handshake E = send_package E \<lparr>message_id = id_word IDENTIFIER_SAC, pkg_size = 0, pkg_data = []\<rparr>"

section \<open>Building packages\<close>

definition string_serialized_size :: "cstr \<Rightarrow> u16" where
  "string_serialized_size s = of_nat (2 + length s + 1)"

definition serialize_string :: "cstr \<Rightarrow> bytes \<Rightarrow> nat \<Rightarrow> error + bytes" where
  "serialize_string s buf pos =
     (let len = of_nat (length s + 1) :: u16
      in bindE (mem_write buf pos (le_enc 2 len)) (\<lambda>buf.
         mem_write buf (pos + 2) (take (unat len) (s @ [0]))))"

definition serialize_path :: "env \<Rightarrow> nat \<Rightarrow> t_identifier_message \<Rightarrow> cstr \<Rightarrow> error + t_package" where
  "serialize_path E t m path =
     (let n = unat (string_serialized_size path)
      in bindE (serialize_string path (malloc E t n) 0) (\<lambda>d.
         Inr \<lparr>message_id = id_word m, pkg_size = of_nat n, pkg_data = d\<rparr>))"

text \<open>A path and a field after it: \<open>serialize_open\<close>, \<open>serialize_mkdir\<close> and \<open>serialize_truncate\<close>.\<close>

definition serialize_open :: "env \<Rightarrow> nat \<Rightarrow> cstr \<Rightarrow> int \<Rightarrow> error + t_package" where
  "serialize_open E t path mode =
     (let smode = word_of_int mode :: u16;
          l = unat (string_serialized_size path);
          n = l + 2
      in bindE (serialize_string path (malloc E t n) 0) (\<lambda>d.
         bindE (mem_write d l (le_enc 2 smode)) (\<lambda>d.
         Inr \<lparr>message_id = id_word IDENTIFIER_OPEN, pkg_size = of_nat n, pkg_data = d\<rparr>)))"

definition serialize_close :: "env \<Rightarrow> nat \<Rightarrow> int \<Rightarrow> error + t_package" where
  "serialize_close E t fd =
     (let sfd = word_of_int fd :: u16
      in bindE (mem_write (malloc E t 2) 0 (le_enc 2 sfd)) (\<lambda>d.
         Inr \<lparr>message_id = id_word IDENTIFIER_CLOSE, pkg_size = 2, pkg_data = d\<rparr>))"

text \<open>
  \<open>sizeof(count)\<close> is the size of a \<open>size_t\<close>, not that of the \<open>size_buffer\<close> field it is used for. The
  last copies go by \<open>scount\<close> and \<open>count\<close> as the source writes them.
\<close>

definition serialize_write :: "env \<Rightarrow> nat \<Rightarrow> int \<Rightarrow> bytes \<Rightarrow> nat \<Rightarrow> int \<Rightarrow> error + t_package" where
  "serialize_write E t fd buffer count offset =
     (let sfd = word_of_int fd :: u16;
          scount = of_nat count :: u32;
          soffset = word_of_int offset :: u32;
          n = 2 + 4 + scount + 4 :: u32;
          k = 2 + sizeof_size_t E
      in bindE (mem_write (malloc E t (unat n)) 0 (le_enc 2 sfd)) (\<lambda>d.
         bindE (mem_write d 2 (le_enc 4 scount)) (\<lambda>d.
         if length buffer < unat scount then Inl Out_of_bounds
         else bindE (mem_write d k (take (unat scount) buffer)) (\<lambda>d.
         bindE (mem_write d (k + count) (le_enc 4 soffset)) (\<lambda>d.
         Inr \<lparr>message_id = id_word IDENTIFIER_WRITE, pkg_size = n, pkg_data = d\<rparr>)))))"

definition serialize_read :: "env \<Rightarrow> nat \<Rightarrow> int \<Rightarrow> nat \<Rightarrow> int \<Rightarrow> error + t_package" where
  "serialize_read E t fd count offset =
     (let sfd = word_of_int fd :: u16;
          scount = of_nat count :: u32;
          soffset = word_of_int offset :: u32
      in bindE (mem_write (malloc E t 10) 0 (le_enc 2 sfd)) (\<lambda>d.
         bindE (mem_write d 2 (le_enc 4 scount)) (\<lambda>d.
         bindE (mem_write d 6 (le_enc 4 soffset)) (\<lambda>d.
         Inr \<lparr>message_id = id_word IDENTIFIER_READ, pkg_size = 10, pkg_data = d\<rparr>))))"

definition serialize_remove :: "env \<Rightarrow> nat \<Rightarrow> cstr \<Rightarrow> error + t_package" where
  "serialize_remove E t path = serialize_path E t IDENTIFIER_REMOVE path"

definition serialize_mkdir :: "env \<Rightarrow> nat \<Rightarrow> cstr \<Rightarrow> int \<Rightarrow> error + t_package" where
  "serialize_mkdir E t path mode =
     (let smode = word_of_int mode :: u16;
          l = unat (string_serialized_size path);
          n = l + 2
      in bindE (serialize_string path (malloc E t n) 0) (\<lambda>d.
         bindE (mem_write d l (le_enc 2 smode)) (\<lambda>d.
         Inr \<lparr>message_id = id_word IDENTIFIER_MKDIR, pkg_size = of_nat n, pkg_data = d\<rparr>)))"

definition serialize_rmdir :: "env \<Rightarrow> nat \<Rightarrow> cstr \<Rightarrow> error + t_package" where
  "serialize_rmdir E t path = serialize_path E t IDENTIFIER_RMDIR path"

definition serialize_stat :: "env \<Rightarrow> nat \<Rightarrow> cstr \<Rightarrow> error + t_package" where
  "serialize_stat E t path = serialize_path E t IDENTIFIER_STAT path"

definition serialize_readdir :: "env \<Rightarrow> nat \<Rightarrow> cstr \<Rightarrow> error + t_package" where
  "serialize_readdir E t path = serialize_path E t IDENTIFIER_READDIR path"

definition serialize_rename :: "env \<Rightarrow> nat \<Rightarrow> cstr \<Rightarrow> cstr \<Rightarrow> error + t_package" where
  "serialize_rename E t old_path new_path =
     (let l = unat (string_serialized_size old_path);
          n = l + unat (string_serialized_size new_path)
      in bindE (serialize_string old_path (malloc E t n) 0) (\<lambda>d.
         bindE (serialize_string new_path d l) (\<lambda>d.
         Inr \<lparr>message_id = id_word IDENTIFIER_RENAME, pkg_size = of_nat n, pkg_data = d\<rparr>)))"

definition serialize_truncate :: "env \<Rightarrow> nat \<Rightarrow> cstr \<Rightarrow> int \<Rightarrow> error + t_package" where
  "serialize_truncate E t path len =
     (let l = unat (string_serialized_size path);
          n = l + sizeof_off_t E
      in bindE (serialize_string path (malloc E t n) 0) (\<lambda>d.
         bindE (mem_write d l (le_enc (sizeof_off_t E) (word_of_int len :: u64))) (\<lambda>d.
         Inr \<lparr>message_id = id_word IDENTIFIER_TRUNCATE, pkg_size = of_nat n, pkg_data = d\<rparr>)))"

section \<open>Taking packages apart\<close>

text \<open>A length and the string it counts, at a position of the data.\<close>

definition read_string :: "env \<Rightarrow> nat \<Rightarrow> bytes \<Rightarrow> nat \<Rightarrow> error + (bytes \<times> nat)" where
  "read_string E t dat pos =
     bindE (mem_read E t dat pos 2) (\<lambda>l.
     let len = unat (le_dec l :: u16)
     in bindE (mem_read E t dat (pos + 2) len) (\<lambda>s. Inr (s, pos + 2 + len)))"

definition deserialize_open :: "env \<Rightarrow> nat \<Rightarrow> t_package \<Rightarrow> error + t_function" where
  "deserialize_open E t p =
     bindE (read_string E t (pkg_data p) 0) (\<lambda>(path, k).
     bindE (mem_read E t (pkg_data p) k 2) (\<lambda>mode.
     Inr \<lparr>function_id = ucast (message_id p), args = [path, mode], arg_count = 2\<rparr>))"

definition deserialize_close :: "env \<Rightarrow> nat \<Rightarrow> t_package \<Rightarrow> error + t_function" where
  "deserialize_close E t p =
     bindE (mem_read E t (pkg_data p) 0 (unat (pkg_size p))) (\<lambda>a.
     Inr \<lparr>function_id = ucast (message_id p), args = [a], arg_count = 1\<rparr>)"

definition deserialize_write :: "env \<Rightarrow> nat \<Rightarrow> t_package \<Rightarrow> error + t_function" where
  "deserialize_write E t p =
     bindE (mem_read E t (pkg_data p) 0 2) (\<lambda>fd.
     bindE (mem_read E t (pkg_data p) 2 4) (\<lambda>count.
     let scount = unat (le_dec count :: u32)
     in bindE (mem_read E t (pkg_data p) 6 scount) (\<lambda>buffer.
        bindE (mem_read E t (pkg_data p) (6 + scount) 4) (\<lambda>offset.
        Inr \<lparr>function_id = ucast (message_id p), args = [fd, buffer, count, offset], arg_count = 4\<rparr>))))"

definition deserialize_read :: "env \<Rightarrow> nat \<Rightarrow> t_package \<Rightarrow> error + t_function" where
  "deserialize_read E t p =
     bindE (mem_read E t (pkg_data p) 0 2) (\<lambda>fd.
     bindE (mem_read E t (pkg_data p) 2 4) (\<lambda>count.
     bindE (mem_read E t (pkg_data p) 6 4) (\<lambda>offset.
     Inr \<lparr>function_id = ucast (message_id p), args = [fd, count, offset], arg_count = 3\<rparr>)))"

definition deserialize_remove :: "env \<Rightarrow> nat \<Rightarrow> t_package \<Rightarrow> error + t_function" where
  "deserialize_remove E t p =
     bindE (read_string E t (pkg_data p) 0) (\<lambda>(path, _).
     Inr \<lparr>function_id = ucast (message_id p), args = [path], arg_count = 1\<rparr>)"

definition deserialize_mkdir :: "env \<Rightarrow> nat \<Rightarrow> t_package \<Rightarrow> error + t_function" where
  "deserialize_mkdir E t p = deserialize_open E t p"

definition deserialize_rmdir :: "env \<Rightarrow> nat \<Rightarrow> t_package \<Rightarrow> error + t_function" where
  "deserialize_rmdir E t p = deserialize_remove E t p"

definition deserialize_stat :: "env \<Rightarrow> nat \<Rightarrow> t_package \<Rightarrow> error + t_function" where
  "deserialize_stat E t p = deserialize_open E t p"

definition deserialize_readdir :: "env \<Rightarrow> nat \<Rightarrow> t_package \<Rightarrow> error + t_function" where
  "deserialize_readdir E t p = deserialize_remove E t p"

definition deserialize_rename :: "env \<Rightarrow> nat \<Rightarrow> t_package \<Rightarrow> error + t_function" where
  "deserialize_rename E t p =
     bindE (read_string E t (pkg_data p) 0) (\<lambda>(old_path, k).
     bindE (read_string E t (pkg_data p) k) (\<lambda>(new_path, _).
     Inr \<lparr>function_id = ucast (message_id p), args = [old_path, new_path], arg_count = 2\<rparr>))"

definition deserialize_truncate :: "env \<Rightarrow> nat \<Rightarrow> t_package \<Rightarrow> error + t_function" where
  "deserialize_truncate E t p =
     bindE (read_string E t (pkg_data p) 0) (\<lambda>(path, k).
     bindE (mem_read E t (pkg_data p) k (sizeof_off_t E)) (\<lambda>len.
     Inr \<lparr>function_id = ucast (message_id p), args = [path, len], arg_count = 2\<rparr>))"

text \<open>\<open>None\<close> is \<open>NULL\<close>: the identifier is that of no function.\<close>

definition deserialize :: "env \<Rightarrow> nat \<Rightarrow> t_package \<Rightarrow> error + t_function option" where
  "deserialize E t p =
     (let go = (\<lambda>f. bindE (f E t p) (\<lambda>fn. Inr (Some fn)))
      in if message_id p = id_word IDENTIFIER_OPEN then go deserialize_open
      else if message_id p = id_word IDENTIFIER_CLOSE then go deserialize_close
      else if message_id p = id_word IDENTIFIER_WRITE then go deserialize_write
      else if message_id p = id_word IDENTIFIER_READ then go deserialize_read
      else if message_id p = id_word IDENTIFIER_REMOVE then go deserialize_remove
      else if message_id p = id_word IDENTIFIER_MKDIR then go deserialize_mkdir
      else if message_id p = id_word IDENTIFIER_RMDIR then go deserialize_rmdir
      else if message_id p = id_word IDENTIFIER_STAT then go deserialize_stat
      else if message_id p = id_word IDENTIFIER_READDIR then go deserialize_readdir
      else if message_id p = id_word IDENTIFIER_RENAME then go deserialize_rename
      else if message_id p = id_word IDENTIFIER_TRUNCATE then go deserialize_truncate
      else Inr None)"

section \<open>The layout of a message\<close>

definition package :: "t_identifier_message \<Rightarrow> bytes \<Rightarrow> t_package" where
  "package m d = \<lparr>message_id = id_word m, pkg_size = of_nat (length d), pkg_data = d\<rparr>"

definition call :: "t_identifier_message \<Rightarrow> bytes list \<Rightarrow> t_function" where
  "call m as = \<lparr>function_id = of_nat (ident m), args = as, arg_count = of_nat (length as)\<rparr>"

definition str_bytes :: "cstr \<Rightarrow> bytes" where
  "str_bytes s = le_enc 2 (of_nat (length s + 1) :: u16) @ s @ [0]"

text \<open>A path short enough for its 16-bit sizes.\<close>

definition path_fits :: "cstr \<Rightarrow> bool" where
  "path_fits s \<longleftrightarrow> length s + 3 < 65536"

lemma ident_word: "id_word m = id_word m' \<longleftrightarrow> m = m'"
  by (cases m; cases m'; simp)

lemma ident_byte: "(ucast (id_word m) :: byte) = of_nat (ident m)"
  by (cases m) simp_all

lemma length_str_bytes [simp]: "length (str_bytes s) = length s + 3"
  by (simp add: str_bytes_def)

lemma string_size [simp]: "path_fits s \<Longrightarrow> unat (string_serialized_size s) = length s + 3"
proof -
  assume "path_fits s"
  then have "unat (of_nat (length s + 3) :: u16) = length s + 3"
    by (intro unat_of_nat_small) (simp add: path_fits_def)
  moreover have "2 + length s + 1 = length s + 3" by simp
  ultimately show ?thesis unfolding string_serialized_size_def by (simp only:)
qed

lemma string_len: "path_fits s \<Longrightarrow> unat (of_nat (length s + 1) :: u16) = length s + 1"
  by (rule unat_of_nat_small) (simp add: path_fits_def)

lemma serialize_string_spec:
  assumes "path_fits s" and "pos + length s + 3 \<le> length buf"
  shows "serialize_string s buf pos = Inr (memput buf pos (str_bytes s))"
proof -
  let ?l = "le_enc 2 (of_nat (length s + 1) :: u16)"
  have "take (unat (of_nat (length s + 1) :: u16)) (s @ [0]) = s @ [0]"
    unfolding string_len [OF assms(1)] by simp
  moreover have "memput (memput buf pos ?l) (pos + length ?l) (s @ [0]) = memput buf pos (?l @ s @ [0])"
    using assms(2) by (intro memput_append) simp
  ultimately show ?thesis
    using assms(2) by (simp add: serialize_string_def Let_def mem_write_in length_memput str_bytes_def
        del: of_nat_add of_nat_Suc)
qed

lemma memget_append: "memget (xs @ ys @ zs) (length xs) (length ys) = ys"
  by (simp add: memget_def)

lemma read_string_spec:
  assumes "path_fits s"
  shows "read_string E t (pre @ str_bytes s @ rest) (length pre) = Inr (s @ [0], length pre + length s + 3)"
proof -
  let ?l = "le_enc 2 (of_nat (length s + 1) :: u16)" and ?d = "pre @ str_bytes s @ rest"
  have l: "memget ?d (length pre) 2 = ?l"
    using memget_append [of pre ?l "(s @ [0]) @ rest"] by (simp add: str_bytes_def)
  have s: "memget ?d (length pre + 2) (length s + 1) = s @ [0]"
    using memget_append [of "pre @ ?l" "s @ [0]" rest] by (simp add: str_bytes_def)
  have "le_dec ?l = (of_nat (length s + 1) :: u16)" by (rule u16le.decode) simp
  then show ?thesis
    unfolding read_string_def using l s string_len [OF assms]
    by (simp add: mem_read_in Let_def del: of_nat_add of_nat_Suc)
qed

section \<open>Delivery\<close>

lemma recv_all: "recv buf (xs @ rest) = (xs, rest)" if "length xs = length buf"
  using that by (simp add: recv_def memput_full)

lemma send_package_spec:
  "length d < 2 ^ 32 \<Longrightarrow> send_package E (package m d) =
     le_enc 8 (id_word m) @ le_enc 4 (of_nat (length d) :: u32) @ d"
proof -
  assume "length d < 2 ^ 32"
  then have "unat (of_nat (length d) :: u32) = length d" by (intro unat_of_nat_small) simp
  then show ?thesis
    by (auto simp: send_package_def send_bytes_def package_def word_gt_0 unat_eq_0 [symmetric])
qed

text \<open>A package comes off the socket as it was put on it.\<close>

lemma receive_sent:
  assumes "send_package E p = w" and "length (pkg_data p) = unat (pkg_size p)"
  shows "receive_package E' t (w @ rest) = (p, rest)"
proof -
  have w: "w = le_enc 8 (message_id p) @ le_enc 4 (pkg_size p) @ pkg_data p"
    using assms by (auto simp: send_package_def send_bytes_def word_gt_0 split: if_splits)
  have i: "recv (map (uninit E' t) [0..<8]) (w @ rest) =
      (le_enc 8 (message_id p), le_enc 4 (pkg_size p) @ pkg_data p @ rest)"
    unfolding w by (simp add: recv_all)
  have n: "recv (map (uninit E' t) [8..<12]) (le_enc 4 (pkg_size p) @ pkg_data p @ rest) =
      (le_enc 4 (pkg_size p), pkg_data p @ rest)"
    by (rule recv_all) simp
  have d: "(if pkg_size p > 0 then recv (malloc E' (Suc t) (unat (pkg_size p))) (pkg_data p @ rest)
      else (malloc E' (Suc t) (unat (pkg_size p)), pkg_data p @ rest)) = (pkg_data p, rest)"
    using assms(2) by (auto simp: recv_all word_gt_0 malloc_def)
  show ?thesis
    unfolding receive_package_def i n d Let_def prod.case u32le.decode [OF TrueI] u64le.decode [OF TrueI]
    using d by simp
qed

text \<open>
  A message of the protocol: a function that builds its package, one that takes it apart,
  its layout \<open>enc\<close>, and the arguments \<open>fields\<close> that the receiver sees. The two ends can differ in
  their environment: \<open>E\<close> is the sender's, \<open>E'\<close> the receiver's. \<open>sent\<close> and \<open>got\<close> say what the
  arguments must satisfy at either end.
\<close>

locale message =
  fixes ser :: "env \<Rightarrow> nat \<Rightarrow> 'a \<Rightarrow> error + t_package"
    and des :: "env \<Rightarrow> nat \<Rightarrow> t_package \<Rightarrow> error + t_function"
    and m :: t_identifier_message
    and enc :: "env \<Rightarrow> 'a \<Rightarrow> bytes"
    and fields :: "env \<Rightarrow> nat \<Rightarrow> 'a \<Rightarrow> bytes list"
    and sent :: "env \<Rightarrow> 'a \<Rightarrow> bool"
    and got :: "env \<Rightarrow> env \<Rightarrow> nat \<Rightarrow> 'a \<Rightarrow> bool"
  assumes ser_eq: "sent E x \<Longrightarrow> ser E t x = Inr (package m (enc E x))"
    and enc_size: "sent E x \<Longrightarrow> length (enc E x) < 2 ^ 32"
    and des_eq: "sent E x \<Longrightarrow> got E E' t x \<Longrightarrow> des E' t (package m (enc E x)) = Inr (call m (fields E' t x))"
    and dispatch: "deserialize E' t (package m d) = bindE (des E' t (package m d)) (\<lambda>fn. Inr (Some fn))"
begin

lemma delivered:
  assumes "sent E x" and "got E E' (Suc t') x"
  shows "\<exists>p w. ser E t x = Inr p \<and> send_package E p = w \<and>
    receive_package E' t' (w @ rest) = (p, rest) \<and>
    deserialize E' (Suc t') p = Inr (Some (call m (fields E' (Suc t') x)))"
proof -
  let ?p = "package m (enc E x)"
  have "unat (of_nat (length (enc E x)) :: u32) = length (enc E x)"
    using enc_size [OF assms(1)] by (intro unat_of_nat_small) simp
  then have len: "length (pkg_data ?p) = unat (pkg_size ?p)" by (simp add: package_def)
  show ?thesis
    using ser_eq [OF assms(1)] receive_sent [OF refl len] dispatch [of E' "Suc t'"] des_eq [OF assms] by auto
qed

end

section \<open>The messages\<close>

lemma str_fields:
  assumes "path_fits s"
  shows "read_string E t (str_bytes s @ rest) 0 = Inr (s @ [0], length s + 3)"
    and "memget (str_bytes s @ rest) (length s + 3) (length rest) = rest"
  using read_string_spec [OF assms, of E t "[]" rest] memget_append [of "str_bytes s" rest "[]"] by simp_all

lemma fill_string:
  assumes "path_fits s" and "n = length s + 3 + length xs"
  shows "bindE (serialize_string s (malloc E t n) 0) (\<lambda>d. bindE (mem_write d (length s + 3) xs) f) =
    f (str_bytes s @ xs)"
proof -
  have "memput (memput (malloc E t n) 0 (str_bytes s)) (length s + 3) xs = str_bytes s @ xs"
    using assms(2) by (subst memput_next) (simp_all add: memput_full)
  then show ?thesis
    using assms by (simp add: serialize_string_spec mem_write_in length_memput)
qed

lemma package_dispatch:
  "message_id (package m d) = id_word m'  \<longleftrightarrow> m = m'"
  "ucast (message_id (package m d)) = (of_nat (ident m) :: byte)"
  "pkg_data (package m d) = d" "pkg_size (package m d) = of_nat (length d)"
  unfolding package_def t_package.simps by (rule ident_word ident_byte refl)+

lemmas apart = call_def package_dispatch str_fields mem_read_in

text \<open>Reading the fields of a layout one by one.\<close>

lemma field: "mem_read E t (pre @ xs @ rest) (length pre) (length xs) = Inr xs"
  by (simp add: mem_read_in memget_append)

lemma field_at:
  assumes "dat = pre @ xs @ rest" and "k = length pre" and "n = length xs"
  shows "mem_read E t dat k n = Inr xs"
  unfolding assms by (rule field)

abbreviation mode_bytes :: "int \<Rightarrow> bytes" where
  "mode_bytes mode \<equiv> le_enc 2 (word_of_int mode :: u16)"

lemma deserialize_open_spec:
  assumes "path_fits path" and "length md = 2"
  shows "deserialize_open E t (package m (str_bytes path @ md)) = Inr (call m [path @ [0], md])"
proof -
  have "mem_read E t (str_bytes path @ md) (length path + 3) 2 = Inr md"
    by (rule field_at [of _ "str_bytes path" _ "[]"]) (simp_all add: assms)
  then show ?thesis
    using assms by (simp add: deserialize_open_def apart)
qed

lemma deserialize_remove_spec:
  assumes "path_fits path"
  shows "deserialize_remove E t (package m (str_bytes path)) = Inr (call m [path @ [0]])"
  using str_fields(1) [OF assms, of E t "[]"] by (simp add: deserialize_remove_def apart)

lemma serialize_path_spec:
  assumes "path_fits path"
  shows "serialize_path E t m path = Inr (package m (str_bytes path))"
proof -
  have "memput (malloc E t (length path + 3)) 0 (str_bytes path) = str_bytes path"
    by (rule memput_full) simp
  then show ?thesis
    using assms by (simp add: serialize_path_def serialize_string_spec package_def)
qed

lemma path_length: "path_fits path \<Longrightarrow> length path < 65533"
  by (simp add: path_fits_def)

lemma serialize_open_spec:
  assumes "path_fits path"
  shows "serialize_open E t path mode = Inr (package IDENTIFIER_OPEN (str_bytes path @ mode_bytes mode))"
    and "serialize_mkdir E t path mode = Inr (package IDENTIFIER_MKDIR (str_bytes path @ mode_bytes mode))"
  using assms by (simp_all add: serialize_open_def serialize_mkdir_def Let_def fill_string package_def)

lemma deserialize_package:
  "deserialize E t (package m d) = (case m of IDENTIFIER_SAC \<Rightarrow> Inr None
   | IDENTIFIER_OPEN \<Rightarrow> bindE (deserialize_open E t (package m d)) (\<lambda>fn. Inr (Some fn))
   | IDENTIFIER_CLOSE \<Rightarrow> bindE (deserialize_close E t (package m d)) (\<lambda>fn. Inr (Some fn))
   | IDENTIFIER_WRITE \<Rightarrow> bindE (deserialize_write E t (package m d)) (\<lambda>fn. Inr (Some fn))
   | IDENTIFIER_READ \<Rightarrow> bindE (deserialize_read E t (package m d)) (\<lambda>fn. Inr (Some fn))
   | IDENTIFIER_REMOVE \<Rightarrow> bindE (deserialize_remove E t (package m d)) (\<lambda>fn. Inr (Some fn))
   | IDENTIFIER_MKDIR \<Rightarrow> bindE (deserialize_mkdir E t (package m d)) (\<lambda>fn. Inr (Some fn))
   | IDENTIFIER_RMDIR \<Rightarrow> bindE (deserialize_rmdir E t (package m d)) (\<lambda>fn. Inr (Some fn))
   | IDENTIFIER_STAT \<Rightarrow> bindE (deserialize_stat E t (package m d)) (\<lambda>fn. Inr (Some fn))
   | IDENTIFIER_READDIR \<Rightarrow> bindE (deserialize_readdir E t (package m d)) (\<lambda>fn. Inr (Some fn))
   | IDENTIFIER_RENAME \<Rightarrow> bindE (deserialize_rename E t (package m d)) (\<lambda>fn. Inr (Some fn))
   | IDENTIFIER_TRUNCATE \<Rightarrow> bindE (deserialize_truncate E t (package m d)) (\<lambda>fn. Inr (Some fn)))"
  by (cases m) (simp_all add: deserialize_def package_def)

interpretation open_msg: message
  "\<lambda>E t (path, mode). serialize_open E t path mode" deserialize_open IDENTIFIER_OPEN
  "\<lambda>E (path, mode). str_bytes path @ mode_bytes mode"
  "\<lambda>E t (path, mode). [path @ [0], mode_bytes mode]"
  "\<lambda>E (path, mode). path_fits path" "\<lambda>E E' t x. True"
  by unfold_locales (auto simp: serialize_open_spec deserialize_open_spec deserialize_package dest: path_length)

interpretation mkdir_msg: message
  "\<lambda>E t (path, mode). serialize_mkdir E t path mode" deserialize_mkdir IDENTIFIER_MKDIR
  "\<lambda>E (path, mode). str_bytes path @ mode_bytes mode"
  "\<lambda>E t (path, mode). [path @ [0], mode_bytes mode]"
  "\<lambda>E (path, mode). path_fits path" "\<lambda>E E' t x. True"
  by unfold_locales
    (auto simp: serialize_open_spec deserialize_mkdir_def deserialize_open_spec deserialize_package dest: path_length)

interpretation remove_msg: message serialize_remove deserialize_remove IDENTIFIER_REMOVE
  "\<lambda>E. str_bytes" "\<lambda>E t path. [path @ [0]]" "\<lambda>E. path_fits" "\<lambda>E E' t x. True"
  by unfold_locales
    (auto simp: serialize_remove_def serialize_path_spec deserialize_remove_spec deserialize_package dest: path_length)

interpretation rmdir_msg: message serialize_rmdir deserialize_rmdir IDENTIFIER_RMDIR
  "\<lambda>E. str_bytes" "\<lambda>E t path. [path @ [0]]" "\<lambda>E. path_fits" "\<lambda>E E' t x. True"
  by unfold_locales
    (auto simp: serialize_rmdir_def serialize_path_spec deserialize_rmdir_def deserialize_remove_spec
      deserialize_package dest: path_length)

interpretation readdir_msg: message serialize_readdir deserialize_readdir IDENTIFIER_READDIR
  "\<lambda>E. str_bytes" "\<lambda>E t path. [path @ [0]]" "\<lambda>E. path_fits" "\<lambda>E E' t x. True"
  by unfold_locales
    (auto simp: serialize_readdir_def serialize_path_spec deserialize_readdir_def deserialize_remove_spec
      deserialize_package dest: path_length)

text \<open>
  The two bytes of a mode that \<open>deserialize_stat\<close> looks for are not in the package: it reads what
  lies after its data.
\<close>

lemma deserialize_stat_spec:
  assumes "path_fits path" and "past_end E t 0 = Some a" and "past_end E t 1 = Some b"
  shows "deserialize_stat E t (package m (str_bytes path)) = Inr (call m [path @ [0], [a, b]])"
proof -
  have "map (past_end E t) [0..<2] = [Some a, Some b]" using assms(2,3) by (simp add: numeral_2_eq_2)
  then have "mem_read E t (str_bytes path) (length path + 3) 2 = Inr [a, b]"
    by (simp add: mem_read_def Let_def memget_def)
  then show ?thesis
    using str_fields(1) [OF assms(1), of E t "[]"] by (simp add: deserialize_stat_def deserialize_open_def apart)
qed

lemma deserialize_stat_faults:
  assumes "path_fits path" and "past_end E t 1 = None"
  shows "deserialize_stat E t (package m (str_bytes path)) = Inl Out_of_bounds"
proof -
  have "mem_read E t (str_bytes path) (length path + 3) 2 = Inl Out_of_bounds"
    using assms(2) by (intro mem_read_past) simp_all
  then show ?thesis
    using str_fields(1) [OF assms(1), of E t "[]"] by (simp add: deserialize_stat_def deserialize_open_def apart)
qed

interpretation stat_msg: message serialize_stat deserialize_stat IDENTIFIER_STAT
  "\<lambda>E. str_bytes" "\<lambda>E t path. [path @ [0], [the (past_end E t 0), the (past_end E t 1)]]"
  "\<lambda>E. path_fits" "\<lambda>E E' t x. past_end E' t 0 \<noteq> None \<and> past_end E' t 1 \<noteq> None"
  by unfold_locales
    (auto simp: serialize_stat_def serialize_path_spec deserialize_stat_spec deserialize_package dest: path_length)

text \<open>Fixed fields, one after the other.\<close>

lemma fill_field:
  assumes "n = length pre + length xs + k"
  shows "mem_write (memput (malloc E t n) 0 pre) (length pre) xs = Inr (memput (malloc E t n) 0 (pre @ xs))"
proof -
  have "length pre + length xs \<le> length (memput (malloc E t n) 0 pre)"
    using assms by (simp add: length_memput)
  then have "mem_write (memput (malloc E t n) 0 pre) (length pre) xs =
      Inr (memput (memput (malloc E t n) 0 pre) (length pre) xs)" by (rule mem_write_in)
  also have "memput (memput (malloc E t n) 0 pre) (length pre) xs = memput (malloc E t n) 0 (pre @ xs)"
    using assms by (intro memput_next) simp_all
  finally show ?thesis .
qed

lemma fill_first: "n = length xs + k \<Longrightarrow> mem_write (malloc E t n) 0 xs = Inr (memput (malloc E t n) 0 xs)"
  by (simp add: mem_write_in)

abbreviation fd_bytes :: "int \<Rightarrow> bytes" where
  "fd_bytes fd \<equiv> le_enc 2 (word_of_int fd :: u16)"

abbreviation count_bytes :: "nat \<Rightarrow> bytes" where
  "count_bytes n \<equiv> le_enc 4 (of_nat n :: u32)"

abbreviation offset_bytes :: "int \<Rightarrow> bytes" where
  "offset_bytes off \<equiv> le_enc 4 (word_of_int off :: u32)"

interpretation close_msg: message serialize_close deserialize_close IDENTIFIER_CLOSE
  "\<lambda>E. fd_bytes" "\<lambda>E t fd. [fd_bytes fd]" "\<lambda>E fd. True" "\<lambda>E E' t x. True"
proof
  show "serialize_close E t fd = Inr (package IDENTIFIER_CLOSE (fd_bytes fd))" for E t fd
    by (simp add: serialize_close_def mem_write_in memput_full package_def)
  show "deserialize_close E' t (package IDENTIFIER_CLOSE (fd_bytes fd)) =
      Inr (call IDENTIFIER_CLOSE [fd_bytes fd])" for E' t fd
    by (simp add: deserialize_close_def apart memget_all)
qed (simp_all add: deserialize_package)

lemma serialize_read_spec:
  "serialize_read E t fd count offset =
     Inr (package IDENTIFIER_READ (fd_bytes fd @ count_bytes count @ offset_bytes offset))"
proof -
  let ?b = "malloc E t 10" and ?f = "fd_bytes fd" and ?c = "count_bytes count" and ?o = "offset_bytes offset"
  have 1: "mem_write ?b 0 ?f = Inr (memput ?b 0 ?f)" by (rule fill_first [of _ _ 8]) simp
  have 2: "mem_write (memput ?b 0 ?f) 2 ?c = Inr (memput ?b 0 (?f @ ?c))"
    using fill_field [of 10 ?f ?c 4 E t] by simp
  have 3: "mem_write (memput ?b 0 (?f @ ?c)) 6 ?o = Inr (memput ?b 0 (?f @ ?c @ ?o))"
    using fill_field [of 10 "?f @ ?c" ?o 0 E t] by simp
  have 4: "memput ?b 0 (?f @ ?c @ ?o) = ?f @ ?c @ ?o" by (rule memput_full) simp
  show ?thesis unfolding serialize_read_def Let_def 1 2 3 4 bindE.simps by (simp add: package_def)
qed

lemma deserialize_read_spec:
  "deserialize_read E t (package m (fd_bytes fd @ count_bytes count @ offset_bytes offset)) =
     Inr (call m [fd_bytes fd, count_bytes count, offset_bytes offset])"
proof -
  let ?f = "fd_bytes fd" and ?c = "count_bytes count" and ?o = "offset_bytes offset"
  have 1: "mem_read E t (?f @ ?c @ ?o) 0 2 = Inr ?f" by (rule field_at [of _ "[]"]) simp_all
  have 2: "mem_read E t (?f @ ?c @ ?o) 2 4 = Inr ?c" by (rule field_at [of _ ?f]) simp_all
  have 3: "mem_read E t (?f @ ?c @ ?o) 6 4 = Inr ?o" by (rule field_at [of _ "?f @ ?c" _ "[]"]) simp_all
  show ?thesis unfolding deserialize_read_def package_dispatch 1 2 3 bindE.simps by (simp add: call_def)
qed

interpretation read_msg: message
  "\<lambda>E t (fd, count, offset). serialize_read E t fd count offset" deserialize_read IDENTIFIER_READ
  "\<lambda>E (fd, count, offset). fd_bytes fd @ count_bytes count @ offset_bytes offset"
  "\<lambda>E t (fd, count, offset). [fd_bytes fd, count_bytes count, offset_bytes offset]"
  "\<lambda>E x. True" "\<lambda>E E' t x. True"
  by unfold_locales (auto simp: serialize_read_spec deserialize_read_spec deserialize_package)

text \<open>
  \<open>serialize_write\<close> lays its fields out as the receiver expects them where a \<open>size_t\<close> has 4 bytes;
  where it has 8, its last copy writes past the end of the data.
\<close>

lemma write_size: "count + 10 < 2 ^ 32 \<Longrightarrow> unat (of_nat count :: u32) = count"
  "count + 10 < 2 ^ 32 \<Longrightarrow> unat (2 + 4 + of_nat count + 4 :: u32) = count + 10"
proof -
  assume a: "count + 10 < 2 ^ 32"
  then show "unat (of_nat count :: u32) = count" by (intro unat_of_nat_small) simp
  have "unat (of_nat (count + 10) :: u32) = count + 10" using a by (intro unat_of_nat_small) simp
  moreover have "(2 + 4 + of_nat count + 4 :: u32) = of_nat (count + 10)" by simp
  ultimately show "unat (2 + 4 + of_nat count + 4 :: u32) = count + 10" by (simp only:)
qed

lemma serialize_write_spec:
  assumes "sizeof_size_t E = 4" and "count \<le> length buffer" and "count + 10 < 2 ^ 32"
  shows "serialize_write E t fd buffer count offset =
     Inr (package IDENTIFIER_WRITE (fd_bytes fd @ count_bytes count @ take count buffer @ offset_bytes offset))"
proof -
  let ?b = "malloc E t (count + 10)" and ?f = "fd_bytes fd" and ?c = "count_bytes count"
    and ?d = "take count buffer" and ?o = "offset_bytes offset"
  have 1: "mem_write ?b 0 ?f = Inr (memput ?b 0 ?f)" by (rule fill_first [of _ _ "count + 8"]) simp
  have 2: "mem_write (memput ?b 0 ?f) 2 ?c = Inr (memput ?b 0 (?f @ ?c))"
    using fill_field [of "count + 10" ?f ?c "count + 4" E t] by simp
  have 3: "mem_write (memput ?b 0 (?f @ ?c)) (2 + 4) ?d = Inr (memput ?b 0 (?f @ ?c @ ?d))"
    using fill_field [of "count + 10" "?f @ ?c" ?d 4 E t] assms(2) by simp
  have 4: "mem_write (memput ?b 0 (?f @ ?c @ ?d)) (2 + 4 + count) ?o = Inr (memput ?b 0 (?f @ ?c @ ?d @ ?o))"
    using fill_field [of "count + 10" "?f @ ?c @ ?d" ?o 0 E t] assms(2) by simp
  have 5: "memput ?b 0 (?f @ ?c @ ?d @ ?o) = ?f @ ?c @ ?d @ ?o"
    using assms(2) by (intro memput_full) simp
  have 6: "\<not> length buffer < count" using assms(2) by simp
  show ?thesis
    unfolding serialize_write_def Let_def write_size [OF assms(3)] assms(1) 1 2 3 4 5 bindE.simps if_not_P [OF 6]
    using assms(2) by (simp add: package_def)
qed

lemma serialize_write_lp64:
  assumes "sizeof_size_t E = 8" and "count \<le> length buffer" and "count + 10 < 2 ^ 32"
  shows "serialize_write E t fd buffer count offset = Inl Overrun"
proof -
  let ?b = "malloc E t (count + 10)" and ?f = "fd_bytes fd" and ?c = "count_bytes count"
    and ?d = "take count buffer"
  have 1: "mem_write ?b 0 ?f = Inr (memput ?b 0 ?f)" by (rule fill_first [of _ _ "count + 8"]) simp
  have 2: "mem_write (memput ?b 0 ?f) 2 ?c = Inr (memput ?b 0 (?f @ ?c))"
    using fill_field [of "count + 10" ?f ?c "count + 4" E t] by simp
  let ?b2 = "memput ?b 0 (?f @ ?c)"
  have l: "length ?b2 = count + 10" by (simp add: length_memput)
  have 3: "mem_write ?b2 (2 + 8) ?d = Inr (memput ?b2 10 ?d)"
    using mem_write_in [of 10 ?d ?b2] l assms(2) by simp
  have "length (memput ?b2 10 ?d) = count + 10" using l assms(2) by (simp add: length_memput)
  then have 4: "mem_write (memput ?b2 10 ?d) (2 + 8 + count) (offset_bytes offset) = Inl Overrun"
    by (intro mem_write_out) simp
  have 6: "\<not> length buffer < count" using assms(2) by simp
  show ?thesis
    unfolding serialize_write_def Let_def write_size [OF assms(3)] assms(1) 1 2 3 4 bindE.simps if_not_P [OF 6] ..
qed

lemma deserialize_write_spec:
  assumes "length buffer = count" and "count + 10 < 2 ^ 32"
  shows "deserialize_write E t (package m (fd_bytes fd @ count_bytes count @ buffer @ offset_bytes offset)) =
     Inr (call m [fd_bytes fd, buffer, count_bytes count, offset_bytes offset])"
proof -
  let ?f = "fd_bytes fd" and ?c = "count_bytes count" and ?o = "offset_bytes offset"
  let ?d = "?f @ ?c @ buffer @ ?o"
  have 1: "mem_read E t ?d 0 2 = Inr ?f" by (rule field_at [of _ "[]"]) simp_all
  have 2: "mem_read E t ?d 2 4 = Inr ?c" by (rule field_at [of _ ?f]) simp_all
  have 3: "mem_read E t ?d 6 count = Inr buffer"
    by (rule field_at [of _ "?f @ ?c"]) (simp_all add: assms)
  have 4: "mem_read E t ?d (6 + count) 4 = Inr ?o"
    by (rule field_at [of _ "?f @ ?c @ buffer" _ "[]"]) (simp_all add: assms)
  have c: "unat (le_dec ?c :: u32) = count"
    unfolding u32le.decode [OF TrueI] by (rule write_size(1) [OF assms(2)])
  show ?thesis
    unfolding deserialize_write_def package_dispatch 1 2 bindE.simps c Let_def 3 4 by (simp add: call_def)
qed

interpretation write_msg: message
  "\<lambda>E t (fd, buffer, count, offset). serialize_write E t fd buffer count offset" deserialize_write
  IDENTIFIER_WRITE
  "\<lambda>E (fd, buffer, count, offset). fd_bytes fd @ count_bytes count @ take count buffer @ offset_bytes offset"
  "\<lambda>E t (fd, buffer, count, offset). [fd_bytes fd, take count buffer, count_bytes count, offset_bytes offset]"
  "\<lambda>E (fd, buffer, count, offset). sizeof_size_t E = 4 \<and> count \<le> length buffer \<and> count + 10 < 2 ^ 32"
  "\<lambda>E E' t x. True"
  by unfold_locales (auto simp: serialize_write_spec deserialize_write_spec deserialize_package)

lemma serialize_rename_spec:
  assumes "path_fits old" and "path_fits new"
  shows "serialize_rename E t old new = Inr (package IDENTIFIER_RENAME (str_bytes old @ str_bytes new))"
proof -
  let ?n = "length old + 3 + (length new + 3)"
  let ?b = "memput (malloc E t ?n) 0 (str_bytes old)"
  have 1: "serialize_string old (malloc E t ?n) 0 = Inr ?b"
    using assms(1) by (simp add: serialize_string_spec)
  have "serialize_string new ?b (length old + 3) = Inr (memput ?b (length old + 3) (str_bytes new))"
    using assms(2) by (intro serialize_string_spec) (simp_all add: length_memput)
  also have "memput ?b (length old + 3) (str_bytes new) = memput (malloc E t ?n) 0 (str_bytes old @ str_bytes new)"
    by (rule memput_next) simp_all
  also have "\<dots> = str_bytes old @ str_bytes new" by (rule memput_full) simp
  finally have 2: "serialize_string new ?b (length old + 3) = Inr (str_bytes old @ str_bytes new)" .
  show ?thesis
    unfolding serialize_rename_def Let_def string_size [OF assms(1)] string_size [OF assms(2)] 1 2 bindE.simps
    by (simp add: package_def)
qed

lemma deserialize_rename_spec:
  assumes "path_fits old" and "path_fits new"
  shows "deserialize_rename E t (package m (str_bytes old @ str_bytes new)) =
    Inr (call m [old @ [0], new @ [0]])"
  using str_fields(1) [OF assms(1), of E t "str_bytes new"] read_string_spec [OF assms(2), of E t "str_bytes old" "[]"]
  by (simp add: deserialize_rename_def package_dispatch call_def)

interpretation rename_msg: message
  "\<lambda>E t (old, new). serialize_rename E t old new" deserialize_rename IDENTIFIER_RENAME
  "\<lambda>E (old, new). str_bytes old @ str_bytes new" "\<lambda>E t (old, new). [old @ [0], new @ [0]]"
  "\<lambda>E (old, new). path_fits old \<and> path_fits new" "\<lambda>E E' t x. True"
proof (unfold_locales, goal_cases)
  case (2 E x)
  then show ?case using path_length [of "fst x"] path_length [of "snd x"] by (auto split: prod.splits)
qed (auto simp: serialize_rename_spec deserialize_rename_spec deserialize_package)

text \<open>
  The length of \<open>serialize_truncate\<close> travels in the sender's \<open>off_t\<close>. The client is built with a 64-bit
  one and the server is not: the receiver then takes its low bytes.
\<close>

abbreviation off_bytes :: "nat \<Rightarrow> int \<Rightarrow> bytes" where
  "off_bytes k len \<equiv> le_enc k (word_of_int len :: u64)"

lemma le_enc_prefix: "k \<le> n \<Longrightarrow> \<exists>r. le_enc n w = le_enc k w @ r"
proof (induction n arbitrary: k w)
  case (Suc n)
  then show ?case by (cases k) auto
qed simp

lemma serialize_truncate_spec:
  assumes "path_fits path"
  shows "serialize_truncate E t path len =
    Inr (package IDENTIFIER_TRUNCATE (str_bytes path @ off_bytes (sizeof_off_t E) len))"
  using assms by (simp add: serialize_truncate_def Let_def fill_string package_def)

lemma deserialize_truncate_spec:
  assumes "path_fits path" and "sizeof_off_t E' \<le> n"
  shows "deserialize_truncate E' t (package m (str_bytes path @ off_bytes n len)) =
    Inr (call m [path @ [0], off_bytes (sizeof_off_t E') len])"
proof -
  obtain r where r: "off_bytes n len = off_bytes (sizeof_off_t E') len @ r"
    using le_enc_prefix [OF assms(2)] by blast
  have "mem_read E' t (str_bytes path @ off_bytes n len) (length path + 3) (sizeof_off_t E') =
      Inr (off_bytes (sizeof_off_t E') len)"
    unfolding r by (rule field_at [of _ "str_bytes path"]) simp_all
  then show ?thesis
    using str_fields(1) [OF assms(1), of E' t "off_bytes n len"]
    by (simp add: deserialize_truncate_def package_dispatch call_def)
qed

interpretation truncate_msg: message
  "\<lambda>E t (path, len). serialize_truncate E t path len" deserialize_truncate IDENTIFIER_TRUNCATE
  "\<lambda>E (path, len). str_bytes path @ off_bytes (sizeof_off_t E) len"
  "\<lambda>E t (path, len). [path @ [0], off_bytes (sizeof_off_t E) len]"
  "\<lambda>E (path, len). path_fits path \<and> sizeof_off_t E \<le> 8"
  "\<lambda>E E' t x. sizeof_off_t E' \<le> sizeof_off_t E"
proof (unfold_locales, goal_cases)
  case (2 E x)
  then show ?case using path_length [of "fst x"] by (auto split: prod.splits)
qed (auto simp: serialize_truncate_spec deserialize_truncate_spec deserialize_package)

section \<open>All of them\<close>

text \<open>A request with its arguments, the package made of it, and the function that it stands for.\<close>

datatype request =
    Open_req cstr int
  | Close_req int
  | Write_req int bytes nat int
  | Read_req int nat int
  | Remove_req cstr
  | Mkdir_req cstr int
  | Rmdir_req cstr
  | Stat_req cstr
  | Readdir_req cstr
  | Rename_req cstr cstr
  | Truncate_req cstr int

fun packed :: "env \<Rightarrow> nat \<Rightarrow> request \<Rightarrow> error + t_package" where
  "packed E t (Open_req path mode) = serialize_open E t path mode"
| "packed E t (Close_req fd) = serialize_close E t fd"
| "packed E t (Write_req fd buffer count offset) = serialize_write E t fd buffer count offset"
| "packed E t (Read_req fd count offset) = serialize_read E t fd count offset"
| "packed E t (Remove_req path) = serialize_remove E t path"
| "packed E t (Mkdir_req path mode) = serialize_mkdir E t path mode"
| "packed E t (Rmdir_req path) = serialize_rmdir E t path"
| "packed E t (Stat_req path) = serialize_stat E t path"
| "packed E t (Readdir_req path) = serialize_readdir E t path"
| "packed E t (Rename_req old new) = serialize_rename E t old new"
| "packed E t (Truncate_req path len) = serialize_truncate E t path len"

text \<open>
  The function that the server makes of it: each path with its NUL, each integer in its bytes. The
  two bytes of mode of a stat message are those past its end.
\<close>

fun requested :: "env \<Rightarrow> nat \<Rightarrow> request \<Rightarrow> t_function" where
  "requested E t (Open_req path mode) = call IDENTIFIER_OPEN [path @ [0], mode_bytes mode]"
| "requested E t (Close_req fd) = call IDENTIFIER_CLOSE [fd_bytes fd]"
| "requested E t (Write_req fd buffer count offset) =
     call IDENTIFIER_WRITE [fd_bytes fd, take count buffer, count_bytes count, offset_bytes offset]"
| "requested E t (Read_req fd count offset) =
     call IDENTIFIER_READ [fd_bytes fd, count_bytes count, offset_bytes offset]"
| "requested E t (Remove_req path) = call IDENTIFIER_REMOVE [path @ [0]]"
| "requested E t (Mkdir_req path mode) = call IDENTIFIER_MKDIR [path @ [0], mode_bytes mode]"
| "requested E t (Rmdir_req path) = call IDENTIFIER_RMDIR [path @ [0]]"
| "requested E t (Stat_req path) =
     call IDENTIFIER_STAT [path @ [0], [the (past_end E t 0), the (past_end E t 1)]]"
| "requested E t (Readdir_req path) = call IDENTIFIER_READDIR [path @ [0]]"
| "requested E t (Rename_req old new) = call IDENTIFIER_RENAME [old @ [0], new @ [0]]"
| "requested E t (Truncate_req path len) =
     call IDENTIFIER_TRUNCATE [path @ [0], off_bytes (sizeof_off_t E) len]"

text \<open>What can be sent, and what the other end can take apart.\<close>

fun sendable :: "env \<Rightarrow> request \<Rightarrow> bool" where
  "sendable E (Open_req path mode) \<longleftrightarrow> is_cstr path \<and> path_fits path"
| "sendable E (Close_req fd) \<longleftrightarrow> True"
| "sendable E (Write_req fd buffer count offset) \<longleftrightarrow>
     sizeof_size_t E = 4 \<and> count \<le> length buffer \<and> count + 10 < 2 ^ 32"
| "sendable E (Read_req fd count offset) \<longleftrightarrow> True"
| "sendable E (Remove_req path) \<longleftrightarrow> is_cstr path \<and> path_fits path"
| "sendable E (Mkdir_req path mode) \<longleftrightarrow> is_cstr path \<and> path_fits path"
| "sendable E (Rmdir_req path) \<longleftrightarrow> is_cstr path \<and> path_fits path"
| "sendable E (Stat_req path) \<longleftrightarrow> is_cstr path \<and> path_fits path"
| "sendable E (Readdir_req path) \<longleftrightarrow> is_cstr path \<and> path_fits path"
| "sendable E (Rename_req old new) \<longleftrightarrow>
     is_cstr old \<and> path_fits old \<and> is_cstr new \<and> path_fits new"
| "sendable E (Truncate_req path len) \<longleftrightarrow> is_cstr path \<and> path_fits path \<and> sizeof_off_t E \<le> 8"

fun readable_at :: "env \<Rightarrow> env \<Rightarrow> nat \<Rightarrow> request \<Rightarrow> bool" where
  "readable_at E E' t (Stat_req path) \<longleftrightarrow> past_end E' t 0 \<noteq> None \<and> past_end E' t 1 \<noteq> None"
| "readable_at E E' t (Truncate_req path len) \<longleftrightarrow>
     0 < sizeof_off_t E' \<and> sizeof_off_t E' \<le> sizeof_off_t E"
| "readable_at E E' t r \<longleftrightarrow> True"

lemma delivered_all:
  assumes "sendable E r" and "readable_at E E' (Suc t') r"
  shows "\<exists>p w. packed E t r = Inr p \<and> send_package E p = w \<and> receive_package E' t' (w @ rest) = (p, rest) \<and>
    deserialize E' (Suc t') p = Inr (Some (requested E' (Suc t') r))"
  using assms
proof (cases r)
  case (Open_req path mode)
  with assms show ?thesis
    using open_msg.delivered [where E = E and x = "(path, mode)" and E' = E' and t' = t' and t = t and rest = rest] by simp
next
  case (Close_req fd)
  with assms show ?thesis
    using close_msg.delivered [where E = E and x = fd and E' = E' and t' = t' and t = t and rest = rest] by simp
next
  case (Write_req fd buffer count offset)
  with assms show ?thesis
    using write_msg.delivered [where E = E and x = "(fd, buffer, count, offset)" and E' = E' and t' = t' and t = t
        and rest = rest] by simp
next
  case (Read_req fd count offset)
  with assms show ?thesis
    using read_msg.delivered [where E = E and x = "(fd, count, offset)" and E' = E' and t' = t' and t = t
        and rest = rest] by simp
next
  case (Remove_req path)
  with assms show ?thesis
    using remove_msg.delivered [where E = E and x = path and E' = E' and t' = t' and t = t and rest = rest] by simp
next
  case (Mkdir_req path mode)
  with assms show ?thesis
    using mkdir_msg.delivered [where E = E and x = "(path, mode)" and E' = E' and t' = t' and t = t and rest = rest] by simp
next
  case (Rmdir_req path)
  with assms show ?thesis
    using rmdir_msg.delivered [where E = E and x = path and E' = E' and t' = t' and t = t and rest = rest] by simp
next
  case (Stat_req path)
  with assms show ?thesis
    using stat_msg.delivered [where E = E and x = path and E' = E' and t' = t' and t = t and rest = rest] by simp
next
  case (Readdir_req path)
  with assms show ?thesis
    using readdir_msg.delivered [where E = E and x = path and E' = E' and t' = t' and t = t and rest = rest] by simp
next
  case (Rename_req old new)
  with assms show ?thesis
    using rename_msg.delivered [where E = E and x = "(old, new)" and E' = E' and t' = t' and t = t and rest = rest] by simp
next
  case (Truncate_req path len)
  with assms show ?thesis
    using truncate_msg.delivered [where E = E and x = "(path, len)" and E' = E' and t' = t' and t = t and rest = rest]
    by simp
qed

end
