(* ===== verification/Fs_Sac.thy ===== *)
theory Fs_Sac
  imports Sacio Serialization
begin

text \<open>
  \<open>fs_sac.c\<close>: the operations of the file system as the server calls them; each packs its
  result into a response package.
\<close>

definition create_default_package :: "int \<Rightarrow> t_package" where
  "create_default_package i = \<lparr>message_id = word_of_int i, pkg_size = 0, pkg_data = []\<rparr>"

definition status_response :: "error + (int \<times> fs) \<Rightarrow> error + (t_package \<times> fs)" where
  "status_response r = bindE r (\<lambda>(status, s). Inr (create_default_package status, s))"

definition sac_open_response :: "env \<Rightarrow> cstr \<Rightarrow> int \<Rightarrow> fs \<Rightarrow> error + (t_package \<times> fs)" where
  "sac_open_response E path mode s = status_response (sac_open E path mode s)"

definition sac_close_response :: "int \<Rightarrow> fs \<Rightarrow> error + (t_package \<times> fs)" where
  "sac_close_response fd s = Inr (create_default_package (sac_close fd), s)"

definition sac_write_response :: "env \<Rightarrow> int \<Rightarrow> bytes \<Rightarrow> nat \<Rightarrow> int \<Rightarrow> fs \<Rightarrow> error + (t_package \<times> fs)" where
  "sac_write_response E fd buffer count offset s = status_response (sac_write E fd buffer count offset s)"

text \<open>
  The result of \<open>sac_read\<close> goes through an unsigned \<open>size_t\<close>, and the field it is compared with 0
  in is unsigned too: a failure is answered with message 0 and \<open>count\<close> bytes of the data, which
  nothing has been read into.
\<close>

definition sac_read_response :: "env \<Rightarrow> int \<Rightarrow> nat \<Rightarrow> int \<Rightarrow> fs \<Rightarrow> error + (t_package \<times> fs)" where
  "sac_read_response E fd count offset s =
     (let dat = malloc E (tick s) count; s = s\<lparr>tick := Suc (tick s)\<rparr>
      in bindE (sac_read E fd count offset s) (\<lambda>(r, bs, s).
         let sizeRead = nat (r mod 2 ^ (8 * sizeof_size_t E));
             sz = of_nat (if count > sizeRead then sizeRead else count) :: u32
         in Inr (\<lparr>message_id = (if sz < 0 then - 1 else 0), pkg_size = sz, pkg_data = memput dat 0 bs\<rparr>, s)))"

definition sac_remove_response :: "env \<Rightarrow> cstr \<Rightarrow> fs \<Rightarrow> error + (t_package \<times> fs)" where
  "sac_remove_response E path s = status_response (sac_remove E path s)"

definition sac_mkdir_response :: "env \<Rightarrow> cstr \<Rightarrow> u32 \<Rightarrow> fs \<Rightarrow> error + (t_package \<times> fs)" where
  "sac_mkdir_response E path mode s = status_response (sac_mkdir E path mode s)"

definition sac_rmdir_response :: "env \<Rightarrow> t_dir_entry list_ops \<Rightarrow> cstr \<Rightarrow> fs \<Rightarrow> (error + (t_package \<times> fs)) option" where
  "sac_rmdir_response E L path s = map_option status_response (sac_rmdir E L path s)"

text \<open>The attributes of a file as 24 bytes.\<close>

definition S_ISDIR :: "u32 \<Rightarrow> bool" where
  "S_ISDIR mode \<longleftrightarrow> and mode 0xF000 = S_IFDIR"

definition stat_bytes :: "stat_buf \<Rightarrow> bytes" where
  "stat_bytes b =
     le_enc 2 (if S_ISDIR (st_mode b) then 2 else 1 :: u16) @ le_enc 2 (ucast (st_ino b) :: u16) @
     le_enc 4 (st_size b) @ le_enc 8 (st_mtime b) @ le_enc 8 (st_ctime b)"

definition sac_stat_response :: "env \<Rightarrow> cstr \<Rightarrow> fs \<Rightarrow> error + (t_package \<times> fs)" where
  "sac_stat_response E path s =
     bindE (sac_stat E path s) (\<lambda>(status, stbuf, s).
     let pkg = create_default_package status
     in if status \<ge> 0
        then case stbuf of
            None \<Rightarrow> Inl Out_of_bounds
          | Some b \<Rightarrow> Inr (pkg\<lparr>pkg_size := 24, pkg_data := stat_bytes b\<rparr>, s)
        else Inr (pkg, s))"

text \<open>One entry more at the end of the data. The sizes add up in 32 bits.\<close>

definition append_entry :: "env \<Rightarrow> nat \<Rightarrow> t_package \<Rightarrow> cstr \<Rightarrow> error + t_package" where
  "append_entry E t pkg d_name =
     (let prev_size = unat (pkg_size pkg);
          sz = pkg_size pkg + ucast (string_serialized_size d_name)
      in bindE (mem_write (malloc E t (unat sz)) 0 (take prev_size (pkg_data pkg))) (\<lambda>d.
         bindE (serialize_string d_name d prev_size) (\<lambda>d.
         Inr (pkg\<lparr>pkg_size := sz, pkg_data := d\<rparr>))))"

text \<open>\<open>None\<close> in the list is a place of the array that was never set.\<close>

fun append_entries :: "env \<Rightarrow> nat \<Rightarrow> t_package \<Rightarrow> cstr option list \<Rightarrow> error + t_package" where
  "append_entries E t pkg [] = Inr pkg"
| "append_entries E t pkg (None # es) = Inl Out_of_bounds"
| "append_entries E t pkg (Some d_name # es) =
     bindE (append_entry E t pkg d_name) (\<lambda>pkg. append_entries E t pkg es)"

definition sac_readdir_response :: "env \<Rightarrow> cstr \<Rightarrow> fs \<Rightarrow> error + (t_package \<times> fs)" where
  "sac_readdir_response E path s =
     (let pkg = create_default_package 0
      in bindE (sac_readdir E path s) (\<lambda>(entries, s).
         case entries of
           None \<Rightarrow> Inr (pkg\<lparr>message_id := - 1\<rparr>, s)
         | Some es \<Rightarrow> bindE (append_entries E (tick s) pkg es) (\<lambda>pkg. Inr (pkg, s))))"

definition sac_rename_response :: "env \<Rightarrow> cstr \<Rightarrow> cstr \<Rightarrow> fs \<Rightarrow> error + (t_package \<times> fs)" where
  "sac_rename_response E old_path new_path s = status_response (sac_rename E old_path new_path s)"

definition sac_truncate_response :: "env \<Rightarrow> cstr \<Rightarrow> int \<Rightarrow> fs \<Rightarrow> error + (t_package \<times> fs)" where
  "sac_truncate_response E path len s = status_response (sac_truncate E path len s)"

section \<open>Listings\<close>

text \<open>What the data of a listing is: its names, each with its length.\<close>

definition names_bytes :: "cstr list \<Rightarrow> bytes" where
  "names_bytes ns = concat (map str_bytes ns)"

lemma append_entry_spec:
  assumes "path_fits nm" and "length d + length nm + 3 < 2 ^ 32" and "pkg_data p = d"
    and "pkg_size p = of_nat (length d)"
  shows "append_entry E t p nm = Inr (p\<lparr>pkg_size := of_nat (length (d @ str_bytes nm)), pkg_data := d @ str_bytes nm\<rparr>)"
proof -
  let ?n = "length d + (length nm + 3)"
  have d: "unat (pkg_size p) = length d" unfolding assms(4) using assms(2) by (intro unat_of_nat_small) simp
  have sz: "pkg_size p + ucast (string_serialized_size nm) = of_nat ?n"
  proof -
    have "(ucast (string_serialized_size nm) :: u32) = of_nat (unat (string_serialized_size nm))" by simp
    then show ?thesis unfolding assms(4) string_size [OF assms(1)] by simp
  qed
  have n: "unat (of_nat ?n :: u32) = ?n" using assms(2) by (intro unat_of_nat_small) simp
  have w: "mem_write (malloc E t ?n) 0 d = Inr (memput (malloc E t ?n) 0 d)" by (rule fill_first) simp
  have l: "length (memput (malloc E t ?n) 0 d) = ?n" by (simp add: length_memput)
  have "serialize_string nm (memput (malloc E t ?n) 0 d) (length d) =
      Inr (memput (memput (malloc E t ?n) 0 d) (length d) (str_bytes nm))"
    using l assms(1) by (intro serialize_string_spec) simp_all
  also have "memput (memput (malloc E t ?n) 0 d) (length d) (str_bytes nm) = memput (malloc E t ?n) 0 (d @ str_bytes nm)"
    by (rule memput_next) simp_all
  also have "\<dots> = d @ str_bytes nm" by (rule memput_full) simp
  finally have s: "serialize_string nm (memput (malloc E t ?n) 0 d) (length d) = Inr (d @ str_bytes nm)" .
  have tk: "take (length d) (pkg_data p) = d" by (simp add: assms(3))
  show ?thesis
    unfolding append_entry_def d sz n Let_def tk w s bindE.simps by simp
qed

lemma append_entries_spec:
  assumes "\<forall>nm \<in> set ns. path_fits nm" and "length d + length (names_bytes ns) < 2 ^ 32"
    and "p = \<lparr>message_id = i, pkg_size = of_nat (length d), pkg_data = d\<rparr>"
  shows "append_entries E t p (map Some ns) =
    Inr \<lparr>message_id = i, pkg_size = of_nat (length (d @ names_bytes ns)), pkg_data = d @ names_bytes ns\<rparr>"
  using assms
proof (induction ns arbitrary: d p)
  case (Cons nm ns)
  have "append_entry E t p nm = Inr \<lparr>message_id = i, pkg_size = of_nat (length (d @ str_bytes nm)), pkg_data = d @ str_bytes nm\<rparr>"
    using append_entry_spec [of nm d p E t] Cons.prems by (simp add: names_bytes_def)
  then show ?case
    using Cons.IH [of "d @ str_bytes nm"] Cons.prems by (simp add: names_bytes_def)
qed (simp add: names_bytes_def)

end
