(* ===== verification/Fs_Local.thy ===== *)
theory Fs_Local
  imports Fs_Sac
begin

text \<open>
  \<open>fs_local.c\<close>: the same operations on a directory of the host. The system calls are an
  argument: a record of functions on a state \<open>'h\<close> of the host.
\<close>

section \<open>The host\<close>

text \<open>
  What \<open>stat\<close> fills, and the calls. A status is what the call returns (-1 on failure).
  \<open>host_write\<close> and \<open>host_read\<close> include the \<open>lseek\<close> before them; \<open>host_read\<close> also gives the bytes read;
  \<open>host_readdir\<close> is \<open>opendir\<close>, the \<open>readdir\<close> calls up to the first \<open>NULL\<close>, and \<open>closedir\<close>: \<open>None\<close> when
  \<open>opendir\<close> fails.
\<close>

record host_stat =
  hs_mode :: u32
  hs_ino :: nat
  hs_size :: int
  hs_mtime :: int
  hs_ctime :: int

record 'h host =
  host_open :: "cstr \<Rightarrow> int \<Rightarrow> 'h \<Rightarrow> int \<times> 'h"
  host_close :: "int \<Rightarrow> 'h \<Rightarrow> int \<times> 'h"
  host_write :: "int \<Rightarrow> bytes \<Rightarrow> int \<Rightarrow> 'h \<Rightarrow> int \<times> 'h"
  host_read :: "int \<Rightarrow> nat \<Rightarrow> int \<Rightarrow> 'h \<Rightarrow> int \<times> bytes \<times> 'h"
  host_remove :: "cstr \<Rightarrow> 'h \<Rightarrow> int \<times> 'h"
  host_mkdir :: "cstr \<Rightarrow> 'h \<Rightarrow> int \<times> 'h"
  host_rmdir :: "cstr \<Rightarrow> 'h \<Rightarrow> int \<times> 'h"
  host_stat_of :: "cstr \<Rightarrow> 'h \<Rightarrow> int \<times> host_stat \<times> 'h"
  host_readdir :: "cstr \<Rightarrow> 'h \<Rightarrow> cstr list option \<times> 'h"
  host_rename :: "cstr \<Rightarrow> cstr \<Rightarrow> 'h \<Rightarrow> int \<times> 'h"
  host_truncate :: "cstr \<Rightarrow> int \<Rightarrow> 'h \<Rightarrow> int \<times> 'h"

definition BASE_PATH :: cstr where
  "BASE_PATH = lit ''/home/utnso/sac-root''"

definition real_file_path :: "env \<Rightarrow> cstr \<Rightarrow> cstr" where
  "real_file_path E path_to_add = string_from_format E (lit ''%s%s'') BASE_PATH path_to_add"

section \<open>Operations\<close>

definition local_status :: "int \<times> 'h \<Rightarrow> error + (t_package \<times> 'h)" where
  "local_status r = Inr (create_default_package (fst r), snd r)"

definition local_open :: "env \<Rightarrow> 'h host \<Rightarrow> cstr \<Rightarrow> int \<Rightarrow> 'h \<Rightarrow> error + (t_package \<times> 'h)" where
  "local_open E H path mode h = local_status (host_open H (real_file_path E path) mode h)"

definition local_close :: "'h host \<Rightarrow> int \<Rightarrow> 'h \<Rightarrow> error + (t_package \<times> 'h)" where
  "local_close H fd h = local_status (host_close H fd h)"

definition local_write :: "'h host \<Rightarrow> int \<Rightarrow> bytes \<Rightarrow> nat \<Rightarrow> int \<Rightarrow> 'h \<Rightarrow> error + (t_package \<times> 'h)" where
  "local_write H fd buffer bytes_to_write offset h =
     (if length buffer < bytes_to_write then Inl Out_of_bounds
      else local_status (host_write H fd (take bytes_to_write buffer) offset h))"

text \<open>A failed \<open>read\<close> gives a size of \<open>2 ^ 32 - 1\<close>, which is not negative: the answer is message 0.\<close>

definition local_read :: "env \<Rightarrow> nat \<Rightarrow> 'h host \<Rightarrow> int \<Rightarrow> nat \<Rightarrow> int \<Rightarrow> 'h \<Rightarrow> error + (t_package \<times> 'h)" where
  "local_read E t H fd bytes_to_read offset h =
     (let dat = malloc E t bytes_to_read;
          (r, bs, h) = host_read H fd bytes_to_read offset h;
          sz = word_of_int r :: u32
      in Inr (\<lparr>message_id = (if sz < 0 then - 1 else 0), pkg_size = sz, pkg_data = memput dat 0 bs\<rparr>, h))"

definition local_remove :: "env \<Rightarrow> 'h host \<Rightarrow> cstr \<Rightarrow> 'h \<Rightarrow> error + (t_package \<times> 'h)" where
  "local_remove E H path h = local_status (host_remove H (real_file_path E path) h)"

definition local_mkdir :: "env \<Rightarrow> 'h host \<Rightarrow> cstr \<Rightarrow> 'h \<Rightarrow> error + (t_package \<times> 'h)" where
  "local_mkdir E H path h = local_status (host_mkdir H (real_file_path E path) h)"

definition local_rmdir :: "env \<Rightarrow> 'h host \<Rightarrow> cstr \<Rightarrow> 'h \<Rightarrow> error + (t_package \<times> 'h)" where
  "local_rmdir E H path h = local_status (host_rmdir H (real_file_path E path) h)"

text \<open>The fields of \<open>struct stat\<close> as the package's narrower integers.\<close>

definition host_stat_bytes :: "host_stat \<Rightarrow> bytes" where
  "host_stat_bytes st =
     le_enc 2 (if S_ISDIR (hs_mode st) then 2 else 1 :: u16) @
     le_enc 2 (of_nat (hs_ino st) :: u16) @ le_enc 4 (word_of_int (hs_size st) :: u32) @
     le_enc 8 (word_of_int (hs_mtime st) :: u64) @ le_enc 8 (word_of_int (hs_ctime st) :: u64)"

definition local_stat :: "env \<Rightarrow> 'h host \<Rightarrow> cstr \<Rightarrow> 'h \<Rightarrow> error + (t_package \<times> 'h)" where
  "local_stat E H path h =
     (let (status, st, h) = host_stat_of H (real_file_path E path) h;
          pkg = create_default_package status
      in if status \<ge> 0
         then Inr (pkg\<lparr>pkg_size := 24, pkg_data := host_stat_bytes st\<rparr>, h)
         else Inr (pkg, h))"

text \<open>
  \<open>__fill_buffer_from_stat\<close>, which nothing calls: it assigns its parameter \<open>buffer\<close>, so the bytes
  (first) go to memory of its own; the caller has its old buffer and the new size.
\<close>

definition fill_buffer_from_stat :: "host_stat \<Rightarrow> bytes \<Rightarrow> bytes \<times> bytes \<times> u16" where
  "fill_buffer_from_stat stbuf caller_buffer = (host_stat_bytes stbuf, caller_buffer, 24)"

definition local_readdir :: "env \<Rightarrow> nat \<Rightarrow> 'h host \<Rightarrow> cstr \<Rightarrow> 'h \<Rightarrow> error + (t_package \<times> 'h)" where
  "local_readdir E t H path h =
     (case host_readdir H (real_file_path E path) h of
        (None, h) \<Rightarrow> Inl Out_of_bounds
      | (Some names, h) \<Rightarrow>
          bindE (append_entries E t (create_default_package 0) (map Some names)) (\<lambda>pkg. Inr (pkg, h)))"

definition local_rename :: "env \<Rightarrow> 'h host \<Rightarrow> cstr \<Rightarrow> cstr \<Rightarrow> 'h \<Rightarrow> error + (t_package \<times> 'h)" where
  "local_rename E H old_path new_path h =
     local_status (host_rename H (real_file_path E old_path) (real_file_path E new_path) h)"

definition local_truncate :: "env \<Rightarrow> 'h host \<Rightarrow> cstr \<Rightarrow> int \<Rightarrow> 'h \<Rightarrow> error + (t_package \<times> 'h)" where
  "local_truncate E H path len h = local_status (host_truncate H (real_file_path E path) len h)"

section \<open>Lemmas\<close>

context string_lib
begin

lemma real_path: "real_file_path E p = BASE_PATH @ p"
  by (simp add: real_file_path_def format_eq)

end

end
