(* ===== verification/Server.thy ===== *)
theory Server
  imports Fs_Local
begin

text \<open>
  \<open>server.c\<close>: from the bytes of a connection to the bytes of its answer. The state is that of
  the file system and, for the Linux mode, that of the host.
\<close>

record 'h srv =
  srv_fs :: fs
  srv_host :: 'h

section \<open>Arguments\<close>

definition arg :: "t_function \<Rightarrow> nat \<Rightarrow> error + bytes" where
  "arg f i = (if i < length (args f) then Inr (args f ! i) else Inl Out_of_bounds)"

definition arg_str :: "t_function \<Rightarrow> nat \<Rightarrow> error + cstr" where
  "arg_str f i = bindE (arg f i) strread"

definition arg_bytes :: "t_function \<Rightarrow> nat \<Rightarrow> nat \<Rightarrow> error + bytes" where
  "arg_bytes f i n = bindE (arg f i) (\<lambda>a. if n \<le> length a then Inr (take n a) else Inl Out_of_bounds)"

definition arg_mode :: "t_function \<Rightarrow> nat \<Rightarrow> error + int" where
  "arg_mode f i = bindE (arg_bytes f i 2) (\<lambda>b. Inr (sint (le_dec b :: u16)))"

definition arg_fd :: "t_function \<Rightarrow> nat \<Rightarrow> error + int" where
  "arg_fd f i = bindE (arg_bytes f i 2) (\<lambda>b. Inr (uint (le_dec b :: u16)))"

definition arg_count :: "t_function \<Rightarrow> nat \<Rightarrow> error + nat" where
  "arg_count f i = bindE (arg_bytes f i 4) (\<lambda>b. Inr (unat (le_dec b :: u32)))"

text \<open>A \<open>size_offset\<close> converted to \<open>off_t\<close>, and one stored as \<open>off_t\<close>.\<close>

definition arg_offset :: "env \<Rightarrow> t_function \<Rightarrow> nat \<Rightarrow> error + int" where
  "arg_offset E f i = bindE (arg_bytes f i 4) (\<lambda>b. Inr (to_off_t E (uint (le_dec b :: u32))))"

definition arg_off_t :: "env \<Rightarrow> t_function \<Rightarrow> nat \<Rightarrow> error + int" where
  "arg_off_t E f i = bindE (arg_bytes f i (sizeof_off_t E)) (\<lambda>b. Inr (to_off_t E (uint (le_dec b :: u64))))"

section \<open>The log\<close>

text \<open>What \<open>log_function_call\<close> writes: the name of the function and its arguments.\<close>

definition log_function_call :: "t_function \<Rightarrow> error + line" where
  "log_function_call f =
     (let path = (\<lambda>name. bindE (arg_str f 0) (\<lambda>p. Inr (name, [Log_s p])));
          i = unat (function_id f)
      in if i = ident IDENTIFIER_OPEN
         then bindE (arg_str f 0) (\<lambda>p. bindE (arg_mode f 1) (\<lambda>m. Inr (''open'', [Log_s p, Log_d m])))
         else if i = ident IDENTIFIER_CLOSE then bindE (arg_fd f 0) (\<lambda>d. Inr (''close'', [Log_d d]))
         else if i = ident IDENTIFIER_WRITE
         then bindE (arg_fd f 0) (\<lambda>d. bindE (arg_count f 2) (\<lambda>n. bindE (arg_count f 3) (\<lambda>k.
                Inr (''write'', [Log_d d, Log_d (int n), Log_d (int k)]))))
         else if i = ident IDENTIFIER_READ
         then bindE (arg_fd f 0) (\<lambda>d. bindE (arg_count f 1) (\<lambda>n. bindE (arg_count f 2) (\<lambda>k.
                Inr (''read'', [Log_d d, Log_d (int n), Log_d (int k)]))))
         else if i = ident IDENTIFIER_REMOVE then path ''remove''
         else if i = ident IDENTIFIER_MKDIR then path ''mkdir''
         else if i = ident IDENTIFIER_RMDIR then path ''rmdir''
         else if i = ident IDENTIFIER_STAT then path ''stat''
         else if i = ident IDENTIFIER_READDIR then path ''readdir''
         else if i = ident IDENTIFIER_RENAME
         then bindE (arg_str f 0) (\<lambda>p. bindE (arg_str f 1) (\<lambda>q. Inr (''rename'', [Log_s p, Log_s q])))
         else if i = ident IDENTIFIER_TRUNCATE
         then bindE (arg_str f 0) (\<lambda>p. bindE (arg_count f 1) (\<lambda>n. Inr (''truncate'', [Log_s p, Log_d (int n)])))
         else Inr (''No se reconocio la funcion recibida'', []))"

section \<open>Executing a function\<close>

definition on_fs :: "(fs \<Rightarrow> error + (t_package \<times> fs)) \<Rightarrow> 'h srv \<Rightarrow> error + (t_package \<times> 'h srv)" where
  "on_fs f w = bindE (f (srv_fs w)) (\<lambda>(p, s). Inr (p, w\<lparr>srv_fs := s\<rparr>))"

definition on_host :: "('h \<Rightarrow> error + (t_package \<times> 'h)) \<Rightarrow> 'h srv \<Rightarrow> error + (t_package \<times> 'h srv)" where
  "on_host f w = bindE (f (srv_host w)) (\<lambda>(p, h). Inr (p, w\<lparr>srv_host := h\<rparr>))"

text \<open>\<open>None\<close>: the call does not return (\<open>_sac_rmdir\<close> on a tree with a cycle).\<close>

definition execute ::
    "env \<Rightarrow> t_dir_entry list_ops \<Rightarrow> 'h host \<Rightarrow> bool \<Rightarrow> t_function \<Rightarrow> 'h srv \<Rightarrow>
     (error + (t_package \<times> 'h srv)) option" where
  "execute E L H USE_LINUX_FS f w =
     (let i = unat (function_id f); t = tick (srv_fs w);
          run = (\<lambda>loc sac. Some (if USE_LINUX_FS then on_host loc w else on_fs sac w))
      in if i = ident IDENTIFIER_OPEN
         then case bindE (arg_str f 0) (\<lambda>p. bindE (arg_mode f 1) (\<lambda>m. Inr (p, m))) of
             Inl e \<Rightarrow> Some (Inl e)
           | Inr (p, m) \<Rightarrow> run (local_open E H p m) (sac_open_response E p m)
         else if i = ident IDENTIFIER_CLOSE
         then case arg_fd f 0 of Inl e \<Rightarrow> Some (Inl e)
           | Inr fd \<Rightarrow> run (local_close H fd) (sac_close_response fd)
         else if i = ident IDENTIFIER_WRITE
         then case bindE (arg_fd f 0) (\<lambda>fd. bindE (arg f 1) (\<lambda>b. bindE (arg_count f 2) (\<lambda>n.
                bindE (arg_offset E f 3) (\<lambda>off. Inr (fd, b, n, off))))) of
             Inl e \<Rightarrow> Some (Inl e)
           | Inr (fd, b, n, off) \<Rightarrow> run (local_write H fd b n off) (sac_write_response E fd b n off)
         else if i = ident IDENTIFIER_READ
         then case bindE (arg_fd f 0) (\<lambda>fd. bindE (arg_count f 1) (\<lambda>n.
                bindE (arg_offset E f 2) (\<lambda>off. Inr (fd, n, off)))) of
             Inl e \<Rightarrow> Some (Inl e)
           | Inr (fd, n, off) \<Rightarrow> run (local_read E t H fd n off) (sac_read_response E fd n off)
         else if i = ident IDENTIFIER_REMOVE
         then case arg_str f 0 of Inl e \<Rightarrow> Some (Inl e)
           | Inr p \<Rightarrow> run (local_remove E H p) (sac_remove_response E p)
         else if i = ident IDENTIFIER_MKDIR
         then case arg_str f 0 of Inl e \<Rightarrow> Some (Inl e)
           | Inr p \<Rightarrow> run (local_mkdir E H p) (sac_mkdir_response E p 0)
         else if i = ident IDENTIFIER_RMDIR
         then case arg_str f 0 of Inl e \<Rightarrow> Some (Inl e)
           | Inr p \<Rightarrow>
               if USE_LINUX_FS then Some (on_host (local_rmdir E H p) w)
               else map_option (\<lambda>r. on_fs (\<lambda>_. r) w) (sac_rmdir_response E L p (srv_fs w))
         else if i = ident IDENTIFIER_STAT
         then case arg_str f 0 of Inl e \<Rightarrow> Some (Inl e)
           | Inr p \<Rightarrow> run (local_stat E H p) (sac_stat_response E p)
         else if i = ident IDENTIFIER_READDIR
         then case arg_str f 0 of Inl e \<Rightarrow> Some (Inl e)
           | Inr p \<Rightarrow> run (local_readdir E t H p) (sac_readdir_response E p)
         else if i = ident IDENTIFIER_RENAME
         then case bindE (arg_str f 0) (\<lambda>p. bindE (arg_str f 1) (\<lambda>q. Inr (p, q))) of
             Inl e \<Rightarrow> Some (Inl e)
           | Inr (p, q) \<Rightarrow> run (local_rename E H p q) (sac_rename_response E p q)
         else if i = ident IDENTIFIER_TRUNCATE
         then case bindE (arg_str f 0) (\<lambda>p. bindE (arg_off_t E f 1) (\<lambda>n. Inr (p, n))) of
             Inl e \<Rightarrow> Some (Inl e)
           | Inr (p, n) \<Rightarrow> run (local_truncate E H p n) (sac_truncate_response E p n)
         else Some (Inr (create_default_package (- 1), w)))"

section \<open>A connection\<close>

definition srv_receive :: "env \<Rightarrow> bytes \<Rightarrow> 'h srv \<Rightarrow> t_package \<times> bytes \<times> nat \<times> 'h srv" where
  "srv_receive E stream w =
     (let t = tick (srv_fs w); (p, stream) = receive_package E t stream
      in (p, stream, Suc t, w\<lparr>srv_fs := (srv_fs w)\<lparr>tick := Suc (Suc t)\<rparr>\<rparr>))"

text \<open>
  \<open>attend_connection\<close>: a handshake, then one function. A package that is not a handshake gets no
  answer; one whose identifier is that of no function makes \<open>deserialize\<close> return \<open>NULL\<close>, which
  the log then reads. The result is the bytes sent back.
\<close>

definition attend_connection ::
    "env \<Rightarrow> t_dir_entry list_ops \<Rightarrow> 'h host \<Rightarrow> bool \<Rightarrow> bytes \<Rightarrow> 'h srv \<Rightarrow>
     (error + (bytes \<times> 'h srv)) option" where
  "attend_connection E L H USE_LINUX_FS stream w =
     (let (p, stream, t, w) = srv_receive E stream w
      in if message_id p = id_word IDENTIFIER_SAC
         then let (p, stream, t, w) = srv_receive E stream w
              in case bindE (deserialize E t p) (\<lambda>funcion. case funcion of
                     None \<Rightarrow> Inl Out_of_bounds
                   | Some f \<Rightarrow> bindE (log_function_call f) (\<lambda>_. Inr f)) of
                   Inl e \<Rightarrow> Some (Inl e)
                 | Inr f \<Rightarrow>
                     map_option (\<lambda>r. bindE r (\<lambda>(response, w). Inr (send_package E response, w)))
                     (execute E L H USE_LINUX_FS f w)
         else Some (Inr ([], w)))"

section \<open>Attending a message\<close>

text \<open>The bytes of a handshake.\<close>

definition hello :: bytes where
  "hello = le_enc 8 (0 :: u64) @ le_enc 4 (0 :: u32)"

lemma send_handshake_spec: "send_handshake E = hello"
  by (simp add: send_handshake_def send_package_def hello_def)

lemma receive_hello: "receive_package E t (hello @ rest) = (package IDENTIFIER_SAC [], rest)"
  using receive_sent [of E "package IDENTIFIER_SAC []" hello E t rest]
  by (simp add: send_package_def package_def hello_def)

definition ticks :: "nat \<Rightarrow> 'h srv \<Rightarrow> 'h srv" where
  "ticks n w = w\<lparr>srv_fs := (srv_fs w)\<lparr>tick := tick (srv_fs w) + n\<rparr>\<rparr>"

lemma srv_receive_eq:
  "receive_package E (tick (srv_fs w)) stream = (p, stream') \<Longrightarrow>
   srv_receive E stream w = (p, stream', Suc (tick (srv_fs w)), ticks 2 w)"
  by (simp add: srv_receive_def ticks_def Let_def)

text \<open>Sending the response of a run.\<close>

definition answer :: "env \<Rightarrow> (error + (t_package \<times> 'h srv)) option \<Rightarrow> (error + (bytes \<times> 'h srv)) option" where
  "answer E = map_option (\<lambda>r. bindE r (\<lambda>(response, w). Inr (send_package E response, w)))"

context message
begin

lemma attended:
  assumes "sent E x" and "ser E t x = Inr p" and "send_package E p = b"
    and "got E E' (tick (srv_fs w) + 3) x"
    and "log_function_call (call m (fields E' (tick (srv_fs w) + 3) x)) = Inr l"
  shows "attend_connection E' L H lin (hello @ b @ rest) w =
    answer E' (execute E' L H lin (call m (fields E' (tick (srv_fs w) + 3) x)) (ticks 4 w))"
proof -
  let ?t = "tick (srv_fs w)"
  have got: "got E E' (Suc (?t + 2)) x" using assms(4) by (simp add: numeral_3_eq_3)
  from delivered [OF assms(1) got, of t rest] assms(2,3)
  have d: "receive_package E' (?t + 2) (b @ rest) = (p, rest)"
      "deserialize E' (?t + 3) p = Inr (Some (call m (fields E' (?t + 3) x)))"
    by (auto simp: numeral_3_eq_3)
  have 1: "srv_receive E' (hello @ b @ rest) w =
      (package IDENTIFIER_SAC [], b @ rest, Suc ?t, ticks 2 w)"
    by (rule srv_receive_eq) (rule receive_hello)
  have 2: "srv_receive E' (b @ rest) (ticks 2 w) = (p, rest, ?t + 3, ticks 4 w)"
    using srv_receive_eq [of E' "ticks 2 w" "b @ rest"] d(1) by (simp add: ticks_def)
  have 3: "message_id (package IDENTIFIER_SAC []) = id_word IDENTIFIER_SAC" by (simp add: package_def)
  show ?thesis
    unfolding attend_connection_def 1 2 Let_def prod.case if_P [OF 3] d(2)
    using assms(5) by (simp add: answer_def)
qed

end

text \<open>A message whose identifier is that of no function stops the server.\<close>

lemma unknown_identifier:
  assumes "\<forall>m. m \<noteq> IDENTIFIER_SAC \<longrightarrow> message_id p \<noteq> id_word m"
    and "send_package E' p = b" and "length (pkg_data p) = unat (pkg_size p)"
  shows "attend_connection E L H lin (hello @ b @ rest) w = Some (Inl Out_of_bounds)"
proof -
  have 1: "srv_receive E (hello @ b @ rest) w = (package IDENTIFIER_SAC [], b @ rest, Suc (tick (srv_fs w)), ticks 2 w)"
    by (rule srv_receive_eq) (rule receive_hello)
  have 2: "srv_receive E (b @ rest) (ticks 2 w) = (p, rest, Suc (tick (srv_fs (ticks 2 w))), ticks 2 (ticks 2 w))"
    by (rule srv_receive_eq) (rule receive_sent [OF assms(2,3)])
  have 3: "message_id (package IDENTIFIER_SAC []) = id_word IDENTIFIER_SAC" by (simp add: package_def)
  have 4: "deserialize E t p = Inr None" for t
    using assms(1) by (simp add: deserialize_def del: ident.simps)
  show ?thesis
    unfolding attend_connection_def 1 2 Let_def prod.case if_P [OF 3] 4 by simp
qed

section \<open>Reading the arguments of a call\<close>

lemma call_simps [simp]:
  "function_id (call m as) = of_nat (ident m)" "args (call m as) = as" "unat (of_nat (ident m) :: byte) = ident m"
  by (simp_all add: call_def) (cases m; simp)

lemma arg_simps [simp]:
  "arg (call m (a # as)) 0 = Inr a" "arg (call m (a # as)) (Suc i) = arg (call m as) i"
  by (simp_all add: arg_def)

lemma arg_numeral [simp]: "arg (call m (a # as)) (numeral k) = arg (call m as) (pred_numeral k)"
  by (simp add: numeral_eq_Suc)

lemma field_values:
  "uint (word_of_int v :: u16) = v mod 65536" "uint (word_of_int v :: u32) = v mod 4294967296"
  "unat (of_nat n :: u32) = n mod 4294967296" "unat (word_of_int v :: u32) = nat (v mod 4294967296)"
  by (simp_all add: uint_word_of_int unat_of_nat)
    (simp only: unat_eq_nat_uint uint_word_of_int, simp)

lemma arg_str_call: "arg (call m as) i = Inr (p @ [0]) \<Longrightarrow> is_cstr p \<Longrightarrow> arg_str (call m as) i = Inr p"
  using strread_terminated [of p "[]"] by (simp add: arg_str_def)

lemma arg_word_call:
  "arg (call m as) i = Inr (mode_bytes v) \<Longrightarrow> arg_mode (call m as) i = Inr (sint (word_of_int v :: u16))"
  "arg (call m as) i = Inr (fd_bytes v) \<Longrightarrow> arg_fd (call m as) i = Inr (v mod 65536)"
  "arg (call m as) i = Inr (count_bytes n) \<Longrightarrow> arg_count (call m as) i = Inr (n mod 4294967296)"
  "arg (call m as) i = Inr (offset_bytes v) \<Longrightarrow> arg_count (call m as) i = Inr (nat (v mod 4294967296))"
  "arg (call m as) i = Inr (offset_bytes v) \<Longrightarrow> arg_offset E (call m as) i = Inr (to_off_t E (v mod 4294967296))"
  unfolding arg_mode_def arg_fd_def arg_count_def arg_offset_def arg_bytes_def
  by (simp_all only: bindE.simps length_le_enc le_refl if_True take_all u16le.decode [OF TrueI]
      u32le.decode [OF TrueI] field_values)

lemma arg_off_t_call:
  assumes "arg (call m as) i = Inr (off_bytes (sizeof_off_t E) v)" and "0 < sizeof_off_t E" "sizeof_off_t E \<le> 8"
  shows "arg_off_t E (call m as) i = Inr (to_off_t E v)"
proof -
  let ?n = "8 * sizeof_off_t E"
  have "uint (le_dec (off_bytes (sizeof_off_t E) v) :: u64) = take_bit ?n (take_bit 64 v)"
    by (simp add: le_dec_enc_take unsigned_take_bit_eq uint_word_of_int_eq)
  also have "\<dots> = take_bit ?n v" using assms(3) by simp
  finally have "uint (le_dec (off_bytes (sizeof_off_t E) v) :: u64) = take_bit ?n v" .
  moreover have "signed_take_bit (?n - 1) (take_bit ?n v) = signed_take_bit (?n - 1) v"
  proof -
    have "\<not> ?n \<le> ?n - 1" using assms(2) by simp
    then show ?thesis by (simp only: signed_take_bit_take_bit if_False)
  qed
  ultimately show ?thesis using assms(1) by (simp add: arg_off_t_def arg_bytes_def to_off_t_def)
qed

lemmas call_args = arg_str_call arg_word_call arg_off_t_call

section \<open>The arguments that arrive\<close>

text \<open>
  What the server reads from the arguments of a function is the request \<open>r\<close>. It does not read the
  mode of \<open>mkdir\<close>.
\<close>

fun reads_as :: "env \<Rightarrow> t_function \<Rightarrow> request \<Rightarrow> bool" where
  "reads_as E f (Open_req path mode) \<longleftrightarrow> function_id f = of_nat (ident IDENTIFIER_OPEN) \<and>
     arg_str f 0 = Inr path \<and> arg_mode f 1 = Inr mode"
| "reads_as E f (Close_req fd) \<longleftrightarrow> function_id f = of_nat (ident IDENTIFIER_CLOSE) \<and> arg_fd f 0 = Inr fd"
| "reads_as E f (Write_req fd buffer count offset) \<longleftrightarrow> function_id f = of_nat (ident IDENTIFIER_WRITE) \<and>
     arg_fd f 0 = Inr fd \<and> arg f 1 = Inr buffer \<and> arg_count f 2 = Inr count \<and> arg_offset E f 3 = Inr offset"
| "reads_as E f (Read_req fd count offset) \<longleftrightarrow> function_id f = of_nat (ident IDENTIFIER_READ) \<and>
     arg_fd f 0 = Inr fd \<and> arg_count f 1 = Inr count \<and> arg_offset E f 2 = Inr offset"
| "reads_as E f (Remove_req path) \<longleftrightarrow> function_id f = of_nat (ident IDENTIFIER_REMOVE) \<and> arg_str f 0 = Inr path"
| "reads_as E f (Mkdir_req path mode) \<longleftrightarrow> function_id f = of_nat (ident IDENTIFIER_MKDIR) \<and> arg_str f 0 = Inr path"
| "reads_as E f (Rmdir_req path) \<longleftrightarrow> function_id f = of_nat (ident IDENTIFIER_RMDIR) \<and> arg_str f 0 = Inr path"
| "reads_as E f (Stat_req path) \<longleftrightarrow> function_id f = of_nat (ident IDENTIFIER_STAT) \<and> arg_str f 0 = Inr path"
| "reads_as E f (Readdir_req path) \<longleftrightarrow> function_id f = of_nat (ident IDENTIFIER_READDIR) \<and> arg_str f 0 = Inr path"
| "reads_as E f (Rename_req old new) \<longleftrightarrow> function_id f = of_nat (ident IDENTIFIER_RENAME) \<and>
     arg_str f 0 = Inr old \<and> arg_str f 1 = Inr new"
| "reads_as E f (Truncate_req path len) \<longleftrightarrow> function_id f = of_nat (ident IDENTIFIER_TRUNCATE) \<and>
     arg_str f 0 = Inr path \<and> arg_off_t E f 1 = Inr len"

text \<open>
  The request in the widths of its message, as the receiver reads them: 16 bits for a descriptor and
  (with a sign) for a mode, 32 for a count and an offset, an \<open>off_t\<close> for a length; and the requests
  that it leaves as they are.
\<close>

fun narrowed :: "env \<Rightarrow> request \<Rightarrow> request" where
  "narrowed E (Open_req path mode) = Open_req path (sint (word_of_int mode :: u16))"
| "narrowed E (Close_req fd) = Close_req (fd mod 65536)"
| "narrowed E (Write_req fd buffer count offset) =
     Write_req (fd mod 65536) (take count buffer) (count mod 4294967296) (to_off_t E (offset mod 4294967296))"
| "narrowed E (Read_req fd count offset) =
     Read_req (fd mod 65536) (count mod 4294967296) (to_off_t E (offset mod 4294967296))"
| "narrowed E (Truncate_req path len) = Truncate_req path (to_off_t E len)"
| "narrowed E r = r"

fun in_range :: "env \<Rightarrow> request \<Rightarrow> bool" where
  "in_range E (Open_req path mode) \<longleftrightarrow> - 32768 \<le> mode \<and> mode < 32768"
| "in_range E (Close_req fd) \<longleftrightarrow> 0 \<le> fd \<and> fd < 65536"
| "in_range E (Write_req fd buffer count offset) \<longleftrightarrow> 0 \<le> fd \<and> fd < 65536 \<and> length buffer = count \<and>
     count < 4294967296 \<and> 4 \<le> sizeof_off_t E \<and> 0 \<le> offset \<and> offset < 2147483648"
| "in_range E (Read_req fd count offset) \<longleftrightarrow> 0 \<le> fd \<and> fd < 65536 \<and>
     count < 4294967296 \<and> 4 \<le> sizeof_off_t E \<and> 0 \<le> offset \<and> offset < 2147483648"
| "in_range E (Truncate_req path len) \<longleftrightarrow> 4 \<le> sizeof_off_t E \<and> 0 \<le> len \<and> len < 2147483648"
| "in_range E r \<longleftrightarrow> True"

lemma requested_read:
  "sendable C r \<Longrightarrow> readable_at C E t r \<Longrightarrow> reads_as E (requested E t r) (narrowed E r)"
  by (cases r) (simp_all add: call_args)

lemma narrowed_in_range: "in_range E r \<Longrightarrow> narrowed E r = r"
  by (cases r) (simp_all add: int_word_sint to_off_t_small)

section \<open>Executing the protocol\<close>

lemma execute_path:
  assumes "is_cstr p"
  shows "execute E L H False (call IDENTIFIER_OPEN [p @ [0], mode_bytes v]) w =
      Some (on_fs (sac_open_response E p (sint (word_of_int v :: u16))) w)"
    and "execute E L H False (call IDENTIFIER_REMOVE [p @ [0]]) w = Some (on_fs (sac_remove_response E p) w)"
    and "execute E L H False (call IDENTIFIER_MKDIR [p @ [0], b]) w = Some (on_fs (sac_mkdir_response E p 0) w)"
    and "execute E L H False (call IDENTIFIER_RMDIR [p @ [0]]) w =
      map_option (\<lambda>r. on_fs (\<lambda>_. r) w) (sac_rmdir_response E L p (srv_fs w))"
    and "execute E L H False (call IDENTIFIER_STAT [p @ [0], b]) w = Some (on_fs (sac_stat_response E p) w)"
    and "execute E L H False (call IDENTIFIER_READDIR [p @ [0]]) w = Some (on_fs (sac_readdir_response E p) w)"
  using assms by (simp_all add: execute_def Let_def call_args)

lemma execute_rename:
  "is_cstr p \<Longrightarrow> is_cstr q \<Longrightarrow> execute E L H False (call IDENTIFIER_RENAME [p @ [0], q @ [0]]) w =
     Some (on_fs (sac_rename_response E p q) w)"
  by (simp add: execute_def Let_def call_args)

lemma execute_truncate:
  "is_cstr p \<Longrightarrow> 0 < sizeof_off_t E \<Longrightarrow> sizeof_off_t E \<le> 8 \<Longrightarrow>
   execute E L H False (call IDENTIFIER_TRUNCATE [p @ [0], off_bytes (sizeof_off_t E) n]) w =
     Some (on_fs (sac_truncate_response E p (to_off_t E n)) w)"
  by (simp add: execute_def Let_def call_args)

lemma execute_descriptor:
  "execute E L H False (call IDENTIFIER_CLOSE [fd_bytes fd]) w =
     Some (on_fs (sac_close_response (fd mod 65536)) w)"
  "execute E L H False (call IDENTIFIER_WRITE [fd_bytes fd, b, count_bytes n, offset_bytes off]) w =
     Some (on_fs (sac_write_response E (fd mod 65536) b (n mod 4294967296) (to_off_t E (off mod 4294967296))) w)"
  "execute E L H False (call IDENTIFIER_READ [fd_bytes fd, count_bytes n, offset_bytes off]) w =
     Some (on_fs (sac_read_response E (fd mod 65536) (n mod 4294967296) (to_off_t E (off mod 4294967296))) w)"
  by (simp_all add: execute_def Let_def call_args)

end
