(* ===== verification/Client.thy ===== *)
theory Client
  imports Serialization
begin

text \<open>
  \<open>client.c\<close> and \<open>fuse.c\<close>: the functions that FUSE calls, each a message to the server and what
  is made of its answer. The server is an argument, a \<open>peer\<close>.
\<close>

section \<open>Sending a function\<close>

text \<open>
  \<open>accepts\<close>: a connection can be made. \<open>serve\<close> gives what the peer sends back for the bytes it
  receives, before it closes (\<open>Blocked\<close>: it never does).
\<close>

record 'w peer =
  accepts :: "'w \<Rightarrow> bool"
  serve :: "bytes \<Rightarrow> 'w \<Rightarrow> error + (bytes \<times> 'w)"

definition to_int :: "int \<Rightarrow> int" where
  "to_int v = sint (word_of_int v :: u32)"

definition to_size_t :: "env \<Rightarrow> int \<Rightarrow> nat" where
  "to_size_t E v = nat (v mod 2 ^ (8 * sizeof_size_t E))"

definition serialize_function ::
    "env \<Rightarrow> nat \<Rightarrow> t_identifier_message \<Rightarrow> bytes \<Rightarrow> bytes \<Rightarrow> int \<Rightarrow> int \<Rightarrow> int \<Rightarrow> error + t_package" where
  "serialize_function E t fid arg_data1 arg_data2 arg_int1 arg_int2 arg_int3 =
     (case fid of
        IDENTIFIER_OPEN \<Rightarrow> serialize_open E t arg_data1 (to_int arg_int1)
      | IDENTIFIER_CLOSE \<Rightarrow> serialize_close E t (to_int arg_int1)
      | IDENTIFIER_WRITE \<Rightarrow>
          serialize_write E t (to_int arg_int1) arg_data1 (to_size_t E arg_int2) (to_off_t E arg_int3)
      | IDENTIFIER_READ \<Rightarrow>
          serialize_read E t (to_int arg_int1) (to_size_t E arg_int2) (to_off_t E arg_int3)
      | IDENTIFIER_REMOVE \<Rightarrow> serialize_remove E t arg_data1
      | IDENTIFIER_MKDIR \<Rightarrow> serialize_mkdir E t arg_data1 (to_int arg_int1)
      | IDENTIFIER_RMDIR \<Rightarrow> serialize_rmdir E t arg_data1
      | IDENTIFIER_STAT \<Rightarrow> serialize_stat E t arg_data1
      | IDENTIFIER_READDIR \<Rightarrow> serialize_readdir E t arg_data1
      | IDENTIFIER_RENAME \<Rightarrow> serialize_rename E t arg_data1 arg_data2
      | IDENTIFIER_TRUNCATE \<Rightarrow> serialize_truncate E t arg_data1 (to_off_t E arg_int1)
      | IDENTIFIER_SAC \<Rightarrow> Inl (Exit (- 1)))"

definition send_function ::
    "env \<Rightarrow> nat \<Rightarrow> 'w peer \<Rightarrow> t_identifier_message \<Rightarrow> bytes \<Rightarrow> bytes \<Rightarrow> int \<Rightarrow> int \<Rightarrow> int \<Rightarrow> 'w \<Rightarrow>
     error + (t_package \<times> 'w)" where
  "send_function E t P fid arg_data1 arg_data2 arg_int1 arg_int2 arg_int3 w =
     (if \<not> accepts P w then Inl (Exit (- 1))
      else bindE (serialize_function E t fid arg_data1 arg_data2 arg_int1 arg_int2 arg_int3) (\<lambda>p.
           bindE (serve P (send_handshake E @ send_package E p) w) (\<lambda>(resp, w).
           Inr (fst (receive_package E (Suc t) resp), w))))"

section \<open>The operations of FUSE\<close>

definition EACCES :: int where
  "EACCES = 13"

definition ENOENT :: int where
  "ENOENT = 2"

definition ENOTEMPTY :: int where
  "ENOTEMPTY = 39"

text \<open>\<open>int res = response->message_id\<close>.\<close>

definition result_of :: "t_package \<Rightarrow> int" where
  "result_of p = sint (ucast (message_id p) :: u32)"

definition correct_path :: "env \<Rightarrow> cstr \<Rightarrow> bool" where
  "correct_path E path \<longleftrightarrow> \<not> string_starts_with E path (lit ''/.'') \<and> path \<noteq> lit ''/autorun.inf''"

text \<open>A message of which only the result counts.\<close>

definition simple_call ::
    "env \<Rightarrow> nat \<Rightarrow> 'w peer \<Rightarrow> t_identifier_message \<Rightarrow> bytes \<Rightarrow> bytes \<Rightarrow> int \<Rightarrow> int \<Rightarrow> int \<Rightarrow> 'w \<Rightarrow>
     error + (int \<times> 'w)" where
  "simple_call E t P m d1 d2 i1 i2 i3 w =
     bindE (send_function E t P m d1 d2 i1 i2 i3 w) (\<lambda>(response, w). Inr (result_of response, w))"

text \<open>Opening: the second component is what is stored in \<open>fi->fh\<close>.\<close>

definition open_with ::
    "env \<Rightarrow> nat \<Rightarrow> 'w peer \<Rightarrow> cstr \<Rightarrow> int \<Rightarrow> 'w \<Rightarrow> error + (int \<times> u64 option \<times> 'w)" where
  "open_with E t P path flags w =
     bindE (simple_call E t P IDENTIFIER_OPEN path [] flags 0 0 w) (\<lambda>(fd, w).
     if fd < 0 then Inr (- EACCES, None, w) else Inr (0, Some (word_of_int fd), w))"

text \<open>\<open>O_RDWR|O_CREAT\<close> is 66, \<open>O_CREAT|O_WRONLY|O_TRUNC\<close> is 577.\<close>

definition do_open :: "env \<Rightarrow> nat \<Rightarrow> 'w peer \<Rightarrow> cstr \<Rightarrow> 'w \<Rightarrow> error + (int \<times> u64 option \<times> 'w)" where
  "do_open E t P path w =
     (if \<not> correct_path E path then Inr (0, None, w) else open_with E t P path 66 w)"

definition do_create :: "env \<Rightarrow> nat \<Rightarrow> 'w peer \<Rightarrow> cstr \<Rightarrow> 'w \<Rightarrow> error + (int \<times> u64 option \<times> 'w)" where
  "do_create E t P path w = open_with E t P path 577 w"

definition fh_int :: "u64 \<Rightarrow> int" where
  "fh_int fh = sint (ucast fh :: u32)"

definition do_read ::
    "env \<Rightarrow> nat \<Rightarrow> 'w peer \<Rightarrow> cstr \<Rightarrow> bytes \<Rightarrow> nat \<Rightarrow> int \<Rightarrow> u64 \<Rightarrow> 'w \<Rightarrow> error + (int \<times> bytes \<times> 'w)" where
  "do_read E t P path buffer count offset fh w =
     (if \<not> correct_path E path then Inr (0, buffer, w)
      else bindE (send_function E t P IDENTIFIER_READ [] [] (fh_int fh) (int count) offset w) (\<lambda>(response, w).
           bindE (mem_write buffer 0 (take (unat (pkg_size response)) (pkg_data response))) (\<lambda>buffer.
           Inr (if message_id response = 0 then sint (pkg_size response) else result_of response, buffer, w))))"

definition do_write ::
    "env \<Rightarrow> nat \<Rightarrow> 'w peer \<Rightarrow> bytes \<Rightarrow> nat \<Rightarrow> int \<Rightarrow> u64 \<Rightarrow> 'w \<Rightarrow> error + (int \<times> 'w)" where
  "do_write E t P buffer count offset fh w =
     simple_call E t P IDENTIFIER_WRITE buffer [] (fh_int fh) (int count) offset w"

record client_stat =
  cs_mode :: u32
  cs_nlink :: nat
  cs_uid :: nat
  cs_gid :: nat
  cs_ino :: u16
  cs_size :: u32
  cs_mtime :: u64
  cs_ctime :: u64
  cs_atime :: u64

text \<open>\<open>uid\<close> and \<open>gid\<close> are what \<open>getuid\<close> and \<open>getgid\<close> return.\<close>

definition fill_stat_from_buffer :: "env \<Rightarrow> nat \<Rightarrow> nat \<Rightarrow> nat \<Rightarrow> bytes \<Rightarrow> error + client_stat" where
  "fill_stat_from_buffer E uid gid t buffer =
     bindE (mem_read E t buffer 0 2) (\<lambda>d. bindE (mem_read E t buffer 2 2) (\<lambda>n.
     bindE (mem_read E t buffer 4 4) (\<lambda>z. bindE (mem_read E t buffer 8 8) (\<lambda>m.
     bindE (mem_read E t buffer 16 8) (\<lambda>c.
     let is_dir_or_file = le_dec d :: u16; mtime = to_time_t E (le_dec m)
     in Inr \<lparr>cs_mode = (if is_dir_or_file = 2 then 0x41FF else 0x81FF),
             cs_nlink = (if is_dir_or_file = 2 then 2 else 1), cs_uid = uid, cs_gid = gid,
             cs_ino = le_dec n, cs_size = le_dec z, cs_mtime = mtime, cs_ctime = to_time_t E (le_dec c),
             cs_atime = mtime\<rparr>)))))"

definition do_getattr ::
    "env \<Rightarrow> nat \<Rightarrow> nat \<Rightarrow> nat \<Rightarrow> 'w peer \<Rightarrow> cstr \<Rightarrow> 'w \<Rightarrow> error + (int \<times> client_stat option \<times> 'w)" where
  "do_getattr E uid gid t P path w =
     (if \<not> correct_path E path then Inr (0, None, w)
      else bindE (send_function E t P IDENTIFIER_STAT path [] 0 0 0 w) (\<lambda>(response, w).
           if result_of response = 0
           then bindE (fill_stat_from_buffer E uid gid (t + 2) (pkg_data response)) (\<lambda>st. Inr (0, Some st, w))
           else Inr (- ENOENT, None, w)))"

text \<open>The loop of \<open>do_readdir\<close>: the names it hands to \<open>filler\<close>.\<close>

function read_names :: "env \<Rightarrow> nat \<Rightarrow> bytes \<Rightarrow> nat \<Rightarrow> nat \<Rightarrow> error + cstr list" where
  "read_names E t dat sz pos =
     (if pos < sz
      then bindE (mem_read E t dat pos 2) (\<lambda>l.
           let len = unat (le_dec l :: u16) in
           bindE (mem_read E t dat (pos + 2) len) (\<lambda>entry.
           bindE (strread entry) (\<lambda>name.
           bindE (read_names E t dat sz (pos + 2 + len)) (\<lambda>names. Inr (name # names)))))
      else Inr [])"
  by pat_completeness auto
termination
  by (relation "measure (\<lambda>(E, t, dat, sz, pos). sz - pos)") auto

declare read_names.simps [simp del]

definition do_readdir ::
    "env \<Rightarrow> nat \<Rightarrow> 'w peer \<Rightarrow> cstr \<Rightarrow> 'w \<Rightarrow> error + (int \<times> cstr list \<times> 'w)" where
  "do_readdir E t P path w =
     (let dots = [lit ''.'', lit ''..''] in
      bindE (send_function E t P IDENTIFIER_READDIR path [] 0 0 0 w) (\<lambda>(response, w).
      if sint (message_id response) < 0 then Inr (- ENOENT, dots, w)
      else bindE (read_names E (t + 2) (pkg_data response) (unat (pkg_size response)) 0) (\<lambda>names.
           Inr (0, dots @ names, w))))"

definition do_remove :: "env \<Rightarrow> nat \<Rightarrow> 'w peer \<Rightarrow> cstr \<Rightarrow> 'w \<Rightarrow> error + (int \<times> 'w)" where
  "do_remove E t P path w = simple_call E t P IDENTIFIER_REMOVE path [] 0 0 0 w"

definition do_release :: "env \<Rightarrow> nat \<Rightarrow> 'w peer \<Rightarrow> cstr \<Rightarrow> u64 \<Rightarrow> 'w \<Rightarrow> error + (int \<times> 'w)" where
  "do_release E t P path fh w =
     (if \<not> correct_path E path then Inr (0, w)
      else simple_call E t P IDENTIFIER_CLOSE [] [] (fh_int fh) 0 0 w)"

definition do_mkdir :: "env \<Rightarrow> nat \<Rightarrow> 'w peer \<Rightarrow> cstr \<Rightarrow> int \<Rightarrow> 'w \<Rightarrow> error + (int \<times> 'w)" where
  "do_mkdir E t P path mode w = simple_call E t P IDENTIFIER_MKDIR path [] mode 0 0 w"

definition do_rmdir :: "env \<Rightarrow> nat \<Rightarrow> 'w peer \<Rightarrow> cstr \<Rightarrow> 'w \<Rightarrow> error + (int \<times> 'w)" where
  "do_rmdir E t P path w =
     (if path = lit ''.'' \<or> path = lit ''..'' then Inr (- 1, w)
      else bindE (simple_call E t P IDENTIFIER_RMDIR path [] 0 0 0 w) (\<lambda>(res, w).
           Inr (if res = - 2 then - ENOTEMPTY else res, w)))"

definition do_truncate :: "env \<Rightarrow> nat \<Rightarrow> 'w peer \<Rightarrow> cstr \<Rightarrow> int \<Rightarrow> 'w \<Rightarrow> error + (int \<times> 'w)" where
  "do_truncate E t P path len w = simple_call E t P IDENTIFIER_TRUNCATE path [] len 0 0 w"

definition do_rename :: "env \<Rightarrow> nat \<Rightarrow> 'w peer \<Rightarrow> cstr \<Rightarrow> cstr \<Rightarrow> 'w \<Rightarrow> error + (int \<times> 'w)" where
  "do_rename E t P old_path new_path w = simple_call E t P IDENTIFIER_RENAME old_path new_path 0 0 0 w"

definition do_flush :: int where
  "do_flush = 0"

definition do_opendir :: int where
  "do_opendir = 0"

definition do_access :: int where
  "do_access = 0"

text \<open>
  The table \<open>do_oper\<close>: what FUSE calls for each request. \<open>Handle\<close> is an answer that may set the
  handle of the file, \<open>Names\<close> one that hands names to \<open>filler\<close>.
\<close>

datatype fuse_request =
    Fuse_getattr cstr
  | Fuse_open cstr
  | Fuse_create cstr
  | Fuse_truncate cstr int
  | Fuse_flush
  | Fuse_release cstr u64
  | Fuse_rename cstr cstr
  | Fuse_read cstr bytes nat int u64
  | Fuse_write bytes nat int u64
  | Fuse_unlink cstr
  | Fuse_mkdir cstr int
  | Fuse_rmdir cstr
  | Fuse_opendir
  | Fuse_readdir cstr
  | Fuse_access

datatype fuse_reply =
    Result int
  | Attributes int "client_stat option"
  | Handle int "u64 option"
  | Data int bytes
  | Names int "cstr list"

definition result :: "error + (int \<times> 'w) \<Rightarrow> error + (fuse_reply \<times> 'w)" where
  "result r = bindE r (\<lambda>(i, w). Inr (Result i, w))"

fun do_oper ::
    "env \<Rightarrow> nat \<Rightarrow> nat \<Rightarrow> nat \<Rightarrow> 'w peer \<Rightarrow> fuse_request \<Rightarrow> 'w \<Rightarrow> error + (fuse_reply \<times> 'w)" where
  "do_oper E uid gid t P (Fuse_getattr path) w =
     bindE (do_getattr E uid gid t P path w) (\<lambda>(i, a, w). Inr (Attributes i a, w))"
| "do_oper E uid gid t P (Fuse_open path) w = bindE (do_open E t P path w) (\<lambda>(i, h, w). Inr (Handle i h, w))"
| "do_oper E uid gid t P (Fuse_create path) w = bindE (do_create E t P path w) (\<lambda>(i, h, w). Inr (Handle i h, w))"
| "do_oper E uid gid t P (Fuse_truncate path len) w = result (do_truncate E t P path len w)"
| "do_oper E uid gid t P Fuse_flush w = Inr (Result do_flush, w)"
| "do_oper E uid gid t P (Fuse_release path fh) w = result (do_release E t P path fh w)"
| "do_oper E uid gid t P (Fuse_rename old new) w = result (do_rename E t P old new w)"
| "do_oper E uid gid t P (Fuse_read path buffer count offset fh) w =
     bindE (do_read E t P path buffer count offset fh w) (\<lambda>(i, d, w). Inr (Data i d, w))"
| "do_oper E uid gid t P (Fuse_write buffer count offset fh) w = result (do_write E t P buffer count offset fh w)"
| "do_oper E uid gid t P (Fuse_unlink path) w = result (do_remove E t P path w)"
| "do_oper E uid gid t P (Fuse_mkdir path mode) w = result (do_mkdir E t P path mode w)"
| "do_oper E uid gid t P (Fuse_rmdir path) w = result (do_rmdir E t P path w)"
| "do_oper E uid gid t P Fuse_opendir w = Inr (Result do_opendir, w)"
| "do_oper E uid gid t P (Fuse_readdir path) w =
     bindE (do_readdir E t P path w) (\<lambda>(i, ns, w). Inr (Names i ns, w))"
| "do_oper E uid gid t P Fuse_access w = Inr (Result do_access, w)"

definition get_ip_and_port_or_default :: "env \<Rightarrow> cstr option \<Rightarrow> error + cstr list" where
  "get_ip_and_port_or_default E ip_port =
     (case ip_port of
        Some a \<Rightarrow>
          if \<not> string_contains E a (lit '':'') then Inl (Exit (- 1))
          else Inr (string_split E a (lit '':''))
      | None \<Rightarrow> Inr [lit ''127.0.0.1'', lit ''21000''])"

end
