(* ===== verification/Dir_Spec.thy ===== *)
theory Dir_Spec
  imports Directory
begin

text \<open>
  What a directory promises: its contents are a list of entries (name and node number).
  \<open>dir_ok s nd es\<close> says that node \<open>nd\<close> holds the entries \<open>es\<close> in the state \<open>s\<close>; the lemmas
  reduce the three nested loops to one scan of that list, and the operations that search,
  add and delete an entry to the list operations.
\<close>

section \<open>Contents\<close>

type_synonym entries = "(cstr \<times> u32) list"

text \<open>An entry in a block: 4 bytes of node number, the name and its NUL.\<close>

definition slot_is :: "bytes \<Rightarrow> nat \<Rightarrow> cstr \<times> u32 \<Rightarrow> bool" where
  "slot_is bs k e \<longleftrightarrow>
     memget bs (128 * k) 4 = le_enc 4 (snd e) \<and>
     memget bs (128 * k + 4) (Suc (length (fst e))) = fst e @ [0]"

definition name_ok :: "cstr \<Rightarrow> bool" where
  "name_ok nm \<longleftrightarrow> nm \<noteq> [] \<and> is_cstr nm \<and> length nm < 71"

definition dir_data :: "fs \<Rightarrow> t_node \<Rightarrow> u32" where
  "dir_data s nd = cell s (unat (indirect_pointer_block nd ! 0)) 0"

text \<open>
  A directory of fewer than 32 entries: they are in its first data block, in order.
\<close>

definition dir_ok :: "fs \<Rightarrow> t_node \<Rightarrow> entries \<Rightarrow> bool" where
  "dir_ok s nd es \<longleftrightarrow>
     node_ok nd \<and> state nd \<noteq> 0 \<and> length es < 32 \<and>
     file_size nd = of_nat (128 * length es) \<and>
     indirect_pointer_block nd ! 1 = 0 \<and>
     (if es = [] then indirect_pointer_block nd ! 0 = 0
      else indirect_pointer_block nd ! 0 \<noteq> 0 \<and>
        unat (indirect_pointer_block nd ! 0) < TOTAL_BLOCKS \<and>
        unat (dir_data s nd) < TOTAL_BLOCKS \<and>
        dir_data s nd \<noteq> indirect_pointer_block nd ! 0 \<and>
        length (disk s (unat (dir_data s nd))) = 4096 \<and>
        (\<forall>k < length es. slot_is (disk s (unat (dir_data s nd))) k (es ! k))) \<and>
     (\<forall>e \<in> set es. name_ok (fst e))"

definition entry_of :: "cstr \<times> u32 \<Rightarrow> t_dir_entry" where
  "entry_of e = \<lparr>entry_name = fst e, node_num = snd e, entry_data = zero_position\<rparr>"

lemma strread_slot:
  assumes "memget bs p (Suc (length nm)) = nm @ [0]" and "is_cstr nm"
  shows "strread (drop p bs) = Inr nm"
proof -
  have "drop p bs = (nm @ [0]) @ drop (p + Suc (length nm)) bs"
    using assms(1) unfolding memget_def by (metis add.commute append_take_drop_id drop_drop)
  then show ?thesis using assms(2) by (simp add: strread_terminated)
qed

lemma read_directory_entry_slot:
  assumes "slot_is (disk s b) k e" and "name_ok (fst e)" and "k < 32"
  shows "read_directory_entry s b (128 * k) = Inr (entry_of e)"
proof -
  have "128 * k + 4 \<le> 4096" using assms(3) by simp
  then show ?thesis
    using assms(1,2) strread_slot [of "disk s b" "128 * k + 4" "fst e"]
    by (simp add: read_directory_entry_def read_bytes_def const_simps slot_is_def name_ok_def
        entry_of_def bytes_to_int32_def memget_all le_dec_enc)
qed

section \<open>The loops as a scan\<close>

fun scan :: "'a process \<Rightarrow> entries \<Rightarrow> nat \<Rightarrow> t_dir_entry \<Rightarrow> 'a \<Rightarrow> error + (t_dir_entry \<times> 'a \<times> nat)" where
  "scan P [] k r acc = Inr (r, acc, k)"
| "scan P (e # es) k r acc =
     (if is_valid_entry r then Inr (r, acc, k)
      else bindE (P acc (entry_of e)) (\<lambda>(r, acc). scan P es (Suc k) r acc))"

definition at_byte :: "t_dir_entry \<Rightarrow> nat \<Rightarrow> t_dir_entry" where
  "at_byte r k = r\<lparr>entry_data := (entry_data r)\<lparr>byte_num := of_int (int (128 * k) - 128)\<rparr>\<rparr>"

definition at_block :: "t_dir_entry \<Rightarrow> u32 \<Rightarrow> t_dir_entry" where
  "at_block r b = r\<lparr>entry_data := (entry_data r)\<lparr>block_num := b\<rparr>\<rparr>"

lemma at_simps [simp]:
  "is_valid_entry (at_byte r k) = is_valid_entry r"
  "is_valid_entry (at_block r b) = is_valid_entry r"
  "\<not> is_valid_entry invalid_entry"
  by (simp_all add: at_byte_def at_block_def is_valid_entry_def invalid_entry_def)

lemma unat_last_byte:
  assumes "0 < n" and "n < 32"
  shows "unat (of_nat (128 * n) - 1 :: u32) = 128 * n - 1"
proof -
  have u: "unat (of_nat (128 * n) :: u32) = 128 * n"
    using assms by (intro unat_of_nat_small) simp
  then have "(1 :: u32) \<le> of_nat (128 * n)"
    using assms by (simp add: word_le_nat_alt del: of_nat_mult)
  from unat_sub [OF this] u show ?thesis by (simp del: of_nat_mult)
qed

lemma iterate_bytes_scan:
  assumes "0 < length es" and "length es < 32" and "byte_num pos = of_nat (128 * length es)"
    and "\<forall>k < length es. slot_is (disk s b) k (es ! k)" and "\<forall>e \<in> set es. name_ok (fst e)"
  shows "i \<le> length es \<Longrightarrow> iterate_bytes_from P s b True pos (128 * i) r acc =
    bindE (scan P (drop i es) i r acc) (\<lambda>(r, acc, k). Inr (at_byte r k, acc))"
proof (induction "length es - i" arbitrary: i r acc)
  case 0
  then have "i = length es" by simp
  moreover have "\<not> next_byte (128 * length es) (byte_num pos - 1) BLOCK_SIZE True"
    unfolding next_byte_def assms(3) unat_last_byte [OF assms(1,2)] using assms(1) by (cases es) auto
  ultimately show ?case
    by (simp add: iterate_bytes_from.simps [of P s b True pos] at_byte_def)
next
  case (Suc n)
  then have i: "i < length es" by simp
  then have d: "drop i es = es ! i # drop (Suc i) es" by (simp add: Cons_nth_drop_Suc)
  show ?case
  proof (cases "is_valid_entry r")
    case True
    then show ?thesis
      by (simp add: d iterate_bytes_from.simps [of P s b True pos] at_byte_def)
  next
    case False
    have "128 * i \<le> 128 * length es - 1" using i by simp
    then have nb: "next_byte (128 * i) (byte_num pos - 1) BLOCK_SIZE True"
      unfolding next_byte_def assms(3) unat_last_byte [OF assms(1,2)] by simp
    have rd: "read_directory_entry s b (128 * i) = Inr (entry_of (es ! i))"
      using assms i by (intro read_directory_entry_slot) auto
    have sum: "128 * i + 128 = 128 * Suc i" by simp
    have IH: "iterate_bytes_from P s b True pos (128 * i + 128) r' acc' =
        bindE (scan P (drop (Suc i) es) (Suc i) r' acc') (\<lambda>(r, acc, k). Inr (at_byte r k, acc))"
      for r' acc' unfolding sum using Suc.hyps(2) i by (intro Suc.hyps(1)) auto
    show ?thesis
      using False nb rd IH
      by (simp add: d iterate_bytes_from.simps [of P s b True pos "128 * i"] bindE_assoc
          case_prod_unfold)
  qed
qed

text \<open>The middle loop reads one block and stops: either a result was found or it was the last.\<close>

lemma bindE_cong_arg: "(\<And>x. f x = g x) \<Longrightarrow> bindE m f = bindE m g"
  by (cases m) auto

lemma iterate_blocks_scan:
  assumes "es \<noteq> []" and "length es < 32" and "byte_num pos = of_nat (128 * length es)"
    and "block_num pos = 0" and "cell s pb 0 = d" and "unat d < TOTAL_BLOCKS"
    and "\<forall>k < length es. slot_is (disk s (unat d)) k (es ! k)" and "\<forall>e \<in> set es. name_ok (fst e)"
  shows "iterate_blocks P s pb True pos acc =
    bindE (scan P es 0 invalid_entry acc) (\<lambda>(r, acc, k). Inr (at_block (at_byte r k) d, acc))"
proof -
  have stop: "iterate_blocks_from P s pb True pos (Suc 0) d r acc' = Inr (at_block r d, acc')"
    for r acc' using assms(4)
    by (simp add: iterate_blocks_from.simps [of P s pb True pos "Suc 0"] next_byte_def at_block_def)
  have bytes: "iterate_bytes_in_block P s (unat d) True pos acc =
      bindE (scan P es 0 invalid_entry acc) (\<lambda>(r, acc, k). Inr (at_byte r k, acc))"
    using iterate_bytes_scan [of es pos s "unat d" 0 P invalid_entry acc] assms
    by (simp add: iterate_bytes_in_block_def)
  have rd: "read_bytes s pb 0 4 = Inr (memget (disk s pb) 0 4)"
    and cell: "bytes_to_int32 (memget (disk s pb) 0 4) = d"
    using assms(5) by (simp_all add: read_bytes_def const_simps bytes_to_int32_memget cell_def)
  have "iterate_blocks P s pb True pos acc =
      bindE (iterate_bytes_in_block P s (unat d) True pos acc)
        (\<lambda>(r, acc). iterate_blocks_from P s pb True pos (Suc 0) d r acc)"
    using assms(4,6) rd cell
    by (simp add: iterate_blocks_def iterate_blocks_from.simps [of P s pb True pos 0]
        next_byte_def Let_def)
  then show ?thesis
    by (simp add: stop bytes bindE_assoc case_prod_unfold)
qed

definition dir_result :: "t_dir_entry \<Rightarrow> u32 \<Rightarrow> nat \<Rightarrow> t_dir_entry" where
  "dir_result r b k = r\<lparr>entry_data := \<lparr>pointer_block_num = - 1, block_num = b,
     byte_num = of_int (int (128 * k) - 128)\<rparr>\<rparr>"

lemma position_updates [simp]:
  "(p :: t_data_position)\<lparr>byte_num := a, block_num := b, pointer_block_num := c\<rparr> =
     \<lparr>pointer_block_num = c, block_num = b, byte_num = a\<rparr>"
  by (cases p) simp

lemma dir_ok_position:
  assumes "dir_ok s nd es"
  shows "get_next_write_position nd =
    \<lparr>pointer_block_num = 0, block_num = 0, byte_num = of_nat (128 * length es)\<rparr>"
proof -
  have "128 * length es < 4096" using assms by (simp add: dir_ok_def)
  then have "(of_nat (128 * length es) :: u32) div of_nat BLOCK_SIZE = 0"
    and "(of_nat (128 * length es) :: u32) mod of_nat BLOCK_SIZE = of_nat (128 * length es)"
    by (simp_all add: const_simps word_unat_eq_iff unat_div unat_mod unat_of_nat
        del: of_nat_mult)
  moreover have "file_size nd = of_nat (128 * length es)" using assms by (simp add: dir_ok_def)
  ultimately show ?thesis by (simp add: get_next_write_position_def Let_def del: of_nat_mult)
qed

lemma iterate_pointers_scan:
  assumes "dir_ok s nd es" and "es \<noteq> []"
  shows "iterate_pointers_blocks nd P s acc =
    bindE (scan P es 0 invalid_entry acc) (\<lambda>(r, acc, k). Inr (dir_result r (dir_data s nd) k, acc))"
proof -
  let ?pos = "get_next_write_position nd" and ?p = "indirect_pointer_block nd ! 0"
  note ok = assms(1) [unfolded dir_ok_def]
  note pos = dir_ok_position [OF assms(1)]
  then have pb0: "pointer_block_num ?pos = 0" by simp
  have stop: "iterate_pointers_from P s nd ?pos (Suc 0) r acc' = Inr (r, acc')" for r acc'
    using ok by (simp add: iterate_pointers_from.simps [of P s nd _ "Suc 0"] pointer_at_def)
  have blk: "iterate_blocks P s (unat ?p) True ?pos acc =
      bindE (scan P es 0 invalid_entry acc)
        (\<lambda>(r, acc, k). Inr (at_block (at_byte r k) (dir_data s nd), acc))"
    using ok assms(2) pos by (intro iterate_blocks_scan) (simp_all add: dir_data_def)
  have "iterate_pointers_from P s nd ?pos 0 invalid_entry acc =
      bindE (iterate_blocks P s (unat ?p) True ?pos acc) (\<lambda>(r, acc). Inr (r, acc))"
    using ok assms(2) pb0
    by (simp add: iterate_pointers_from.simps [of P s nd _ 0] pointer_at_def stop Let_def
        case_prod_unfold)
  then show ?thesis
    by (simp add: iterate_pointers_blocks_def blk bindE_assoc case_prod_unfold dir_result_def
        at_block_def at_byte_def)
qed

lemma iterate_pointers_empty:
  assumes "dir_ok s nd []"
  shows "iterate_pointers_blocks nd P s acc =
    Inr (invalid_entry\<lparr>entry_data := zero_position\<lparr>pointer_block_num := - 1\<rparr>\<rparr>, acc)"
  using assms
  by (simp add: iterate_pointers_blocks_def iterate_pointers_from.simps [of P s nd _ 0]
      pointer_at_def dir_ok_def invalid_entry_def)

section \<open>Searching the contents\<close>

lemma valid_simps [simp]:
  "is_valid_entry (entry_of e) \<longleftrightarrow> fst e \<noteq> []"
  "is_valid_entry (dir_result r b k) \<longleftrightarrow> is_valid_entry r"
  "entry_name (dir_result r b k) = entry_name r"
  "node_num (dir_result r b k) = node_num r"
  "entry_name invalid_entry = []"
  "node_num invalid_entry = 0"
  by (simp_all add: is_valid_entry_def entry_of_def dir_result_def invalid_entry_def)

lemma scan_valid: "is_valid_entry r \<Longrightarrow> scan P es k r acc = Inr (r, acc, k)"
  by (cases es) auto

lemma scan_find_absent:
  "nm \<notin> fst ` set es \<Longrightarrow>
   scan (find_entry nm) es k invalid_entry () = Inr (invalid_entry, (), k + length es)"
  by (induction es arbitrary: k) (auto simp: find_entry_def entry_of_def)

lemma scan_find_present:
  "nm \<notin> fst ` set pre \<Longrightarrow> nm \<noteq> [] \<Longrightarrow>
   scan (find_entry nm) (pre @ (nm, n) # post) k invalid_entry () =
     Inr (entry_of (nm, n), (), Suc (k + length pre))"
  by (induction pre arbitrary: k) (auto simp: find_entry_def scan_valid entry_of_def is_valid_entry_def)

text \<open>An iteration that never stops early folds over all entries.\<close>

lemma scan_all:
  assumes "\<And>acc e. P acc e = Inr (invalid_entry, f acc e)"
  shows "scan P es k invalid_entry acc = Inr (invalid_entry, foldl f acc (map entry_of es), k + length es)"
  by (induction es arbitrary: k acc) (auto simp: assms)

lemma dir_names: "dir_ok s nd es \<Longrightarrow> e \<in> set es \<Longrightarrow> fst e \<noteq> []"
  by (auto simp: dir_ok_def name_ok_def)

lemma get_entry_absent:
  assumes "dir_ok s nd es" and "nm \<notin> fst ` set es"
  shows "\<exists>e. get_entry nd nm s = Inr e \<and> \<not> is_valid_entry e \<and> node_num e = 0"
proof (cases "es = []")
  case True
  with assms show ?thesis
    by (auto simp: get_entry_def iterate_pointers_empty is_valid_entry_def invalid_entry_def)
next
  case False
  with assms show ?thesis
    by (auto simp: get_entry_def iterate_pointers_scan scan_find_absent)
qed

lemma get_entry_present:
  assumes "dir_ok s nd (pre @ (nm, n) # post)" and "nm \<notin> fst ` set pre"
  shows "get_entry nd nm s = Inr \<lparr>entry_name = nm, node_num = n,
    entry_data = \<lparr>pointer_block_num = - 1, block_num = dir_data s nd,
      byte_num = of_nat (128 * length pre)\<rparr>\<rparr>"
proof -
  have "nm \<noteq> []" using dir_names [OF assms(1), of "(nm, n)"] by simp
  then show ?thesis
    using assms by (simp add: get_entry_def iterate_pointers_scan scan_find_present entry_of_def
        dir_result_def)
qed

lemma first_entry:
  "nm \<in> fst ` set es \<Longrightarrow> \<exists>pre n post. es = pre @ (nm, n) # post \<and> nm \<notin> fst ` set pre"
  using split_list_first_prop [of es "\<lambda>e. fst e = nm"] by force

lemma get_entry_lookup:
  assumes "dir_ok s nd es"
  shows "\<exists>e. get_entry nd nm s = Inr e \<and> (is_valid_entry e \<longleftrightarrow> map_of es nm \<noteq> None) \<and>
    (\<forall>n. map_of es nm = Some n \<longrightarrow> entry_name e = nm \<and> node_num e = n)"
proof (cases "nm \<in> fst ` set es")
  case True
  from first_entry [OF True]
  obtain pre n post where es: "es = pre @ (nm, n) # post" "nm \<notin> fst ` set pre" by blast
  from es(2) have "map_of pre nm = None" by (rule map_of_eq_None_iff [THEN iffD2])
  then have "map_of es nm = Some n" unfolding es(1) by (simp add: map_add_def)
  moreover have "nm \<noteq> []" using dir_names [OF assms, of "(nm, n)"] es by simp
  ultimately show ?thesis
    using get_entry_present [of s nd pre nm n post] assms es by (simp add: is_valid_entry_def)
next
  case False
  then have "map_of es nm = None" by (simp add: map_of_eq_None_iff)
  with get_entry_absent [OF assms False] show ?thesis by auto
qed

end
