(* ===== verification/Dir_Update.thy ===== *)
theory Dir_Update
  imports Dir_Spec
begin

text \<open>
  Adding an entry to a directory appends it to the contents, deleting one removes its first
  occurrence: \<open>add_directory_entry\<close> and \<open>delete_directory_entry\<close> against the list operations.
\<close>

section \<open>Slots of a block\<close>

lemma slot_put:
  assumes "length bs = 4096" and "n < 32" and "length buf = 124"
    and "take (Suc (length nm)) buf = nm @ [0]" and "length nm < 71"
  shows "slot_is (memput (memput bs (128 * n) (le_enc 4 num)) (128 * n + 4) buf) n (nm, num)"
proof -
  let ?a = "memput bs (128 * n) (le_enc 4 num)"
  have len: "length ?a = 4096" using assms by (simp add: length_memput)
  have "memget (memput ?a (128 * n + 4) buf) (128 * n) 4 = le_enc 4 num"
    using assms len by (simp add: buf_simps)
  moreover have "memget (memput ?a (128 * n + 4) buf) (128 * n + 4) 124 = buf"
    using assms len by (simp add: buf_simps)
  then have "memget (memput ?a (128 * n + 4) buf) (128 * n + 4) (Suc (length nm)) =
      memget buf 0 (Suc (length nm))"
    using memget_memget [of 0 "Suc (length nm)" 124 "memput ?a (128 * n + 4) buf" "128 * n + 4"]
      assms(5) by simp
  ultimately show ?thesis using assms by (simp add: slot_is_def memget_def)
qed

lemma slot_keep:
  assumes "slot_is bs k e" and "k < n" and "n < 32" and "length bs = 4096" and "length buf = 124"
    and "length (fst e) < 71"
  shows "slot_is (memput (memput bs (128 * n) (le_enc 4 num)) (128 * n + 4) buf) k e"
proof -
  have "128 * Suc k \<le> 128 * n" using assms(2) by (intro mult_le_mono2) simp
  then show ?thesis using assms by (simp add: slot_is_def buf_simps)
qed

text \<open>Bytes stored from entry \<open>j\<close> on leave the entries before it.\<close>

lemma slot_before:
  assumes "slot_is bs k e" and "k < j" and "128 * j + length xs \<le> 4096" and "length bs = 4096"
    and "length (fst e) < 71"
  shows "slot_is (memput bs (128 * j) xs) k e"
proof -
  have "128 * Suc k \<le> 128 * j" using assms(2) by (intro mult_le_mono2) simp
  then show ?thesis using assms by (simp add: slot_is_def buf_simps)
qed

section \<open>Adding an entry\<close>

lemma entry_name_buffer_spec:
  assumes "length nm < 71"
  shows "\<exists>buf. entry_name_buffer E nm s = Inr (buf, s\<lparr>tick := Suc (tick s)\<rparr>) \<and>
    length buf = 124 \<and> take (Suc (length nm)) buf = nm @ [0]"
  using assms by (simp add: entry_name_buffer_def)

lemma byte_num_values:
  assumes "n < 32"
  shows "unat (of_nat (128 * n) :: u32) = 128 * n"
    and "unat (of_nat (128 * n) + 4 :: u32) = 128 * n + 4"
proof -
  show u: "unat (of_nat (128 * n) :: u32) = 128 * n"
    using assms by (intro unat_of_nat_small) simp
  have "unat (of_nat (128 * n + 4) :: u32) = 128 * n + 4"
    using assms by (intro unat_of_nat_small) simp
  then show "unat (of_nat (128 * n) + 4 :: u32) = 128 * n + 4"
    by (simp only: of_nat_add of_nat_numeral)
qed

text \<open>Storing an entry at the end of a data block, and the directory that results.\<close>

definition put_entry :: "bytes \<Rightarrow> nat \<Rightarrow> u32 \<Rightarrow> bytes \<Rightarrow> bytes" where
  "put_entry bs n num buf = memput (memput bs (128 * n) (le_enc 4 num)) (128 * n + 4) buf"

lemma length_put_entry:
  "length bs = 4096 \<Longrightarrow> n < 32 \<Longrightarrow> length buf = 124 \<Longrightarrow> length (put_entry bs n num buf) = 4096"
  by (simp add: put_entry_def length_memput)

lemma write_entry:
  assumes "n < 32" and "length buf = 124"
  shows "bindE (write_bytes s b (unat (of_nat (128 * n) :: u32)) (le_enc 4 num))
      (\<lambda>s. bindE (write_bytes s b (unat (of_nat (128 * n) + 4 :: u32)) buf) (\<lambda>s. Inr (f s))) =
    Inr (f (s\<lparr>disk := (disk s)(b := put_entry (disk s b) n num buf)\<rparr>))"
  unfolding byte_num_values [OF assms(1)]
  using assms by (simp add: write_bytes_def const_simps put_entry_def)

lemma slots_put_entry:
  assumes "\<forall>k < length es. slot_is bs k (es ! k)" and "\<forall>e \<in> set es. name_ok (fst e)"
    and "length es < 32" and "length bs = 4096" and "length buf = 124"
    and "take (Suc (length nm)) buf = nm @ [0]" and "length nm < 71"
  shows "k < length (es @ [(nm, num)]) \<Longrightarrow>
    slot_is (put_entry bs (length es) num buf) k ((es @ [(nm, num)]) ! k)"
proof (cases "k < length es")
  case True
  then have "name_ok (fst (es ! k))" using assms(2) by simp
  with True assms slot_keep [of bs k "es ! k" "length es" buf num] show ?thesis
    by (simp add: put_entry_def nth_append name_ok_def)
next
  case False
  assume "k < length (es @ [(nm, num)])"
  with False have "k = length es" by simp
  with assms slot_put [of bs "length es" buf nm num] show ?thesis by (simp add: put_entry_def)
qed

lemma dir_ok_after_put:
  assumes "node_ok nd" and "state nd \<noteq> 0" and "length es < 31"
    and "file_size nd = of_nat (128 * length es)"
    and "indirect_pointer_block nd ! 1 = 0" and "indirect_pointer_block nd ! 0 \<noteq> 0"
    and "unat (indirect_pointer_block nd ! 0) < TOTAL_BLOCKS"
    and "dir_data s nd = d" and "unat d < TOTAL_BLOCKS" and "d \<noteq> indirect_pointer_block nd ! 0"
    and "length (disk s (unat d)) = 4096"
    and "\<forall>k < length es. slot_is (disk s (unat d)) k (es ! k)" and "\<forall>e \<in> set es. name_ok (fst e)"
    and "length buf = 124" and "take (Suc (length nm)) buf = nm @ [0]" and "name_ok nm"
    and s': "s' = s\<lparr>disk := (disk s)(unat d := put_entry (disk s (unat d)) (length es) num buf)\<rparr>"
  shows "dir_ok s' (nd\<lparr>file_size := file_size nd + 128\<rparr>) (es @ [(nm, num)])"
proof -
  let ?nd = "nd\<lparr>file_size := file_size nd + 128\<rparr>"
  have p: "unat (indirect_pointer_block nd ! 0) \<noteq> unat d" using assms(10) by (simp add: word_unat_eq_iff)
  have d: "dir_data s' ?nd = d" using assms(8) p by (simp add: dir_data_def cell_def s')
  have "file_size nd + 128 = of_nat (128 * length (es @ [(nm, num)]))"
    using assms(4) by (simp add: algebra_simps)
  moreover have "\<forall>k < length (es @ [(nm, num)]).
      slot_is (disk s' (unat d)) k ((es @ [(nm, num)]) ! k)"
    using slots_put_entry [of es "disk s (unat d)" buf nm _ num] assms by (simp add: name_ok_def)
  moreover have "length (disk s' (unat d)) = 4096"
    using assms by (simp add: length_put_entry)
  ultimately show ?thesis
    using assms d by (auto simp: dir_ok_def node_ok_def)
qed

lemma add_entry_nonempty:
  assumes "dir_ok s nd es" and "es \<noteq> []" and "length es < 31" and "name_ok nm"
  shows "\<exists>buf. length buf = 124 \<and>
    add_directory_entry E nd nm num s = Inr (nd\<lparr>file_size := file_size nd + 128\<rparr>,
      s\<lparr>tick := Suc (tick s), disk := (disk s)(unat (dir_data s nd) :=
        put_entry (disk s (unat (dir_data s nd))) (length es) num buf)\<rparr>) \<and>
    dir_ok (s\<lparr>tick := Suc (tick s), disk := (disk s)(unat (dir_data s nd) :=
        put_entry (disk s (unat (dir_data s nd))) (length es) num buf)\<rparr>)
      (nd\<lparr>file_size := file_size nd + 128\<rparr>) (es @ [(nm, num)])"
proof -
  let ?t = "s\<lparr>tick := Suc (tick s)\<rparr>" and ?pos = "get_next_write_position nd" and ?d = "dir_data s nd"
  note ok = assms(1) [unfolded dir_ok_def]
  have pos: "pointer_block_num ?pos = 0" "block_num ?pos = 0"
    "byte_num ?pos = of_nat (128 * length es)"
    using dir_ok_position [OF assms(1)] by simp_all
  obtain buf where buf: "entry_name_buffer E nm s = Inr (buf, ?t)" "length buf = 124"
      "take (Suc (length nm)) buf = nm @ [0]"
    using entry_name_buffer_spec [of nm E s] assms(4) by (auto simp: name_ok_def)
  have rd: "read_next_data_block E nd ?pos ?t = Inr (unat ?d, nd, ?t)"
    using ok assms(2) pos
    by (simp add: read_next_data_block_def pointer_at_def read_bytes_def const_simps
        bytes_to_int32_memget dir_data_def cell_def)
  have "add_directory_entry E nd nm num s = Inr (nd\<lparr>file_size := file_size nd + 128\<rparr>,
      ?t\<lparr>disk := (disk ?t)(unat ?d := put_entry (disk ?t (unat ?d)) (length es) num buf)\<rparr>)"
    using buf rd pos(3) write_entry [of "length es" buf ?t "unat ?d" num
        "\<lambda>s. (nd\<lparr>file_size := file_size nd + 128\<rparr>, s)"] assms(3)
    by (simp add: add_directory_entry_def Let_def del: of_nat_mult)
  moreover have "dir_ok (?t\<lparr>disk := (disk ?t)(unat ?d := put_entry (disk ?t (unat ?d)) (length es) num buf)\<rparr>)
      (nd\<lparr>file_size := file_size nd + 128\<rparr>) (es @ [(nm, num)])"
    using ok assms(2-4) buf
    by (intro dir_ok_after_put [where d = ?d and s = ?t and buf = buf])
       (simp_all add: dir_data_def cell_def)
  ultimately show ?thesis using buf(2) by auto
qed

context bitarray_lib
begin

text \<open>The first entry of a directory takes a pointer block and a data block.\<close>

lemma read_next_data_block_fresh:
  assumes "bitmap_ok s" and "disk_ok s" and "2 \<le> card (free_data E s)" and "node_ok nd"
    and "indirect_pointer_block nd ! 0 = 0"
    and "pointer_block_num pos = 0" and "block_num pos = 0"
  shows "\<exists>p d s'. read_next_data_block E nd pos s =
      Inr (unat d, nd\<lparr>indirect_pointer_block := (indirect_pointer_block nd)[0 := p]\<rparr>, s') \<and>
    {unat p, unat d} \<subseteq> free_data E s \<and> p \<noteq> d \<and> p \<noteq> 0 \<and> unat p < TOTAL_BLOCKS \<and> unat d < TOTAL_BLOCKS \<and>
    free_data E s' = free_data E s - {unat p, unat d} \<and> bitmap_ok s' \<and> tick s' = tick s \<and>
    disk s' = (disk s)(unat p := memput (disk s (unat p)) 0 (le_enc 4 d)) \<and>
    (\<forall>k < 3000. used E s' k \<longleftrightarrow> k = unat p \<or> k = unat d \<or> used E s k)"
proof -
  have "free_data E s \<noteq> {}" using assms(3) by auto
  then obtain p s1 where p: "get_free_data_block E s = Inr (p, s1)" "bitmap_ok s1"
      "disk s1 = disk s" "tick s1 = tick s" "34 \<le> unat p" "unat p < 3000" "unat p \<in> free_data E s"
      "free_data E s1 = free_data E s - {unat p}" "\<forall>k < 3000. used E s1 k \<longleftrightarrow> k = unat p \<or> used E s k"
    using get_free_data_block_spec [OF assms(1)] by blast
  have "1 \<le> card (free_data E s1)" using assms(3) p(7,8) by (simp add: card_Diff_singleton)
  then have "free_data E s1 \<noteq> {}" by auto
  then obtain d s2 where d: "get_free_data_block E s1 = Inr (d, s2)" "bitmap_ok s2"
      "disk s2 = disk s1" "tick s2 = tick s1" "34 \<le> unat d" "unat d < 3000" "unat d \<in> free_data E s1"
      "free_data E s2 = free_data E s1 - {unat d}" "\<forall>k < 3000. used E s2 k \<longleftrightarrow> k = unat d \<or> used E s1 k"
    using get_free_data_block_spec [OF p(2)] by blast
  let ?s3 = "s2\<lparr>disk := (disk s2)(unat p := memput (disk s2 (unat p)) 0 (le_enc 4 d))\<rparr>"
  have p0: "p \<noteq> 0" using p(5) by auto
  have "read_next_data_block E nd pos s =
      Inr (unat d, nd\<lparr>indirect_pointer_block := (indirect_pointer_block nd)[0 := p]\<rparr>, ?s3)"
    using assms(4-7) p(1,6) d(1,6)
    by (simp add: read_next_data_block_def pointer_at_def create_pointers_block_in_node_def
        create_data_block_in_pointer_block_def set_pointer_def write_bytes_def const_simps node_ok_def)
  then show ?thesis
    using p d p0 by (intro exI [of _ p] exI [of _ d] exI [of _ ?s3]) (auto simp: const_simps)
qed

lemma add_entry_empty:
  assumes "dir_ok s nd []" and "name_ok nm" and "disk_ok s" and "bitmap_ok s"
    and "2 \<le> card (free_data E s)"
  shows "\<exists>p d s'. add_directory_entry E nd nm num s =
      Inr (nd\<lparr>indirect_pointer_block := (indirect_pointer_block nd)[0 := p],
        file_size := file_size nd + 128\<rparr>, s') \<and>
    dir_ok s' (nd\<lparr>indirect_pointer_block := (indirect_pointer_block nd)[0 := p],
        file_size := file_size nd + 128\<rparr>) [(nm, num)] \<and>
    dir_data s' (nd\<lparr>indirect_pointer_block := (indirect_pointer_block nd)[0 := p],
        file_size := file_size nd + 128\<rparr>) = d \<and>
    {unat p, unat d} \<subseteq> free_data E s \<and> p \<noteq> d \<and> free_data E s' = free_data E s - {unat p, unat d} \<and>
    bitmap_ok s' \<and> disk_ok s' \<and> tick s' = Suc (tick s) \<and>
    (\<forall>b. b \<noteq> unat p \<and> b \<noteq> unat d \<longrightarrow> disk s' b = disk s b) \<and>
    (\<forall>k < 3000. used E s' k \<longleftrightarrow> k = unat p \<or> k = unat d \<or> used E s k)"
proof -
  let ?t = "s\<lparr>tick := Suc (tick s)\<rparr>" and ?pos = "get_next_write_position nd"
  note ok = assms(1) [unfolded dir_ok_def]
  have pos: "pointer_block_num ?pos = 0" "block_num ?pos = 0" "byte_num ?pos = 0"
    using dir_ok_position [OF assms(1)] by simp_all
  obtain buf where buf: "entry_name_buffer E nm s = Inr (buf, ?t)" "length buf = 124"
      "take (Suc (length nm)) buf = nm @ [0]"
    using entry_name_buffer_spec [of nm E s] assms(2) by (auto simp: name_ok_def)
  have "bitmap_ok ?t" and "disk_ok ?t" and "2 \<le> card (free_data E ?t)"
    using assms by (simp_all add: disk_ok_def)
  from read_next_data_block_fresh [OF this, of nd ?pos] ok pos
  obtain p d s1 where rd: "read_next_data_block E nd ?pos ?t =
      Inr (unat d, nd\<lparr>indirect_pointer_block := (indirect_pointer_block nd)[0 := p]\<rparr>, s1)"
    and pd: "{unat p, unat d} \<subseteq> free_data E s" "p \<noteq> d" "p \<noteq> 0" "unat p < TOTAL_BLOCKS"
      "unat d < TOTAL_BLOCKS" "free_data E s1 = free_data E s - {unat p, unat d}" "bitmap_ok s1"
      "tick s1 = Suc (tick s)"
      "disk s1 = (disk s)(unat p := memput (disk s (unat p)) 0 (le_enc 4 d))"
      "\<forall>k < 3000. used E s1 k \<longleftrightarrow> k = unat p \<or> k = unat d \<or> used E s k"
    by auto
  let ?nd = "nd\<lparr>indirect_pointer_block := (indirect_pointer_block nd)[0 := p]\<rparr>"
  let ?s2 = "s1\<lparr>disk := (disk s1)(unat d := put_entry (disk s1 (unat d)) 0 num buf)\<rparr>"
  have ne: "unat p \<noteq> unat d" using pd(2) by (simp add: word_unat_eq_iff)
  have len: "length (disk s (unat p)) = 4096" "length (disk s (unat d)) = 4096"
    using assms(3) pd(4,5) by (simp_all add: disk_ok_def const_simps)
  have add: "add_directory_entry E nd nm num s = Inr (?nd\<lparr>file_size := file_size nd + 128\<rparr>, ?s2)"
    using buf rd pos(3) write_entry [of 0 buf s1 "unat d" num
        "\<lambda>s. (?nd\<lparr>file_size := file_size nd + 128\<rparr>, s)"]
    by (simp add: add_directory_entry_def Let_def)
  have dd: "dir_data s1 ?nd = d"
    using ok len by (simp add: dir_data_def cell_def node_ok_def pd(9) memget_memput_same le_dec_enc)
  have "dir_ok ?s2 (?nd\<lparr>file_size := file_size ?nd + 128\<rparr>) ([] @ [(nm, num)])"
    using ok dd pd ne len buf assms(2)
    by (intro dir_ok_after_put [where d = d and s = s1 and buf = buf])
       (simp_all add: node_ok_def pd(9))
  moreover have "disk_ok ?s2"
    using assms(3) len ne buf(2)
    by (auto simp: disk_ok_def pd(9) length_memput length_put_entry const_simps)
  moreover have "dir_data ?s2 (?nd\<lparr>file_size := file_size nd + 128\<rparr>) = d"
    using dd ne ok by (simp add: dir_data_def cell_def node_ok_def)
  ultimately show ?thesis
    using add pd by (intro exI [of _ p] exI [of _ d] exI [of _ ?s2]) auto
qed

end

section \<open>Deleting an entry\<close>

primrec del_entry :: "cstr \<Rightarrow> entries \<Rightarrow> entries" where
  "del_entry nm [] = []"
| "del_entry nm (e # es) = (if fst e = nm then es else e # del_entry nm es)"

lemma del_entry_first:
  "nm \<notin> fst ` set pre \<Longrightarrow> del_entry nm (pre @ (nm, n) # post) = pre @ post"
  by (induction pre) auto

lemma del_entry_absent: "nm \<notin> fst ` set es \<Longrightarrow> del_entry nm es = es"
  by (induction es) auto

lemma del_entry_subset: "set (del_entry nm es) \<subseteq> set es"
  by (induction es) auto

text \<open>The page of a directory once entry \<open>j\<close> is deleted: the bytes from it on have been copied over.\<close>

definition cut_page :: "env \<Rightarrow> bytes \<Rightarrow> nat \<Rightarrow> bytes" where
  "cut_page E bs j = memcpy_within E bs (128 * j) (128 * j + DIR_ENTRY_SIZE) (BLOCK_SIZE - (128 * j + DIR_ENTRY_SIZE))"

lemma cut_page_put:
  assumes "length bs = 4096" and "j < 32"
  shows "\<exists>xs. cut_page E bs j = memput bs (128 * j) xs \<and> length xs = 4096 - (128 * j + 128)"
proof -
  let ?n = "4096 - (128 * j + 128)"
  have "length (memget bs (128 * j + 128) ?n) = ?n" using assms by (simp add: length_memget)
  moreover have "length (map (memcpy_overlap E bs (128 * j) (128 * j + 128) ?n) [0..<?n]) = ?n" by simp
  ultimately show ?thesis
    unfolding cut_page_def memcpy_within_def const_simps by (simp only: split: if_split) blast
qed

lemma length_cut_page:
  assumes "length bs = 4096" and "j < 32"
  shows "length (cut_page E bs j) = 4096"
  using cut_page_put [OF assms, of E] assms by (auto simp: length_memput)

lemma slot_cut:
  assumes "slot_is bs k e" and "k < j" and "j < 32" and "length bs = 4096" and "length (fst e) < 71"
  shows "slot_is (cut_page E bs j) k e"
proof -
  obtain xs where "cut_page E bs j = memput bs (128 * j) xs" "length xs = 4096 - (128 * j + 128)"
    using cut_page_put [OF assms(4,3), of E] by blast
  with assms show ?thesis by (simp add: slot_before)
qed

text \<open>
  The name is that of the last entry, or of none. The copy that deletes an entry of another place
  overlaps itself, and ISO C says nothing of the entries behind.
\<close>

definition is_last :: "cstr \<Rightarrow> entries \<Rightarrow> bool" where
  "is_last nm es \<longleftrightarrow> nm \<notin> fst ` set (butlast es)"

lemma is_lastE:
  assumes "is_last nm es" and "nm \<in> fst ` set es"
  obtains pre n where "es = pre @ [(nm, n)]" and "nm \<notin> fst ` set pre"
proof (cases es rule: rev_cases)
  case Nil
  then show thesis using assms(2) by simp
next
  case (snoc pre e)
  then have "nm \<notin> fst ` set pre" "fst e = nm" using assms by (auto simp: is_last_def)
  with snoc show thesis by (cases e) (auto intro: that)
qed

lemma is_last_absent: "nm \<notin> fst ` set es \<Longrightarrow> is_last nm es"
  using in_set_butlastD by (fastforce simp: is_last_def)

definition after_delete :: "t_node \<Rightarrow> entries \<Rightarrow> t_node" where
  "after_delete nd es =
     (if es = [] then nd\<lparr>file_size := 0, indirect_pointer_block := (indirect_pointer_block nd)[0 := 0]\<rparr>
      else nd\<lparr>file_size := file_size nd - 128\<rparr>)"

lemma of_nat_entries_zero: "n < 32 \<Longrightarrow> (of_nat (128 * n) :: u32) = 0 \<longleftrightarrow> n = 0"
  using byte_num_values(1) [of n] by (auto simp del: of_nat_mult)

lemma delete_entry_present:
  assumes "dir_ok s nd (pre @ (nm, n) # post)" and "nm \<notin> fst ` set pre"
  defines "d \<equiv> unat (dir_data s nd)"
  shows "delete_directory_entry E nd nm s =
    Inr (after_delete nd (pre @ post), s\<lparr>disk := (disk s)(d := cut_page E (disk s d) (length pre))\<rparr>)"
proof -
  note ok = assms(1) [unfolded dir_ok_def]
  have d: "d < TOTAL_BLOCKS" using ok by (simp_all add: d_def)
  have lp: "length pre < 32" using ok by simp
  have nm: "nm \<noteq> []" using dir_names [OF assms(1), of "(nm, n)"] by simp
  have fs: "file_size nd - 128 = of_nat (128 * length (pre @ post))" using ok by simp
  have z: "file_size nd - 128 = 0 \<longleftrightarrow> pre @ post = []"
    unfolding fs using ok of_nat_entries_zero [of "length (pre @ post)"]
    by (simp only: length_0_conv) simp
  have b: "unat (of_nat (128 * length pre) :: u32) = 128 * length pre"
    using lp by (rule byte_num_values)
  show ?thesis
    using get_entry_present [OF assms(1,2)] nm d lp z
    by (auto simp: delete_directory_entry_def is_valid_entry_def Let_def b read_bytes_def cut_page_def
        const_simps set_pointer_def after_delete_def simp flip: d_def simp del: of_nat_mult)
qed

lemma delete_entry_last:
  fixes E :: env
  assumes "dir_ok s nd (es @ [(nm, n)])"
  defines "d \<equiv> unat (dir_data s nd)"
  defines "s' \<equiv> s\<lparr>disk := (disk s)(d := cut_page E (disk s d) (length es))\<rparr>"
  shows "dir_ok s' (after_delete nd es) es"
proof -
  note ok = assms(1) [unfolded dir_ok_def]
  have len: "length (disk s d) = 4096" using ok by (simp add: d_def)
  have le: "length es < 32" using ok by simp
  have fs: "file_size nd - 128 = of_nat (128 * length es)" using ok by simp
  have "unat (indirect_pointer_block nd ! 0) \<noteq> d" using ok by (auto simp: d_def word_unat_eq_iff)
  then have dd: "dir_data s' nd = dir_data s nd" by (simp add: dir_data_def cell_def s'_def)
  have slots: "\<forall>k < length es. slot_is (disk s' d) k (es ! k)"
  proof (intro allI impI)
    fix k assume k: "k < length es"
    have "slot_is (disk s d) k ((es @ [(nm, n)]) ! k)" using ok k by (simp add: d_def)
    moreover have "length (fst (es ! k)) < 71" using ok k by (auto simp: name_ok_def)
    ultimately show "slot_is (disk s' d) k (es ! k)"
      using slot_cut [OF _ k le len] k by (simp add: nth_append s'_def)
  qed
  show ?thesis
  proof (cases "es = []")
    case True
    then show ?thesis using ok by (simp add: dir_ok_def after_delete_def node_ok_def)
  next
    case False
    have "dir_data s' (nd\<lparr>file_size := file_size nd - 128\<rparr>) = dir_data s nd"
      using dd by (simp add: dir_data_def)
    moreover have "length (disk s' d) = 4096" using len le by (simp add: s'_def length_cut_page)
    ultimately show ?thesis
      using False ok fs slots unfolding dir_ok_def after_delete_def
      by (auto simp: node_ok_def simp flip: d_def)
  qed
qed

lemma delete_entry_absent:
  assumes "dir_ok s nd es" and "nm \<notin> fst ` set es"
  shows "delete_directory_entry E nd nm s = Inr (nd, s)"
  using get_entry_absent [OF assms] by (auto simp: delete_directory_entry_def)

section \<open>A copy from the top\<close>

text \<open>
  A \<open>memcpy\<close> that stores its bytes from the last to the first, as ISO C allows. On the ranges of
  \<open>delete_directory_entry\<close> it repeats the last 128 bytes of the page.
\<close>

primrec copy_down :: "bytes \<Rightarrow> nat \<Rightarrow> nat \<Rightarrow> nat \<Rightarrow> bytes" where
  "copy_down bs dst src 0 = bs"
| "copy_down bs dst src (Suc n) = copy_down (bs[dst + n := bs ! (src + n)]) dst src n"

definition descending :: "env \<Rightarrow> env" where
  "descending E = E\<lparr>memcpy_overlap := \<lambda>bs dst src n i. copy_down bs dst src n ! (dst + i)\<rparr>"

lemma copy_down_outside: "q < dst \<or> dst + n \<le> q \<Longrightarrow> copy_down bs dst src n ! q = bs ! q"
  by (induction n arbitrary: bs) auto

lemma copy_down_step:
  assumes "i < n" and "0 < d" and "dst + d + n \<le> length bs"
  shows "copy_down bs dst (dst + d) n ! (dst + i) =
    (if i + d < n then copy_down bs dst (dst + d) n ! (dst + i + d) else bs ! (dst + d + i))"
  using assms
proof (induction n arbitrary: bs)
  case (Suc n)
  let ?bs = "bs[dst + n := bs ! (dst + d + n)]"
  have top: "copy_down ?bs dst (dst + d) n ! (dst + n) = bs ! (dst + d + n)"
    using Suc.prems by (simp add: copy_down_outside)
  show ?case
  proof (cases "i = n")
    case True
    then show ?thesis using top Suc.prems(2) by simp
  next
    case False
    then have i: "i < n" using Suc.prems(1) by simp
    have ih: "copy_down ?bs dst (dst + d) n ! (dst + i) =
        (if i + d < n then copy_down ?bs dst (dst + d) n ! (dst + i + d) else ?bs ! (dst + d + i))"
      using Suc.prems i by (intro Suc.IH) simp_all
    consider "i + d < n" | "i + d = n" | "n < i + d" by linarith
    then show ?thesis
    proof cases
      case 2
      then have e: "dst + d + i = dst + n" "dst + i + d = dst + n" by simp_all
      have "?bs ! (dst + d + i) = bs ! (dst + d + n)" unfolding e(1) using Suc.prems(3) by simp
      then show ?thesis using ih top 2 by (simp add: e(2))
    qed (use ih Suc.prems in \<open>simp_all add: add_ac\<close>)
  qed
qed simp

lemma descending_cut_nth:
  assumes "length bs = 4096" and "j \<le> k" and "k < 31" and "x < 128"
  shows "cut_page (descending E) bs j ! (128 * k + x) = bs ! (128 * 31 + x)"
proof (cases "j = 30")
  case True
  then have "k = 30" using assms(2,3) by simp
  then show ?thesis
    using True assms(1,4) by (simp add: cut_page_def memcpy_within_def const_simps memput_nth length_memget memget_nth)
next
  case False
  let ?d = "128 * j" and ?n = "4096 - (128 * j + 128)"
  let ?c = "copy_down bs ?d (?d + 128) ?n"
  have j: "j < 30" using False assms(2,3) by simp
  have page: "cut_page (descending E) bs j ! (?d + i) = ?c ! (?d + i)" if "i < ?n" for i
    using that j assms(1) by (simp add: cut_page_def memcpy_within_def const_simps descending_def memput_nth)
  have copy: "?c ! (128 * k + x) = bs ! (128 * 31 + x)" if "j \<le> k" "k < 31" for k
    using that
  proof (induction "30 - k" arbitrary: k)
    case 0
    then have k: "k = 30" by simp
    let ?i = "128 * (30 - j) + x"
    have e: "?d + ?i = 128 * 30 + x" "?d + 128 + ?i = 128 * 31 + x" "?i < ?n" "\<not> ?i + 128 < ?n" "?d + 128 + ?n \<le> length bs"
      using j assms(1,4) by (simp_all add: diff_mult_distrib2)
    show ?case using copy_down_step [OF e(3) _ e(5)] e(4) unfolding k e(1,2) by simp
  next
    case (Suc m)
    then have "?c ! (128 * Suc k + x) = bs ! (128 * 31 + x)" by (intro Suc.hyps(1)) simp_all
    moreover have "?c ! (?d + (128 * (k - j) + x)) = ?c ! (?d + (128 * (k - j) + x) + 128)"
      using copy_down_step [of "128 * (k - j) + x" ?n 128 ?d bs] Suc.prems Suc.hyps(2) j assms(1,4) by auto
    ultimately show ?case using Suc.prems by (simp add: diff_mult_distrib2 algebra_simps)
  qed
  have i: "?d + (128 * (k - j) + x) = 128 * k + x" and n: "128 * (k - j) + x < ?n"
    using assms(2-4) j by auto
  show ?thesis using page [OF n] copy [OF assms(2,3)] unfolding i by simp
qed

lemma descending_cut:
  assumes "length bs = 4096" and "j \<le> k" and "k < 31"
  shows "memget (cut_page (descending E) bs j) (128 * k) 128 = memget bs (128 * 31) 128"
proof (rule nth_equalityI)
  have len: "length (cut_page (descending E) bs j) = 4096" using assms by (simp add: length_cut_page)
  then show "length (memget (cut_page (descending E) bs j) (128 * k) 128) = length (memget bs (128 * 31) 128)"
    using assms by (simp add: length_memget)
  fix x assume "x < length (memget (cut_page (descending E) bs j) (128 * k) 128)"
  then have x: "x < 128" using len assms by (simp add: length_memget)
  have "memget (cut_page (descending E) bs j) (128 * k) 128 ! x = cut_page (descending E) bs j ! (128 * k + x)"
    using x len assms by (intro memget_nth) simp_all
  also have "\<dots> = bs ! (128 * 31 + x)" by (rule descending_cut_nth [OF assms x])
  also have "\<dots> = memget bs (128 * 31) 128 ! x" using x assms by (simp add: memget_nth)
  finally show "memget (cut_page (descending E) bs j) (128 * k) 128 ! x = memget bs (128 * 31) 128 ! x" .
qed

end
