(* ===== verification/FS_Spec.thy ===== *)
theory FS_Spec
  imports Dir_Update
begin

text \<open>
  The file system a client sees, and how the disk represents it. The abstract state maps
  node numbers to directories (their entries) and files (their bytes), each with the block
  of its parent. \<open>store_ok E s A Q\<close> says that the state \<open>s\<close> represents \<open>A\<close>, where \<open>Q n\<close> is
  the set of data and pointer blocks that node \<open>n\<close> owns: they are marked used and no two
  nodes share one.
\<close>

section \<open>Abstract file system\<close>

datatype inode = Dir (par: u32) (ents: entries) | File (par: u32) (content: bytes)

type_synonym afs = "nat \<Rightarrow> inode option"

text \<open>Resolving a path, component by component, from node \<open>n\<close>.\<close>

fun walk :: "afs \<Rightarrow> cstr list \<Rightarrow> nat \<Rightarrow> nat option" where
  "walk A [] n = Some n"
| "walk A (p # ps) n =
     (case A n of
        Some (Dir _ es) \<Rightarrow> (case map_of es p of None \<Rightarrow> None | Some m \<Rightarrow> walk A ps (unat m))
      | _ \<Rightarrow> None)"

text \<open>Every node that the walk looks inside is a directory.\<close>

fun walks_dirs :: "afs \<Rightarrow> cstr list \<Rightarrow> nat \<Rightarrow> bool" where
  "walks_dirs A [] n = True"
| "walks_dirs A (p # ps) n =
     (case A n of
        Some (Dir _ es) \<Rightarrow> (case map_of es p of None \<Rightarrow> True | Some m \<Rightarrow> walks_dirs A ps (unat m))
      | _ \<Rightarrow> False)"

lemma walk_walks_dirs: "walk A ps n = Some m \<Longrightarrow> walks_dirs A ps n"
  by (induction ps arbitrary: n) (auto split: option.splits inode.splits)

section \<open>Files on disk\<close>

text \<open>
  \<open>slots_ok s nd M\<close>: the pointer blocks of a node are the nonzero entries of its array, and
  they and its data blocks \<open>0 \<dots> M - 1\<close> are all different. A file with no pointer block is
  empty; otherwise its data blocks \<open>0 \<dots> size div 4096\<close> are allocated (one more than its
  bytes need when the size is a multiple of 4096), and its pointer blocks are those they
  need, or one more when the next data block would be the first of a pointer block.
\<close>

definition pointers_fit :: "t_node \<Rightarrow> nat \<Rightarrow> bool" where
  "pointers_fit nd K \<longleftrightarrow>
     count_pointers nd = Suc (K div 1024) \<or> count_pointers nd = Suc (Suc K div 1024)"

definition slots_ok :: "fs \<Rightarrow> t_node \<Rightarrow> nat \<Rightarrow> bool" where
  "slots_ok s nd M \<longleftrightarrow>
     inj_on (\<lambda>i. unat (indirect_pointer_block nd ! i)) {..<count_pointers nd} \<and>
     inj_on (\<lambda>k. unat (data_block_num s nd k)) {..<M} \<and>
     (\<forall>i < count_pointers nd. \<forall>k < M.
        unat (indirect_pointer_block nd ! i) \<noteq> unat (data_block_num s nd k))"

definition contents :: "fs \<Rightarrow> t_node \<Rightarrow> bytes \<Rightarrow> bool" where
  "contents s nd bs \<longleftrightarrow>
     (\<forall>i < length bs. bs ! i = disk s (unat (data_block_num s nd (i div 4096))) ! (i mod 4096))"

definition slot_blocks :: "fs \<Rightarrow> t_node \<Rightarrow> nat \<Rightarrow> nat set" where
  "slot_blocks s nd M =
     (\<lambda>i. unat (indirect_pointer_block nd ! i)) ` {..<count_pointers nd} \<union>
     (\<lambda>k. unat (data_block_num s nd k)) ` {..<M}"

definition file_slots :: "t_node \<Rightarrow> nat" where
  "file_slots nd = Suc (unat (file_size nd) div 4096)"

definition file_blocks :: "fs \<Rightarrow> t_node \<Rightarrow> nat set" where
  "file_blocks s nd = (if count_pointers nd = 0 then {} else slot_blocks s nd (file_slots nd))"

definition zero_tail :: "t_node \<Rightarrow> bool" where
  "zero_tail nd \<longleftrightarrow> (\<forall>i < 1000. count_pointers nd \<le> i \<longrightarrow> indirect_pointer_block nd ! i = 0)"

definition file_ok :: "fs \<Rightarrow> t_node \<Rightarrow> bytes \<Rightarrow> bool" where
  "file_ok s nd bs \<longleftrightarrow>
     length bs = unat (file_size nd) \<and> zero_tail nd \<and>
     (if count_pointers nd = 0 then bs = []
      else pointers_fit nd (unat (file_size nd) div 4096) \<and> slots_ok s nd (file_slots nd) \<and>
        contents s nd bs)"

lemma pointers_fit_less: "pointers_fit nd K \<Longrightarrow> k \<le> K \<Longrightarrow> k div 1024 < count_pointers nd"
  using div_le_mono [of k K 1024] div_le_mono [of K "Suc K" 1024] by (auto simp: pointers_fit_def)

text \<open>Data blocks keep their numbers when the pointer blocks are unchanged.\<close>

lemma slots_frame:
  assumes "\<forall>k < M. k div 1024 < count_pointers nd" and "indirect_pointer_block nd' = indirect_pointer_block nd"
    and "\<forall>i < count_pointers nd. disk s' (unat (indirect_pointer_block nd ! i)) =
           disk s (unat (indirect_pointer_block nd ! i))"
  shows "k < M \<Longrightarrow> data_block_num s' nd' k = data_block_num s nd k"
    and "slots_ok s' nd' M = slots_ok s nd M" and "slot_blocks s' nd' M = slot_blocks s nd M"
proof -
  have c: "count_pointers nd' = count_pointers nd" using assms(2) by (simp add: count_pointers_def)
  have num: "data_block_num s' nd' k = data_block_num s nd k" if "k < M" for k
    using that assms by (simp add: data_block_num_def cell_def)
  then show "k < M \<Longrightarrow> data_block_num s' nd' k = data_block_num s nd k" .
  have "inj_on (\<lambda>k. unat (data_block_num s' nd' k)) {..<M} = inj_on (\<lambda>k. unat (data_block_num s nd k)) {..<M}"
    using num by (intro inj_on_cong) simp
  then show "slots_ok s' nd' M = slots_ok s nd M" using num assms(2) c by (auto simp: slots_ok_def)
  show "slot_blocks s' nd' M = slot_blocks s nd M" using num assms(2) c by (auto simp: slot_blocks_def)
qed

definition dir_blocks :: "fs \<Rightarrow> t_node \<Rightarrow> entries \<Rightarrow> nat set" where
  "dir_blocks s nd es =
     (if es = [] then {} else {unat (indirect_pointer_block nd ! 0), unat (dir_data s nd)})"

fun inode_ok :: "fs \<Rightarrow> t_node \<Rightarrow> inode \<Rightarrow> nat set \<Rightarrow> bool" where
  "inode_ok s nd (Dir p es) B \<longleftrightarrow>
     state nd = 2 \<and> parent_block nd = p \<and> dir_ok s nd es \<and> B = dir_blocks s nd es"
| "inode_ok s nd (File p bs) B \<longleftrightarrow>
     state nd = 1 \<and> parent_block nd = p \<and> file_ok s nd bs \<and> B = file_blocks s nd"

section \<open>Representation\<close>

definition store_ok :: "env \<Rightarrow> fs \<Rightarrow> afs \<Rightarrow> (nat \<Rightarrow> nat set) \<Rightarrow> bool" where
  "store_ok E s A Q \<longleftrightarrow>
     disk_ok s \<and> bitmap_ok s \<and>
     (\<forall>n i. A n = Some i \<longrightarrow> n < 32 \<and> used E s (2 + n) \<and> named (node_at s n) \<and>
        inode_ok s (node_at s n) i (Q n)) \<and>
     (\<forall>n. A n = None \<longrightarrow> Q n = {}) \<and>
     (\<forall>n. \<forall>b \<in> Q n. 34 \<le> b \<and> b < 3000 \<and> used E s b) \<and>
     (\<forall>n m. n \<noteq> m \<longrightarrow> Q n \<inter> Q m = {})"

section \<open>What representation depends on\<close>

lemma cell_frame: "disk s' p = disk s p \<Longrightarrow> cell s' p i = cell s p i"
  by (simp add: cell_def)

lemma dir_ok_frame:
  assumes "dir_ok s nd es" and "\<forall>b \<in> dir_blocks s nd es. disk s' b = disk s b"
    and "node_ok nd'" and "nview nd' = nview nd"
  shows "dir_ok s' nd' es \<and> dir_blocks s' nd' es = dir_blocks s nd es"
proof -
  have v: "state nd' = state nd" "file_size nd' = file_size nd"
    "indirect_pointer_block nd' = indirect_pointer_block nd"
    using assms(4) by (metis nview_simps)+
  show ?thesis
  proof (cases "es = []")
    case True
    then show ?thesis using assms v by (auto simp: dir_ok_def dir_blocks_def)
  next
    case False
    let ?p = "unat (indirect_pointer_block nd ! 0)" and ?d = "unat (dir_data s nd)"
    have p: "disk s' ?p = disk s ?p" and d: "disk s' ?d = disk s ?d"
      using assms(2) False by (simp_all add: dir_blocks_def)
    have dd: "dir_data s' nd' = dir_data s nd" using p v by (simp add: dir_data_def cell_def)
    show ?thesis
      using assms(1,3) False v d dd by (simp add: dir_ok_def dir_blocks_def)
  qed
qed

lemma file_ok_frame:
  assumes "file_ok s nd bs" and "\<forall>b \<in> file_blocks s nd. disk s' b = disk s b"
    and "nview nd' = nview nd"
  shows "file_ok s' nd' bs \<and> file_blocks s' nd' = file_blocks s nd"
proof -
  have v: "file_size nd' = file_size nd" "indirect_pointer_block nd' = indirect_pointer_block nd"
    using assms(3) by (metis nview_simps)+
  then have c: "count_pointers nd' = count_pointers nd" by (simp add: count_pointers_def)
  then have z: "zero_tail nd' = zero_tail nd" using v by (simp add: zero_tail_def)
  show ?thesis
  proof (cases "count_pointers nd = 0")
    case True
    then show ?thesis using assms v c z by (auto simp: file_ok_def file_blocks_def)
  next
    case False
    have F: "length bs = unat (file_size nd)" "pointers_fit nd (unat (file_size nd) div 4096)"
        "slots_ok s nd (file_slots nd)" "contents s nd bs" "zero_tail nd"
      using assms(1) False by (simp_all add: file_ok_def)
    have slots: "file_slots nd' = file_slots nd" using v by (simp add: file_slots_def)
    have pf: "pointers_fit nd' = pointers_fit nd" by (simp add: fun_eq_iff pointers_fit_def c)
    have lt: "\<forall>k < file_slots nd. k div 1024 < count_pointers nd"
      using pointers_fit_less [OF F(2)] by (simp add: file_slots_def)
    have ptrs: "\<forall>i < count_pointers nd. disk s' (unat (indirect_pointer_block nd ! i)) =
        disk s (unat (indirect_pointer_block nd ! i))"
      using assms(2) False by (auto simp: file_blocks_def slot_blocks_def)
    note fr = slots_frame [OF lt v(2) ptrs]
    have "disk s' (unat (data_block_num s nd k)) = disk s (unat (data_block_num s nd k))"
      if "k < file_slots nd" for k
      using that assms(2) False by (auto simp: file_blocks_def slot_blocks_def)
    moreover have "i div 4096 < file_slots nd" if "i < length bs" for i
      using that F(1) by (simp add: file_slots_def less_Suc_eq_le div_le_mono)
    ultimately have "contents s' nd' bs" using F(4) fr(1) by (simp add: contents_def)
    then show ?thesis
      using False F c z pf slots fr(2,3) v by (simp add: file_ok_def file_blocks_def)
  qed
qed

lemma inode_ok_frame:
  assumes "inode_ok s nd i B" and "\<forall>b \<in> B. disk s' b = disk s b"
    and "node_ok nd'" and "nview nd' = nview nd"
  shows "inode_ok s' nd' i B"
proof -
  have v: "state nd' = state nd" "parent_block nd' = parent_block nd"
    using assms(4) by (metis nview_simps)+
  show ?thesis
    using assms v dir_ok_frame [of s nd _ s' nd'] file_ok_frame [of s nd _ s' nd']
    by (cases i) auto
qed

section \<open>Reading and replacing one node\<close>

lemma store_nodeD:
  assumes "store_ok E s A Q" and "A n = Some i"
  shows "n < 32" and "used E s (2 + n)" and "named (node_at s n)"
    and "inode_ok s (node_at s n) i (Q n)" and "readable s n"
  using assms by (auto simp: store_ok_def readable_def const_simps)

lemma store_okD:
  assumes "store_ok E s A Q"
  shows "disk_ok s" and "bitmap_ok s"
    and "b \<in> Q n \<Longrightarrow> 34 \<le> b \<and> b < 3000 \<and> used E s b"
    and "n \<noteq> m \<Longrightarrow> Q n \<inter> Q m = {}"
    and "A n = None \<Longrightarrow> Q n = {}"
  using assms by (auto simp: store_ok_def)

lemma repr_tick [simp]:
  "dir_ok (s\<lparr>tick := t\<rparr>) = dir_ok s" "file_ok (s\<lparr>tick := t\<rparr>) = file_ok s"
  "dir_blocks (s\<lparr>tick := t\<rparr>) = dir_blocks s" "file_blocks (s\<lparr>tick := t\<rparr>) = file_blocks s"
  by (auto simp: fun_eq_iff dir_ok_def file_ok_def dir_blocks_def file_blocks_def dir_data_def
      slots_ok_def contents_def slot_blocks_def cell_def data_block_num_def)

lemma inode_ok_tick [simp]: "inode_ok (s\<lparr>tick := t\<rparr>) nd i B = inode_ok s nd i B"
  by (cases i) auto

lemma store_ok_tick [simp]: "store_ok E (s\<lparr>tick := t\<rparr>) A Q = store_ok E s A Q"
  by (simp add: store_ok_def disk_ok_def node_at_def)

lemma read_node_store:
  assumes "store_ok E s A Q" and "A n = Some i"
  shows "\<exists>nd. read_node E (of_nat n) s = Inr (nd, 2 + n, s\<lparr>tick := Suc (tick s)\<rparr>) \<and>
    named nd \<and> nview nd = nview (node_at s n) \<and> inode_ok s nd i (Q n)"
proof -
  obtain nd where nd: "read_node E (of_nat n) s = Inr (nd, 2 + n, s\<lparr>tick := Suc (tick s)\<rparr>)"
      "named nd" "nview nd = nview (node_at s n)"
    using read_node_spec [OF store_nodeD(5) [OF assms], of E] by (auto simp: const_simps)
  have "inode_ok s nd i (Q n)"
    using store_nodeD(4) [OF assms] nd by (auto intro: inode_ok_frame simp: named_def)
  with nd show ?thesis by blast
qed

lemma put_node_frame [simp]:
  "bitmap (put_node nd h s) = bitmap s" "tick (put_node nd h s) = tick s"
  "used E (put_node nd h s) b = used E s b" "bitmap_ok (put_node nd h s) = bitmap_ok s"
  by (simp_all add: put_node_def used_def bitmap_ok_def)

text \<open>
  A new state that differs from \<open>s\<close> in the block of node \<open>n\<close> and in blocks \<open>B\<close> that no
  other node owns represents the abstract state with node \<open>n\<close> replaced.
\<close>

lemma store_ok_update:
  assumes "store_ok E s A Q" and n: "n < 32" and "disk_ok s'" and "bitmap_ok s'"
    and same: "\<forall>b. b \<noteq> 2 + n \<and> b \<notin> B \<longrightarrow> disk s' b = disk s b"
    and B: "\<forall>b \<in> B. 34 \<le> b" "\<forall>m. m \<noteq> n \<longrightarrow> Q m \<inter> B = {}"
    and used: "\<forall>b < 3000. used E s b \<longrightarrow> used E s' b" "used E s' (2 + n)"
    and new: "named (node_at s' n)" "inode_ok s' (node_at s' n) i R"
    and R: "\<forall>b \<in> R. 34 \<le> b \<and> b < 3000 \<and> used E s' b" "\<forall>m. m \<noteq> n \<longrightarrow> Q m \<inter> R = {}"
  shows "store_ok E s' (A(n \<mapsto> i)) (Q(n := R))"
proof -
  note st = assms(1) [unfolded store_ok_def]
  have other: "m < 32 \<and> used E s' (2 + m) \<and> named (node_at s' m) \<and>
      inode_ok s' (node_at s' m) j (Q m)" if "A m = Some j" and "m \<noteq> n" for m j
  proof -
    have m: "m < 32" "used E s (2 + m)" "named (node_at s m)" "inode_ok s (node_at s m) j (Q m)"
      using st that(1) by auto
    have "2 + m \<notin> B" using B(1) m(1) by fastforce
    then have "disk s' (2 + m) = disk s (2 + m)" using same that(2) by auto
    then have at: "node_at s' m = node_at s m" by (simp add: node_at_def const_simps)
    have "\<forall>b \<in> Q m. disk s' b = disk s b"
    proof
      fix b
      assume b: "b \<in> Q m"
      then have "34 \<le> b" using st by blast
      moreover have "b \<notin> B" using B(2) b that(2) by blast
      ultimately show "disk s' b = disk s b" using same n by auto
    qed
    then have "inode_ok s' (node_at s' m) j (Q m)"
      using m at by (intro inode_ok_frame [OF m(4)]) (auto simp: named_def)
    then show ?thesis using m at used(1) by simp
  qed
  have keep: "b < 3000 \<Longrightarrow> used E s b \<Longrightarrow> used E s' b" for b using used(1) by blast
  show ?thesis
    unfolding store_ok_def
  proof (intro conjI allI impI ballI)
    fix m j
    assume "(A(n \<mapsto> i)) m = Some j"
    then have "m < 32 \<and> used E s' (2 + m) \<and> named (node_at s' m) \<and>
        inode_ok s' (node_at s' m) j ((Q(n := R)) m)"
      using other [of m j] n used(2) new by (cases "m = n") auto
    then show "m < 32" and "used E s' (2 + m)" and "named (node_at s' m)"
      and "inode_ok s' (node_at s' m) j ((Q(n := R)) m)" by auto
  next
    fix m b
    assume "b \<in> (Q(n := R)) m"
    then have "34 \<le> b \<and> b < 3000 \<and> used E s' b"
      using R(1) st keep by (auto split: if_splits)
    then show "34 \<le> b" and "b < 3000" and "used E s' b" by auto
  next
    fix m k :: nat
    assume "m \<noteq> k"
    then show "(Q(n := R)) m \<inter> (Q(n := R)) k = {}"
      using R(2) st by (auto split: if_splits)
  qed (use assms st in \<open>auto split: if_splits\<close>)
qed

lemma write_back:
  assumes "store_ok E s A Q" and "A n = Some i" and "named nd" and "nview nd = nview (node_at s n)"
  shows "store_ok E (unmap_and_destroy_node nd (2 + n) s) A Q"
proof -
  let ?s = "put_node nd (2 + n) s"
  note nD = store_nodeD [OF assms(1,2)] and sD = store_okD [OF assms(1)]
  have nok: "node_ok nd" using assms(3) by (simp add: named_def)
  have d: "disk ?s = (disk s)(2 + n := node_bytes nd)"
    using nok sD(1) nD(1) by (intro put_node_disk) auto
  have at: "node_at ?s n = nd"
    using put_node_at [OF nok sD(1), of n n] nD(1) by (simp add: const_simps)
  have "2 + n \<notin> Q n" using sD(3) [of "2 + n" n] nD(1) by auto
  then have ok: "inode_ok ?s nd i (Q n)"
    using nok assms(4) d by (intro inode_ok_frame [OF nD(4)]) auto
  have "store_ok E ?s (A(n \<mapsto> i)) (Q(n := Q n))"
    using assms nD ok at d nok sD
    by (intro store_ok_update [where B = "{}"])
       (auto simp: put_node_disk_ok)
  moreover have "A(n \<mapsto> i) = A" using assms(2) by auto
  ultimately show ?thesis by (simp add: unmap_and_destroy_node_def)
qed

lemma put_node_same:
  "node_ok nd \<Longrightarrow> disk_ok s \<Longrightarrow> h < 3000 \<Longrightarrow> disk s h = node_bytes nd \<Longrightarrow> put_node nd h s = s"
  using put_node_disk [of nd s h] by (simp add: put_node_def fun_upd_idem)

section \<open>Resolving paths\<close>

lemma dir_lookup:
  assumes "dir_ok s nd es"
  shows "\<exists>e. get_entry nd nm s = Inr e \<and>
    (case map_of es nm of None \<Rightarrow> \<not> is_valid_entry e \<and> node_num e = 0
     | Some w \<Rightarrow> is_valid_entry e \<and> entry_name e = nm \<and> node_num e = w)"
proof (cases "map_of es nm")
  case None
  then have "nm \<notin> fst ` set es" by (simp add: map_of_eq_None_iff)
  then show ?thesis using get_entry_absent [OF assms] None by auto
next
  case (Some w)
  then show ?thesis using get_entry_lookup [OF assms, of nm] by auto
qed

text \<open>
  \<open>search_path\<close> follows the abstract \<open>walk\<close>; it writes every node on the way back, which
  changes nothing that is represented.
\<close>

lemma put_node_low [simp]: "b < 2 \<Longrightarrow> disk (unmap_and_destroy_node nd (2 + n) s) b = disk s b"
  by (simp add: unmap_and_destroy_node_def put_node_def)

lemma search_from_spec:
  assumes "store_ok E s A Q" and "is_valid_entry entry"
    and "walks_dirs A parts (unat (node_num entry))"
  shows "\<exists>e s'. search_from E parts entry s = Inr (e, s') \<and> store_ok E s' A Q \<and>
    bitmap s' = bitmap s \<and> (\<forall>b < 2. disk s' b = disk s b) \<and>
    (case walk A parts (unat (node_num entry)) of None \<Rightarrow> \<not> is_valid_entry e \<and> node_num e = 0
     | Some m \<Rightarrow> is_valid_entry e \<and> unat (node_num e) = m)"
  using assms
proof (induction parts arbitrary: entry s)
  case Nil
  then show ?case by simp
next
  case (Cons part parts)
  let ?n = "unat (node_num entry)"
  obtain p es where A: "A ?n = Some (Dir p es)"
    using Cons.prems(3) by (auto split: option.splits inode.splits)
  obtain nd where nd: "read_node E (node_num entry) s = Inr (nd, 2 + ?n, s\<lparr>tick := Suc (tick s)\<rparr>)"
      "named nd" "nview nd = nview (node_at s ?n)" "dir_ok s nd es"
    using read_node_store [OF Cons.prems(1) A] by auto
  let ?t = "s\<lparr>tick := Suc (tick s)\<rparr>" and ?s = "unmap_and_destroy_node nd (2 + ?n) (s\<lparr>tick := Suc (tick s)\<rparr>)"
  have st: "store_ok E ?s A Q"
    using Cons.prems(1) A nd by (intro write_back) (auto simp: node_at_def)
  have bm: "bitmap ?s = bitmap s" "\<forall>b < 2. disk ?s b = disk s b" by (simp_all add: unmap_and_destroy_node_def put_node_def)
  have "dir_ok ?t nd es" using nd(4) by simp
  from dir_lookup [OF this, of part] obtain e where e: "get_entry nd part ?t = Inr e"
      "case map_of es part of None \<Rightarrow> \<not> is_valid_entry e \<and> node_num e = 0
       | Some w \<Rightarrow> is_valid_entry e \<and> entry_name e = part \<and> node_num e = w" by blast
  have step: "search_from E (part # parts) entry s = search_from E parts e ?s"
    using Cons.prems(2) nd(1) e(1) by simp
  show ?case
  proof (cases "map_of es part")
    case None
    then have "search_from E parts e ?s = Inr (e, ?s)" using e by (cases parts) auto
    then show ?thesis unfolding step using None A e st bm by simp
  next
    case (Some w)
    then have w: "is_valid_entry e" "node_num e = w" using e by auto
    have "walks_dirs A parts (unat (node_num e))" using Cons.prems(3) A Some w by simp
    from Cons.IH [OF st w(1) this] show ?thesis unfolding step using A Some w bm by simp
  qed
qed

context string_lib
begin

lemma search_path_spec:
  assumes "store_ok E s A Q" and "walks_dirs A (tokens slash path) 0"
  shows "\<exists>e s'. search_path E path s = Inr (e, s') \<and> store_ok E s' A Q \<and> bitmap s' = bitmap s \<and>
    (\<forall>b < 2. disk s' b = disk s b) \<and>
    (case walk A (tokens slash path) 0 of None \<Rightarrow> \<not> is_valid_entry e \<and> node_num e = 0
     | Some m \<Rightarrow> is_valid_entry e \<and> unat (node_num e) = m)"
  using search_from_spec [OF assms(1), of root_entry "tokens slash path"] assms(2)
  unfolding search_path_def split_slash by (simp add: root_entry_def is_valid_entry_def slash_def)

end

end
