(* ===== verification/FS_Update.thy ===== *)
theory FS_Update
  imports FS_Spec File
begin

text \<open>
  How the operations on one node change the file system a client sees: allocating a node,
  storing a new one, adding an entry to a directory and deleting one.
\<close>

section \<open>Frames\<close>

lemma repr_bitmap [simp]:
  "dir_ok (s\<lparr>bitmap := t\<rparr>) = dir_ok s" "file_ok (s\<lparr>bitmap := t\<rparr>) = file_ok s"
  "dir_blocks (s\<lparr>bitmap := t\<rparr>) = dir_blocks s" "file_blocks (s\<lparr>bitmap := t\<rparr>) = file_blocks s"
  "node_at (s\<lparr>bitmap := t\<rparr>) = node_at s" "node_at (s\<lparr>tick := u\<rparr>) = node_at s"
  by (auto simp: fun_eq_iff dir_ok_def file_ok_def dir_blocks_def file_blocks_def dir_data_def
      slots_ok_def contents_def slot_blocks_def cell_def data_block_num_def node_at_def)

lemma repr_disk:
  assumes "disk s' = disk s"
  shows "dir_ok s' = dir_ok s" "file_ok s' = file_ok s" "dir_blocks s' = dir_blocks s"
    "file_blocks s' = file_blocks s" "node_at s' = node_at s"
proof -
  have "s' = s\<lparr>bitmap := bitmap s', tick := tick s'\<rparr>" using assms by simp
  then obtain b u where "s' = s\<lparr>bitmap := b, tick := u\<rparr>" by blast
  then show "dir_ok s' = dir_ok s" "file_ok s' = file_ok s" "dir_blocks s' = dir_blocks s"
    "file_blocks s' = file_blocks s" "node_at s' = node_at s" by simp_all
qed

lemma inode_ok_disk: "disk s' = disk s \<Longrightarrow> inode_ok s' nd i B = inode_ok s nd i B"
  using repr_disk [of s' s] by (cases i) simp_all

text \<open>Marking more blocks used (an allocation) does not change what is represented.\<close>

lemma store_ok_more_used:
  assumes "store_ok E s A Q" and "disk s' = disk s" and "bitmap_ok s'"
    and "\<forall>k < 3000. used E s k \<longrightarrow> used E s' k"
  shows "store_ok E s' A Q"
proof -
  have "disk_ok s'" using assms(1,2) by (simp add: store_ok_def disk_ok_def)
  moreover have "used E s' (2 + n)" if "A n = Some i" for n i
    using assms(4) store_nodeD(1,2) [OF assms(1) that] by simp
  moreover have "34 \<le> b \<and> b < 3000 \<and> used E s' b" if "b \<in> Q n" for b n
    using assms(4) store_okD(3) [OF assms(1) that] by simp
  moreover note st = assms(1) [unfolded store_ok_def]
  ultimately show ?thesis
    unfolding store_ok_def repr_disk(5) [OF assms(2)] inode_ok_disk [OF assms(2)]
    using assms(3) by simp
qed

lemma store_ok_unused: "store_ok E s A Q \<Longrightarrow> n < 32 \<Longrightarrow> \<not> used E s (2 + n) \<Longrightarrow> A n = None"
  by (cases "A n") (auto simp: store_ok_def)

lemma store_ok_above: "store_ok E s A Q \<Longrightarrow> 32 \<le> n \<Longrightarrow> A n = None"
  using store_nodeD(1) [of E s A Q n] by (cases "A n") auto

lemma owned_free:
  "store_ok E s A Q \<Longrightarrow> b \<in> free_data E s \<Longrightarrow> b \<notin> Q n"
  by (auto simp: store_ok_def free_data_def)

section \<open>A new node\<close>

lemma count_pointers_none [simp]:
  "indirect_pointer_block nd = replicate 1000 0 \<Longrightarrow> count_pointers nd = 0"
  by (simp add: count_pointers_def)

definition empty_inode :: "t_node \<Rightarrow> inode \<Rightarrow> bool" where
  "empty_inode nd i \<longleftrightarrow>
     file_size nd = 0 \<and> indirect_pointer_block nd = replicate 1000 0 \<and>
     (state nd = 2 \<and> i = Dir (parent_block nd) [] \<or> state nd = 1 \<and> i = File (parent_block nd) [])"

lemma empty_inode_ok: "named nd \<Longrightarrow> empty_inode nd i \<Longrightarrow> inode_ok s nd i {}"
  by (auto simp: empty_inode_def named_def dir_ok_def dir_blocks_def file_ok_def file_blocks_def
      zero_tail_def)

lemma store_ok_new_node:
  assumes "store_ok E s A Q" and "A n = None" and "n < 32" and "used E s (2 + n)"
    and "named nd" and "empty_inode nd i"
  shows "store_ok E (put_node nd (2 + n) s) (A(n \<mapsto> i)) Q"
proof -
  let ?s = "put_node nd (2 + n) s"
  note sD = store_okD [OF assms(1)]
  have nok: "node_ok nd" using assms(5) by (simp add: named_def)
  have d: "disk ?s = (disk s)(2 + n := node_bytes nd)"
    using nok sD(1) assms(3) by (intro put_node_disk) auto
  have at: "node_at ?s n = nd"
    using put_node_at [OF nok sD(1), of n n] assms(3) by (simp add: const_simps)
  have "store_ok E ?s (A(n \<mapsto> i)) (Q(n := {}))"
    using assms sD d at empty_inode_ok [of nd i ?s] nok
    by (intro store_ok_update [where B = "{}"]) (auto simp: put_node_disk_ok)
  moreover have "Q(n := {}) = Q" using sD(5) [OF assms(2)] by (simp add: fun_upd_idem)
  ultimately show ?thesis by simp
qed

section \<open>Replacing a node\<close>

text \<open>
  The node \<open>nd\<close> is written back to the block of node \<open>n\<close>, after a change of the blocks \<open>B\<close>
  that it owns or has just been given.
\<close>

lemma store_ok_write:
  assumes "store_ok E s A Q" and "n < 32" and "used E s (2 + n)"
    and "disk_ok s'" and "bitmap_ok s'" and "\<forall>b. b \<notin> B \<longrightarrow> disk s' b = disk s b"
    and "B \<subseteq> Q n \<union> R" and "\<forall>k < 3000. used E s k \<longrightarrow> used E s' k"
    and "named nd" and "inode_ok s' nd i R"
    and "\<forall>b \<in> R. 34 \<le> b \<and> b < 3000 \<and> used E s' b" and "\<forall>m. m \<noteq> n \<longrightarrow> Q m \<inter> R = {}"
  shows "store_ok E (unmap_and_destroy_node nd (2 + n) s') (A(n \<mapsto> i)) (Q(n := R))"
proof -
  let ?s = "put_node nd (2 + n) s'"
  have nok: "node_ok nd" using assms(9) by (simp add: named_def)
  have d: "disk ?s = (disk s')(2 + n := node_bytes nd)"
    using nok assms(2,4) by (intro put_node_disk) auto
  have at: "node_at ?s n = nd"
    using put_node_at [OF nok assms(4), of n n] assms(2) by (simp add: const_simps)
  have "2 + n \<notin> R" using assms(2,11) by force
  then have "inode_ok ?s nd i R"
    using nok d by (intro inode_ok_frame [OF assms(10)]) auto
  moreover have "\<forall>b \<in> B. 34 \<le> b" using assms(7,11) store_okD(3) [OF assms(1)] by blast
  moreover have "Q m \<inter> B = {}" if "m \<noteq> n" for m
    using assms(7,12) store_okD(4) [OF assms(1) that] that by blast
  ultimately have "store_ok E ?s (A(n \<mapsto> i)) (Q(n := R))"
    using assms d at nok
    by (intro store_ok_update [OF assms(1,2), where B = B]) (auto simp: put_node_disk_ok | blast)+
  then show ?thesis by (simp add: unmap_and_destroy_node_def)
qed

section \<open>Adding an entry to a directory\<close>

lemma dir_blocks_data:
  assumes "dir_ok s nd es" and "es \<noteq> []" and "disk s' = (disk s)(unat (dir_data s nd) := page)"
    and "indirect_pointer_block nd' = indirect_pointer_block nd" and "es' \<noteq> []"
  shows "dir_blocks s' nd' es' = dir_blocks s nd es"
proof -
  have "unat (indirect_pointer_block nd ! 0) \<noteq> unat (dir_data s nd)"
    using assms(1,2) by (auto simp: dir_ok_def word_unat_eq_iff)
  then have "dir_data s' nd' = dir_data s nd" using assms(3,4) by (simp add: dir_data_def cell_def)
  then show ?thesis using assms by (simp add: dir_blocks_def)
qed

context bitarray_lib
begin

lemma add_entry_store:
  assumes st: "store_ok E s A Q" and A: "A m = Some (Dir p es)"
    and nd: "named nd" "inode_ok s nd (Dir p es) (Q m)"
    and nm: "name_ok nm" and room: "length es < 31"
    and space: "es = [] \<longrightarrow> 2 \<le> card (free_data E s)"
  shows "\<exists>nd' s' R. add_directory_entry E nd nm num s = Inr (nd', s') \<and>
    store_ok E (unmap_and_destroy_node nd' (2 + m) s') (A(m \<mapsto> Dir p (es @ [(nm, num)]))) (Q(m := R)) \<and>
    (\<forall>b < 34. disk s' b = disk s b) \<and> disk_ok s' \<and> (\<forall>k < 34. used E s' k \<longleftrightarrow> used E s k) \<and>
    card (free_data E s') + (if es = [] then 2 else 0) = card (free_data E s)"
proof -
  note mD = store_nodeD [OF st A] and sD = store_okD [OF st]
  have dir: "dir_ok s nd es" and sv: "state nd = 2" and pv: "parent_block nd = p"
    and Qm: "Q m = dir_blocks s nd es" using nd(2) by simp_all
  have disj: "\<forall>k. k \<noteq> m \<longrightarrow> Q k \<inter> Q m = {}" using sD(4) by blast
  show ?thesis
  proof (cases "es = []")
    case False
    let ?d = "unat (dir_data s nd)" and ?nd = "nd\<lparr>file_size := file_size nd + 128\<rparr>"
    obtain buf where buf: "length buf = 124"
      "add_directory_entry E nd nm num s = Inr (?nd, s\<lparr>tick := Suc (tick s),
         disk := (disk s)(?d := put_entry (disk s ?d) (length es) num buf)\<rparr>)"
      "dir_ok (s\<lparr>tick := Suc (tick s),
         disk := (disk s)(?d := put_entry (disk s ?d) (length es) num buf)\<rparr>) ?nd (es @ [(nm, num)])"
      using add_entry_nonempty [OF dir False room nm, of E num] by blast
    let ?s = "s\<lparr>tick := Suc (tick s), disk := (disk s)(?d := put_entry (disk s ?d) (length es) num buf)\<rparr>"
    have inQ: "?d \<in> Q m" using Qm False by (simp add: dir_blocks_def)
    then have d34: "34 \<le> ?d" "?d < 3000" using sD(3) by blast+
    have "dir_blocks ?s ?nd (es @ [(nm, num)]) = Q m"
      unfolding Qm by (rule dir_blocks_data [OF dir False]) auto
    then have ino: "inode_ok ?s ?nd (Dir p (es @ [(nm, num)])) (Q m)"
      using buf(3) sv pv by simp
    have dok: "disk_ok ?s"
      using sD(1) d34 buf(1) room length_put_entry [of "disk s ?d" "length es" buf num]
      by (auto simp: disk_ok_def const_simps)
    have "store_ok E (unmap_and_destroy_node ?nd (2 + m) ?s) (A(m \<mapsto> Dir p (es @ [(nm, num)]))) (Q(m := Q m))"
    proof (rule store_ok_write [OF st mD(1,2) dok _ _ _ _ _ ino, where B = "{?d}"])
      show "\<forall>b \<in> Q m. 34 \<le> b \<and> b < 3000 \<and> used E ?s b" using sD(3) by simp
    qed (use sD(2) inQ nd(1) disj in \<open>auto simp: named_def node_ok_def\<close>)
    then show ?thesis using buf(2) dok d34 False by (intro exI [of _ ?nd] exI [of _ ?s] exI [of _ "Q m"]) auto
  next
    case True
    obtain q d s' where ad: "add_directory_entry E nd nm num s = Inr (nd\<lparr>indirect_pointer_block :=
          (indirect_pointer_block nd)[0 := q], file_size := file_size nd + 128\<rparr>, s')"
      and ok: "dir_ok s' (nd\<lparr>indirect_pointer_block := (indirect_pointer_block nd)[0 := q],
          file_size := file_size nd + 128\<rparr>) [(nm, num)]"
      and dd: "dir_data s' (nd\<lparr>indirect_pointer_block := (indirect_pointer_block nd)[0 := q],
          file_size := file_size nd + 128\<rparr>) = d"
      and qd: "{unat q, unat d} \<subseteq> free_data E s" "q \<noteq> d"
        "free_data E s' = free_data E s - {unat q, unat d}"
      and s': "bitmap_ok s'" "disk_ok s'" "\<forall>b. b \<noteq> unat q \<and> b \<noteq> unat d \<longrightarrow> disk s' b = disk s b"
        "\<forall>k < 3000. used E s' k \<longleftrightarrow> k = unat q \<or> k = unat d \<or> used E s k"
      using add_entry_empty [of s nd nm num] dir nm sD space True by blast
    let ?nd = "nd\<lparr>indirect_pointer_block := (indirect_pointer_block nd)[0 := q],
          file_size := file_size nd + 128\<rparr>"
    let ?R = "{unat q, unat d}"
    have len: "length (indirect_pointer_block nd) = 1000" using nd(1) by (simp add: named_def node_ok_def)
    have "dir_blocks s' ?nd [(nm, num)] = ?R" using dd len by (simp add: dir_blocks_def)
    then have ino: "inode_ok s' ?nd (Dir p (es @ [(nm, num)])) ?R" using ok sv pv True by simp
    have R: "\<forall>b \<in> ?R. 34 \<le> b \<and> b < 3000 \<and> used E s' b"
      using qd(1) s'(4) by (auto simp: free_data_def)
    have own: "\<forall>k. k \<noteq> m \<longrightarrow> Q k \<inter> ?R = {}" using owned_free [OF st] qd(1) by blast
    have lo: "unat q \<ge> 34" "unat d \<ge> 34" using R by auto
    have ne: "unat q \<noteq> unat d" using qd(2) by (simp add: word_unat_eq_iff)
    have "store_ok E (unmap_and_destroy_node ?nd (2 + m) s') (A(m \<mapsto> Dir p (es @ [(nm, num)]))) (Q(m := ?R))"
      using s' R own nd(1)
      by (intro store_ok_write [OF st mD(1,2) s'(2,1) _ _ _ _ ino, where B = ?R])
         (auto simp: named_def node_ok_def)
    moreover have "card (free_data E s') + 2 = card (free_data E s)"
    proof -
      have "finite (free_data E s)" by (rule finite_subset [of _ "{..<3000}"]) (auto simp: free_data_def)
      then have "card (free_data E s - ?R) = card (free_data E s) - card ?R"
        using qd(1) by (intro card_Diff_subset) simp_all
      then show ?thesis using ne qd(3) space True by simp
    qed
    moreover have "\<forall>b < 34. disk s' b = disk s b" using s'(3) lo by auto
    moreover have "\<forall>k < 34. used E s' k \<longleftrightarrow> used E s k" using s'(4) lo by auto
    ultimately show ?thesis using ad s'(2) True by (intro exI [of _ ?nd] exI [of _ s'] exI [of _ ?R]) simp
  qed
qed

end

section \<open>Deleting an entry\<close>

lemma delete_entry_store:
  assumes last: "is_last nm es" and st: "store_ok E s A Q" and A: "A m = Some (Dir p es)"
    and nd: "named nd" "inode_ok s nd (Dir p es) (Q m)"
  shows "\<exists>nd' s' R. delete_directory_entry E nd nm s = Inr (nd', s') \<and>
    store_ok E (unmap_and_destroy_node nd' (2 + m) s') (A(m \<mapsto> Dir p (del_entry nm es))) (Q(m := R)) \<and>
    (\<forall>b < 34. disk s' b = disk s b) \<and> disk_ok s' \<and> bitmap s' = bitmap s"
proof -
  note mD = store_nodeD [OF st A] and sD = store_okD [OF st]
  have dir: "dir_ok s nd es" and sv: "state nd = 2" and pv: "parent_block nd = p"
    and Qm: "Q m = dir_blocks s nd es" using nd(2) by simp_all
  have disj: "\<forall>k. k \<noteq> m \<longrightarrow> Q k \<inter> Q m = {}" using sD(4) by blast
  show ?thesis
  proof (cases "nm \<in> fst ` set es")
    case False
    have "store_ok E (unmap_and_destroy_node nd (2 + m) s) (A(m \<mapsto> Dir p es)) (Q(m := Q m))"
    proof (rule store_ok_write [OF st mD(1,2) sD(1,2) _ _ _ nd(1,2) _ disj, where B = "{}"])
      show "\<forall>b \<in> Q m. 34 \<le> b \<and> b < 3000 \<and> used E s b" using sD(3) by simp
    qed auto
    then show ?thesis
      using delete_entry_absent [OF dir False, of E] sD(1)
      by (intro exI [of _ nd] exI [of _ s] exI [of _ "Q m"]) (simp add: del_entry_absent [OF False])
  next
    case True
    from last True obtain pre n where es: "es = pre @ [(nm, n)]" "nm \<notin> fst ` set pre" by (rule is_lastE)
    let ?d = "unat (dir_data s nd)" and ?nd = "after_delete nd pre"
    let ?s = "s\<lparr>disk := (disk s)(?d := cut_page E (disk s ?d) (length pre))\<rparr>"
    have del: "delete_directory_entry E nd nm s = Inr (?nd, ?s)" and ok: "dir_ok ?s ?nd pre"
      using delete_entry_present [OF dir [unfolded es(1)] es(2), of E] delete_entry_last [OF dir [unfolded es(1)], of E]
      by simp_all
    have ne: "es \<noteq> []" using es(1) by simp
    have inQ: "?d \<in> Q m" using Qm ne by (simp add: dir_blocks_def)
    then have d34: "34 \<le> ?d" "?d < 3000" using sD(3) by blast+
    define R where "R = dir_blocks ?s ?nd pre"
    have R: "R \<subseteq> Q m"
    proof (cases "pre = []")
      case False
      have "dir_blocks ?s ?nd pre = dir_blocks s nd es"
        by (rule dir_blocks_data [OF dir ne _ _ False]) (use False in \<open>auto simp: after_delete_def\<close>)
      then show ?thesis by (simp add: R_def Qm)
    qed (simp add: R_def dir_blocks_def)
    have ino: "inode_ok ?s ?nd (Dir p pre) R"
      using ok sv pv by (simp add: R_def after_delete_def)
    have lp: "length pre < 32" using dir es(1) by (simp add: dir_ok_def)
    have dok: "disk_ok ?s"
      using sD(1) d34 lp length_cut_page [of "disk s ?d" "length pre" E]
      by (auto simp: disk_ok_def const_simps)
    have "store_ok E (unmap_and_destroy_node ?nd (2 + m) ?s) (A(m \<mapsto> Dir p pre)) (Q(m := R))"
    proof (rule store_ok_write [OF st mD(1,2) dok _ _ _ _ _ ino, where B = "{?d}"])
      show "\<forall>b \<in> R. 34 \<le> b \<and> b < 3000 \<and> used E ?s b" using sD(3) R by auto
      show "\<forall>k. k \<noteq> m \<longrightarrow> Q k \<inter> R = {}" using disj R by blast
    qed (use sD(2) inQ nd(1) in \<open>auto simp: named_def node_ok_def after_delete_def\<close>)
    then show ?thesis
      using del dok d34 es by (intro exI [of _ ?nd] exI [of _ ?s] exI [of _ R])
        (simp add: del_entry_first [OF es(2)])
  qed
qed

end
