(* ===== verification/Sacio_Spec.thy ===== *)
theory Sacio_Spec
  imports Sacio FS_Update
begin

text \<open>
  The operations of \<open>sacio.c\<close> against the abstract file system: what each returns, and the
  abstract state that the disk represents afterwards.
\<close>

section \<open>Paths\<close>

definition child_path :: "cstr \<Rightarrow> cstr \<Rightarrow> cstr" where
  "child_path pre nm = pre @ slash # nm"

definition folder_ok :: "cstr \<Rightarrow> bool" where
  "folder_ok pre \<longleftrightarrow> pre = [] \<or> hd pre = slash"

definition component_ok :: "cstr \<Rightarrow> bool" where
  "component_ok nm \<longleftrightarrow> name_ok nm \<and> slash \<notin> set nm"

lemma pieces_nonempty: "pieces c s \<noteq> []"
  by (cases "(c, s)" rule: pieces.cases) (auto split: list.splits)

lemma pieces_join: "pieces c (xs @ c # ys) = pieces c xs @ pieces c ys"
  by (induction xs) (use pieces_nonempty in \<open>auto split: list.splits\<close>)

lemma pieces_single: "c \<notin> set xs \<Longrightarrow> pieces c xs = [xs]"
  by (induction xs) auto

lemma tokens_join: "tokens c (xs @ c # ys) = tokens c xs @ tokens c ys"
  by (simp add: tokens_def pieces_join)

lemma tokens_child:
  "component_ok nm \<Longrightarrow> tokens slash (child_path pre nm) = tokens slash pre @ [nm]"
  by (simp add: child_path_def tokens_join component_ok_def name_ok_def)
     (simp add: tokens_def pieces_single)

lemma tokens_folder: "tokens slash (pre @ [slash]) = tokens slash pre"
  using tokens_join [of slash pre "[]"] by (simp add: tokens_def)

lemma drop_last: "xs \<noteq> [] \<Longrightarrow> drop (length xs - 1) xs = [last xs]"
  by (induction xs rule: rev_induct) auto

context string_lib
begin

lemma valid_child_path:
  assumes "component_ok nm" and "folder_ok pre"
  shows "is_valid_path E (child_path pre nm)"
proof -
  have "nm \<noteq> []" using assms(1) by (simp add: component_ok_def name_ok_def)
  moreover from last_in_set [OF this] have "last nm \<noteq> slash"
    using assms(1) by (auto simp: component_ok_def)
  ultimately have "drop (length (child_path pre nm) - 1) (child_path pre nm) \<noteq> [slash]"
    by (subst drop_last) (simp_all add: child_path_def)
  then show ?thesis
    using assms(2)
    by (cases pre) (auto simp: is_valid_path_def is_empty_eq starts_with_eq ends_with_eq
        child_path_def folder_ok_def)
qed

lemma child_path_parts:
  assumes "component_ok nm"
  shows "get_new_dir_name_from_path E (child_path pre nm) = Inr nm"
    and "getFileNameFromFilePath E (child_path pre nm) = Inr nm"
    and "get_pre_dir_path_from_path E (child_path pre nm) nm = pre @ [slash]"
    and "getFolderPathFromFilePath E (child_path pre nm) = Inr pre"
proof -
  have l: "last_component E (child_path pre nm) = Inr nm"
    using tokens_child [OF assms] by (simp add: last_component_def split_slash)
  show "get_new_dir_name_from_path E (child_path pre nm) = Inr nm"
    and "getFileNameFromFilePath E (child_path pre nm) = Inr nm"
    using l by (simp_all add: get_new_dir_name_from_path_def getFileNameFromFilePath_def duplicate_eq)
  show "get_pre_dir_path_from_path E (child_path pre nm) nm = pre @ [slash]"
    by (simp add: get_pre_dir_path_from_path_def substring_until_eq child_path_def nat_add_distrib)
  show "getFolderPathFromFilePath E (child_path pre nm) = Inr pre"
    using l by (simp add: getFolderPathFromFilePath_def length_eq substring_until_eq child_path_def)
qed

end

section \<open>Creating a directory\<close>

lemma put_node_twice:
  "node_ok nd \<Longrightarrow> disk_ok s \<Longrightarrow> h < 3000 \<Longrightarrow> put_node nd h (put_node nd h s) = put_node nd h s"
  by (rule put_node_same) (simp_all add: put_node_disk put_node_disk_ok)

lemma node_number [simp]:
  assumes "n < 32"
  shows "unat (2 + of_nat n :: u32) = 2 + n" and "read_block (2 + of_nat n) = Inr (2 + n)"
proof -
  have "unat (of_nat (2 + n) :: u32) = 2 + n" using assms by (intro unat_of_nat_small) simp
  then show u: "unat (2 + of_nat n :: u32) = 2 + n" by simp
  show "read_block (2 + of_nat n) = Inr (2 + n)"
    using assms u by (subst read_block_in) (simp_all add: const_simps)
qed

context bitarray_lib
begin

text \<open>The new node \<open>n\<close>, a directory or a file, in the least free block of the table.\<close>

lemma create_and_save_dir_node_spec:
  assumes "store_ok E s A Q" and "A n = None" and "n < 32" and "used E s (2 + n)"
    and "is_cstr nm" and "length nm < 71"
  shows "\<exists>s'. create_and_save_dir_node E nm (of_nat m) (of_nat (2 + n)) s = Inr s' \<and>
    store_ok E s' (A(n \<mapsto> Dir (of_nat (2 + m)) [])) Q \<and> bitmap s' = bitmap s \<and>
    (\<forall>b. b \<noteq> 2 + n \<longrightarrow> disk s' b = disk s b)"
proof -
  obtain nd where nd: "create_dir_node E nm (of_nat m) s = Inr (nd, s\<lparr>tick := Suc (tick s)\<rparr>)"
      "named nd" "nview nd = \<lparr>state = 2, file_name = nm, parent_block = of_nat (2 + m), file_size = 0,
        creation_date = now E (tick s), modification_date = now E (tick s),
        indirect_pointer_block = replicate 1000 0\<rparr>"
    using create_node_spec [OF assms(5,6), of "replicate 1000 0" E 2 "of_nat (2 + m)" 0
        "now E (tick s)" "now E (tick s)" s]
    by (auto simp: create_dir_node_def Let_def get_block_num_from_node_num_def const_simps)
  let ?t = "s\<lparr>tick := Suc (tick s)\<rparr>"
  have nok: "node_ok nd" using nd(2) by (simp add: named_def)
  have dok: "disk_ok ?t" using store_okD(1) [OF assms(1)] by (simp add: disk_ok_def)
  have "empty_inode nd (Dir (of_nat (2 + m)) [])"
    unfolding empty_inode_def using nd(3) by (metis nview_simps t_node.select_convs)
  then have "store_ok E (put_node nd (2 + n) ?t) (A(n \<mapsto> Dir (of_nat (2 + m)) [])) Q"
    using assms nd(2) by (intro store_ok_new_node) simp_all
  then show ?thesis
    using nd(1) put_node_twice [OF nok dok, of "2 + n"] assms(3) put_node_disk [OF nok dok, of "2 + n"]
    by (simp add: create_and_save_dir_node_def unmap_and_destroy_node_def Let_def)
qed

end

text \<open>The least free node of the table.\<close>

definition free_node :: "env \<Rightarrow> fs \<Rightarrow> nat \<Rightarrow> bool" where
  "free_node E s n \<longleftrightarrow> n < 32 \<and> \<not> used E s (2 + n) \<and> (\<forall>k < n. used E s (2 + k))"

text \<open>What a new node takes: itself and \<open>c\<close> data blocks. The blocks of the header and of the bitmap stay.\<close>

definition node_taken :: "env \<Rightarrow> fs \<Rightarrow> fs \<Rightarrow> nat \<Rightarrow> nat \<Rightarrow> bool" where
  "node_taken E s s' n c \<longleftrightarrow> card (free_data E s') + c = card (free_data E s) \<and>
     (\<forall>k < 34. used E s' k \<longleftrightarrow> k = 2 + n \<or> used E s k) \<and> (\<forall>b < 2. disk s' b = disk s b)"

lemma node_taken_from:
  "bitmap t = bitmap s \<Longrightarrow> \<forall>b < 2. disk t b = disk s b \<Longrightarrow> node_taken E t s' n c = node_taken E s s' n c"
  by (simp add: node_taken_def free_data_def used_def)

lemma node_taken_put [simp]: "node_taken E s (unmap_and_destroy_node nd (2 + h) s') n c = node_taken E s s' n c"
  by (simp add: node_taken_def free_data_def unmap_and_destroy_node_def) (simp add: put_node_def)

lemma free_node_bitmap: "bitmap s' = bitmap s \<Longrightarrow> free_node E s' n = free_node E s n"
  by (simp add: free_node_def used_def)

lemma free_data_bitmap: "bitmap s' = bitmap s \<Longrightarrow> free_data E s' = free_data E s"
  by (simp add: free_data_def used_def)

lemma node_number_back [simp]:
  assumes "n < 32"
  shows "ucast (ucast (of_nat n :: u32) :: u16) = (of_nat n :: u32)"
  using assms by (simp add: word_unat_eq_iff unsigned_ucast_eq take_bit_eq_mod unat_of_nat unat_mod)

context bitarray_lib
begin

lemma create_dir_in:
  assumes st: "store_ok E s A Q" and A: "A m = Some (Dir p es)"
    and nd: "named nd" "inode_ok s nd (Dir p es) (Q m)"
    and nm: "name_ok nm" and room: "length es < 31" and fn: "free_node E s n"
    and space: "es = [] \<longrightarrow> 2 \<le> card (free_data E s)"
  shows "\<exists>nd' s' Q'. create_dir_node_and_add_entry E nd (of_nat m) nm s = Inr (nd', s') \<and>
    store_ok E (unmap_and_destroy_node nd' (2 + m) s')
      (A(n \<mapsto> Dir (of_nat (2 + m)) [], m \<mapsto> Dir p (es @ [(nm, of_nat n)]))) Q' \<and>
    node_taken E s s' n (if es = [] then 2 else 0)"
proof -
  have n: "n < 32" "\<not> used E s (2 + n)" "\<forall>k < n. used E s (2 + k)" using fn by (auto simp: free_node_def)
  obtain s1 where s1: "get_free_node_block E s = Inr (of_nat (2 + n), s1)" "bitmap_ok s1"
      "disk s1 = disk s" "free_data E s1 = free_data E s"
      "\<forall>k < 3000. used E s1 k \<longleftrightarrow> k = 2 + n \<or> used E s k"
    using get_free_node_block_spec [OF store_okD(2) [OF st] n] by blast
  have st1: "store_ok E s1 A Q" using st s1 by (intro store_ok_more_used [OF st]) auto
  have An: "A n = None" using store_ok_unused [OF st n(1,2)] .
  obtain s2 where s2: "create_and_save_dir_node E nm (of_nat m) (of_nat (2 + n)) s1 = Inr s2"
      "store_ok E s2 (A(n \<mapsto> Dir (of_nat (2 + m)) [])) Q" "bitmap s2 = bitmap s1"
      "\<forall>b. b \<noteq> 2 + n \<longrightarrow> disk s2 b = disk s1 b"
    using create_and_save_dir_node_spec [OF st1 An n(1), of nm m] s1(5) n(1) nm
    by (auto simp: name_ok_def)
  have A2: "(A(n \<mapsto> Dir (of_nat (2 + m)) [])) m = Some (Dir p es)" using A An by auto
  have "\<forall>b \<in> Q m. b \<noteq> 2 + n" using store_okD(3) [OF st, of _ m] n(1) by fastforce
  then have "\<forall>b \<in> Q m. disk s2 b = disk s b" using s2(4) s1(3) by simp
  then have ino: "inode_ok s2 nd (Dir p es) (Q m)"
    using nd by (intro inode_ok_frame [OF nd(2)]) (auto simp: named_def)
  have sp2: "es = [] \<longrightarrow> 2 \<le> card (free_data E s2)"
    using space free_data_bitmap [OF s2(3)] s1(4) by simp
  obtain nd' s' R where add: "add_directory_entry E nd nm (of_nat n) s2 = Inr (nd', s')"
      "store_ok E (unmap_and_destroy_node nd' (2 + m) s')
         (A(n \<mapsto> Dir (of_nat (2 + m)) [], m \<mapsto> Dir p (es @ [(nm, of_nat n)]))) (Q(m := R))"
      "\<forall>k < 34. used E s' k \<longleftrightarrow> used E s2 k" "\<forall>b < 34. disk s' b = disk s2 b"
      "card (free_data E s') + (if es = [] then 2 else 0) = card (free_data E s2)"
    using add_entry_store [OF s2(2) A2 nd(1) ino nm room sp2, of "of_nat n"] by blast
  have "create_dir_node_and_add_entry E nd (of_nat m) nm s = Inr (nd', s')"
    using s1(1) s2(1) add(1) n(1) by (simp add: create_dir_node_and_add_entry_def Let_def const_simps)
  moreover have "node_taken E s s' n (if es = [] then 2 else 0)"
    using add(3-5) s1(3-5) s2(3,4) free_data_bitmap [OF s2(3)] unfolding node_taken_def used_def by simp
  ultimately show ?thesis using add(2) by blast
qed

end

section \<open>Finding the node of a path\<close>

text \<open>The node that was read is written back unchanged.\<close>

lemma close_node:
  assumes "store_ok E s A Q" and "A m = Some i" and "named nd" and "nview nd = nview (node_at s m)"
  shows "store_ok E (unmap_and_destroy_node nd (2 + m) (s\<lparr>tick := t\<rparr>)) A Q"
  using assms by (intro write_back) (simp_all add: node_at_def)

context string_lib
begin

lemma open_path:
  assumes st: "store_ok E s A Q" and w: "walk A (tokens slash path) 0 = Some m" and A: "A m = Some i"
  shows "\<exists>e s1 nd. search_path E path s = Inr (e, s1) \<and> is_valid_entry e \<and> node_num e = of_nat m \<and>
    read_node E (of_nat m) s1 = Inr (nd, 2 + m, s1\<lparr>tick := Suc (tick s1)\<rparr>) \<and> named nd \<and>
    nview nd = nview (node_at s1 m) \<and> inode_ok s1 nd i (Q m) \<and> store_ok E s1 A Q \<and>
    bitmap s1 = bitmap s \<and> (\<forall>b < 2. disk s1 b = disk s b)"
proof -
  obtain e s1 where e: "search_path E path s = Inr (e, s1)" "store_ok E s1 A Q"
      "bitmap s1 = bitmap s" "is_valid_entry e" "unat (node_num e) = m" "\<forall>b < 2. disk s1 b = disk s b"
    using search_path_spec [OF st, of path] walk_walks_dirs [OF w] w by auto
  have "node_num e = of_nat m" unfolding e(5) [symmetric] by simp
  with e read_node_store [OF e(2) A] show ?thesis by blast
qed

lemma search_missing:
  assumes "store_ok E s A Q" and "walks_dirs A (tokens slash path) 0" and "walk A (tokens slash path) 0 = None"
  shows "\<exists>e s'. search_path E path s = Inr (e, s') \<and> \<not> is_valid_entry e \<and> node_num e = 0 \<and>
    store_ok E s' A Q \<and> bitmap s' = bitmap s"
  using search_path_spec [OF assms(1,2)] assms(3) by auto

end

context commons_lib
begin

lemma mkdir_creates:
  assumes st: "store_ok E s A Q" and path: "folder_ok pre" "component_ok nm"
    and w: "walk A (tokens slash pre) 0 = Some m" and A: "A m = Some (Dir p es)"
    and new: "nm \<notin> fst ` set es" and room: "length es < 31" and fn: "free_node E s n"
    and space: "es = [] \<longrightarrow> 2 \<le> card (free_data E s)"
  shows "\<exists>s' Q'. sac_mkdir E (child_path pre nm) mode s = Inr (0, s') \<and>
    store_ok E s' (A(n \<mapsto> Dir (of_nat (2 + m)) [], m \<mapsto> Dir p (es @ [(nm, of_nat n)]))) Q' \<and>
    node_taken E s s' n (if es = [] then 2 else 0)"
proof -
  have w1: "walk A (tokens slash (pre @ [slash])) 0 = Some m" using w by (simp add: tokens_folder)
  obtain e s1 nd where e: "search_path E (pre @ [slash]) s = Inr (e, s1)" "is_valid_entry e"
      "node_num e = of_nat m" "read_node E (of_nat m) s1 = Inr (nd, 2 + m, s1\<lparr>tick := Suc (tick s1)\<rparr>)"
      "named nd" "inode_ok s1 nd (Dir p es) (Q m)" "store_ok E s1 A Q" "bitmap s1 = bitmap s"
      "\<forall>b < 2. disk s1 b = disk s b"
    using open_path [OF st w1 A] by blast
  let ?t = "s1\<lparr>tick := Suc (tick s1)\<rparr>"
  have "dir_ok ?t nd es" using e(6) by simp
  from get_entry_absent [OF this new] have ex: "exists_entry nd nm ?t = Inr False"
    by (auto simp: exists_entry_def)
  have ino: "inode_ok ?t nd (Dir p es) (Q m)" using e(6) by simp
  have st1: "store_ok E ?t A Q" using e(7) by simp
  have bm: "bitmap ?t = bitmap s" using e(8) by simp
  have fn1: "free_node E ?t n" using fn free_node_bitmap [OF bm] by simp
  have sp1: "es = [] \<longrightarrow> 2 \<le> card (free_data E ?t)" using space free_data_bitmap [OF bm] by simp
  have nm: "name_ok nm" using path(2) by (simp add: component_ok_def)
  obtain nd' s' Q' where cr: "create_dir_node_and_add_entry E nd (of_nat m) nm ?t = Inr (nd', s')"
      and res: "store_ok E (unmap_and_destroy_node nd' (2 + m) s')
        (A(n \<mapsto> Dir (of_nat (2 + m)) [], m \<mapsto> Dir p (es @ [(nm, of_nat n)]))) Q'"
      and took: "node_taken E ?t s' n (if es = [] then 2 else 0)"
    using create_dir_in [OF st1 A e(5) ino nm room fn1 sp1] by blast
  have "sac_mkdir E (child_path pre nm) mode s = Inr (0, unmap_and_destroy_node nd' (2 + m) s')"
    using cr valid_child_path [OF path(2,1)] child_path_parts [OF path(2)] e(1-4) ex
    by (simp add: sac_mkdir_def Let_def)
  moreover have "node_taken E s (unmap_and_destroy_node nd' (2 + m) s') n (if es = [] then 2 else 0)"
    unfolding node_taken_put using took node_taken_from [OF bm] e(9) by simp
  ultimately show ?thesis using res by blast
qed

lemma mkdir_existing:
  assumes st: "store_ok E s A Q" and path: "folder_ok pre" "component_ok nm"
    and w: "walk A (tokens slash pre) 0 = Some m" and A: "A m = Some (Dir p es)"
    and old: "nm \<in> fst ` set es"
  shows "\<exists>s'. sac_mkdir E (child_path pre nm) mode s = Inr (- 1, s') \<and> store_ok E s' A Q"
proof -
  have w1: "walk A (tokens slash (pre @ [slash])) 0 = Some m" using w by (simp add: tokens_folder)
  obtain e s1 nd where e: "search_path E (pre @ [slash]) s = Inr (e, s1)" "is_valid_entry e"
      "node_num e = of_nat m" "read_node E (of_nat m) s1 = Inr (nd, 2 + m, s1\<lparr>tick := Suc (tick s1)\<rparr>)"
      "named nd" "nview nd = nview (node_at s1 m)" "inode_ok s1 nd (Dir p es) (Q m)" "store_ok E s1 A Q"
    using open_path [OF st w1 A] by blast
  let ?t = "s1\<lparr>tick := Suc (tick s1)\<rparr>"
  have "dir_ok ?t nd es" using e(7) by simp
  moreover obtain k where "map_of es nm = Some k"
    using old by (cases "map_of es nm") (auto simp: map_of_eq_None_iff)
  ultimately obtain x where "get_entry nd nm ?t = Inr x" "is_valid_entry x"
    using dir_lookup [of ?t nd es nm] by auto
  then have "exists_entry nd nm ?t = Inr True" by (simp add: exists_entry_def)
  then have "sac_mkdir E (child_path pre nm) mode s = Inr (- 1, unmap_and_destroy_node nd (2 + m) ?t)"
    using valid_child_path [OF path(2,1)] child_path_parts [OF path(2)] e(1-4)
    by (simp add: sac_mkdir_def Let_def)
  with close_node [OF e(8) A e(5,6)] show ?thesis by blast
qed

lemma mkdir_no_folder:
  assumes st: "store_ok E s A Q" and path: "folder_ok pre" "component_ok nm"
    and w: "walks_dirs A (tokens slash pre) 0" "walk A (tokens slash pre) 0 = None"
  shows "\<exists>s'. sac_mkdir E (child_path pre nm) mode s = Inr (- 1, s') \<and> store_ok E s' A Q"
  using search_missing [OF st, of "pre @ [slash]"] w valid_child_path [OF path(2,1)]
    child_path_parts [OF path(2)]
  by (auto simp: sac_mkdir_def Let_def tokens_folder)

text \<open>With no free node in the table the call does not return: the server exits.\<close>

lemma mkdir_table_full:
  assumes st: "store_ok E s A Q" and path: "folder_ok pre" "component_ok nm"
    and w: "walk A (tokens slash pre) 0 = Some m" and A: "A m = Some (Dir p es)"
    and new: "nm \<notin> fst ` set es" and full: "\<forall>k < 32. used E s (2 + k)"
  shows "sac_mkdir E (child_path pre nm) mode s = Inl (if free_data E s = {} then Out_of_bounds else Exit (- 1))"
proof -
  have w1: "walk A (tokens slash (pre @ [slash])) 0 = Some m" using w by (simp add: tokens_folder)
  obtain e s1 nd where e: "search_path E (pre @ [slash]) s = Inr (e, s1)" "is_valid_entry e"
      "node_num e = of_nat m" "read_node E (of_nat m) s1 = Inr (nd, 2 + m, s1\<lparr>tick := Suc (tick s1)\<rparr>)"
      "inode_ok s1 nd (Dir p es) (Q m)" "bitmap s1 = bitmap s" "store_ok E s1 A Q"
    using open_path [OF st w1 A] by blast
  let ?t = "s1\<lparr>tick := Suc (tick s1)\<rparr>"
  have "dir_ok ?t nd es" using e(5) by simp
  from get_entry_absent [OF this new] have ex: "exists_entry nd nm ?t = Inr False"
    by (auto simp: exists_entry_def)
  have bm: "bitmap_ok ?t" using store_okD(2) [OF e(7)] by simp
  have "\<forall>b. 2 \<le> b \<and> b < 34 \<longrightarrow> used E ?t b"
    using full e(6) by (auto simp: used_def dest!: le_Suc_ex)
  from get_free_block_full [OF bm _ this]
  have "get_free_node_block E ?t =
      Inl (if \<exists>b. 34 \<le> b \<and> b < TOTAL_BLOCKS \<and> \<not> used E ?t b then Exit (- 1) else Out_of_bounds)"
    by (simp add: get_free_node_block_def const_simps)
  also have "(\<exists>b. 34 \<le> b \<and> b < TOTAL_BLOCKS \<and> \<not> used E ?t b) \<longleftrightarrow> free_data E s \<noteq> {}"
    using e(6) by (auto simp: free_data_def used_def const_simps)
  finally have "get_free_node_block E ?t = Inl (if free_data E s = {} then Out_of_bounds else Exit (- 1))"
    by simp
  then show ?thesis
    using valid_child_path [OF path(2,1)] child_path_parts [OF path(2)] e(1-4) ex
    by (simp add: sac_mkdir_def Let_def create_dir_node_and_add_entry_def)
qed

end

section \<open>Opening a file\<close>

context bitarray_lib
begin

lemma create_file_in:
  assumes st: "store_ok E s A Q" and A: "A m = Some (Dir p es)"
    and new: "nm \<notin> fst ` set es"
    and nm: "name_ok nm" and room: "length es < 31" and fn: "free_node E s n"
    and space: "es = [] \<longrightarrow> 2 \<le> card (free_data E s)"
  shows "\<exists>s' Q'. create_and_save_file_node E nm (of_nat m) s = Inr (of_nat n, s') \<and>
    store_ok E s' (A(n \<mapsto> File (of_nat (2 + m)) [], m \<mapsto> Dir p (es @ [(nm, of_nat n)]))) Q' \<and>
    node_taken E s s' n (if es = [] then 2 else 0) \<and> Q' n = {}"
proof -
  have n: "n < 32" "\<not> used E s (2 + n)" "\<forall>k < n. used E s (2 + k)" using fn by (auto simp: free_node_def)
  obtain nd where rd: "read_node E (of_nat m) s = Inr (nd, 2 + m, s\<lparr>tick := Suc (tick s)\<rparr>)"
      "named nd" "inode_ok s nd (Dir p es) (Q m)"
    using read_node_store [OF st A] by blast
  let ?t = "s\<lparr>tick := Suc (tick s)\<rparr>"
  have st0: "store_ok E ?t A Q" using st by simp
  have "dir_ok ?t nd es" using rd(3) by simp
  from get_entry_absent [OF this new] have ex: "exists_entry nd nm ?t = Inr False"
    by (auto simp: exists_entry_def)
  let ?u = "?t\<lparr>tick := Suc (tick ?t)\<rparr>"
  obtain nf where nf: "create_file_node E nm (of_nat m) ?t = Inr (nf, ?u)" "named nf"
      "nview nf = \<lparr>state = 1, file_name = nm, parent_block = of_nat (2 + m), file_size = 0,
        creation_date = now E (tick ?t), modification_date = now E (tick ?t),
        indirect_pointer_block = replicate 1000 0\<rparr>"
    using create_node_spec [of nm "replicate 1000 0" E 1 "of_nat (2 + m)" 0
        "now E (tick ?t)" "now E (tick ?t)" ?t] nm
    by (auto simp: create_file_node_def Let_def get_block_num_from_node_num_def const_simps name_ok_def)
  obtain s1 where s1: "get_free_node_block E ?u = Inr (of_nat (2 + n), s1)" "bitmap_ok s1"
      "disk s1 = disk s" "free_data E s1 = free_data E s"
      "\<forall>k < 3000. used E s1 k \<longleftrightarrow> k = 2 + n \<or> used E s k"
    using get_free_node_block_spec [of ?u n] store_okD(2) [OF st] n by auto
  have st1: "store_ok E s1 A Q" using st s1 by (intro store_ok_more_used [OF st]) auto
  have An: "A n = None" using store_ok_unused [OF st n(1,2)] .
  have nok: "node_ok nf" using nf(2) by (simp add: named_def)
  have dok: "disk_ok s1" using store_okD(1) [OF st1] .
  let ?s2 = "put_node nf (2 + n) s1"
  have d2: "disk ?s2 = (disk s1)(2 + n := node_bytes nf)"
    using nok dok n(1) by (intro put_node_disk) auto
  have "empty_inode nf (File (of_nat (2 + m)) [])"
    unfolding empty_inode_def using nf(3) by (metis nview_simps t_node.select_convs)
  then have st2: "store_ok E ?s2 (A(n \<mapsto> File (of_nat (2 + m)) [])) Q"
    using st1 An n(1) s1(5) nf(2) by (intro store_ok_new_node) simp_all
  have A2: "(A(n \<mapsto> File (of_nat (2 + m)) [])) m = Some (Dir p es)" using A An by auto
  have "\<forall>b \<in> Q m. b \<noteq> 2 + n" using store_okD(3) [OF st, of _ m] n(1) by fastforce
  then have "\<forall>b \<in> Q m. disk ?s2 b = disk s b" using d2 s1(3) by simp
  then have ino: "inode_ok ?s2 nd (Dir p es) (Q m)"
    using rd(2) by (intro inode_ok_frame [OF rd(3)]) (auto simp: named_def)
  have sp2: "es = [] \<longrightarrow> 2 \<le> card (free_data E ?s2)"
    using space s1(4) by (simp add: free_data_def)
  obtain nd' s' R where add: "add_directory_entry E nd nm (of_nat n) ?s2 = Inr (nd', s')"
      "store_ok E (unmap_and_destroy_node nd' (2 + m) s')
         (A(n \<mapsto> File (of_nat (2 + m)) [], m \<mapsto> Dir p (es @ [(nm, of_nat n)]))) (Q(m := R))"
      "\<forall>b < 34. disk s' b = disk ?s2 b" "disk_ok s'"
      "\<forall>k < 34. used E s' k \<longleftrightarrow> used E ?s2 k"
      "card (free_data E s') + (if es = [] then 2 else 0) = card (free_data E ?s2)"
    using add_entry_store [OF st2 A2 rd(2) ino nm room sp2, of "of_nat n"] by blast
  have "put_node nf (2 + n) s' = s'"
    using add(3,4) d2 n(1) nok by (intro put_node_same) auto
  then have "create_and_save_file_node E nm (of_nat m) s =
      Inr (of_nat n, unmap_and_destroy_node nd' (2 + m) s')"
    using rd(1) ex nf(1) s1(1) add(1) n(1)
    by (simp add: create_and_save_file_node_def Let_def const_simps unmap_and_destroy_node_def)
  moreover have "free_data E ?s2 = free_data E s1" by (simp add: free_data_def)
  then have "node_taken E s s' n (if es = [] then 2 else 0)"
    using add(3,5,6) s1(3-5) d2 unfolding node_taken_def by simp
  moreover have "(Q(m := R)) n = {}" using A An store_okD(5) [OF st] by auto
  ultimately show ?thesis using add(2) node_taken_put by blast
qed

end

lemma sint_small:
  assumes "n < 32"
  shows "sint (of_nat n :: u32) = int n"
proof -
  have "uint (of_nat n :: u32) = int n" using assms by (simp add: uint_nat unat_of_nat)
  then show ?thesis using assms by (simp add: sint_cases)
qed

context commons_lib
begin

lemma open_creates:
  assumes st: "store_ok E s A Q" and path: "folder_ok pre" "component_ok nm"
    and w: "walk A (tokens slash pre) 0 = Some m" and A: "A m = Some (Dir p es)"
    and new: "nm \<notin> fst ` set es" and room: "length es < 31" and fn: "free_node E s n"
    and space: "es = [] \<longrightarrow> 2 \<le> card (free_data E s)"
  shows "\<exists>s' Q'. sac_open E (child_path pre nm) mode s = Inr (int n, s') \<and>
    store_ok E s' (A(n \<mapsto> File (of_nat (2 + m)) [], m \<mapsto> Dir p (es @ [(nm, of_nat n)]))) Q' \<and>
    node_taken E s s' n (if es = [] then 2 else 0) \<and> Q' n = {}"
proof -
  obtain e s1 where e: "search_path E pre s = Inr (e, s1)" "is_valid_entry e"
      "node_num e = of_nat m" "store_ok E s1 A Q" "bitmap s1 = bitmap s"
      "\<forall>b < 2. disk s1 b = disk s b"
    using open_path [OF st w A] by blast
  have fn1: "free_node E s1 n" using fn free_node_bitmap [OF e(5)] by simp
  have sp1: "es = [] \<longrightarrow> 2 \<le> card (free_data E s1)" using space free_data_bitmap [OF e(5)] by simp
  have nm: "name_ok nm" using path(2) by (simp add: component_ok_def)
  have "n < 32" using fn by (simp add: free_node_def)
  then have "sint (of_nat n :: u32) = int n" by (rule sint_small)
  moreover obtain s' Q' where "create_and_save_file_node E nm (of_nat m) s1 = Inr (of_nat n, s')"
      and res: "store_ok E s' (A(n \<mapsto> File (of_nat (2 + m)) [], m \<mapsto> Dir p (es @ [(nm, of_nat n)]))) Q'"
      and took: "node_taken E s1 s' n (if es = [] then 2 else 0)" "Q' n = {}"
    using create_file_in [OF e(4) A new nm room fn1 sp1] by blast
  ultimately have "sac_open E (child_path pre nm) mode s = Inr (int n, s')"
    using valid_child_path [OF path(2,1)] child_path_parts [OF path(2)] e(1-3)
    by (simp add: sac_open_def)
  with res took node_taken_from [OF e(5,6)] show ?thesis by blast
qed

lemma open_existing:
  assumes st: "store_ok E s A Q" and path: "folder_ok pre" "component_ok nm"
    and w: "walk A (tokens slash pre) 0 = Some m" and A: "A m = Some (Dir p es)"
    and old: "map_of es nm = Some k"
  shows "\<exists>s'. sac_open E (child_path pre nm) mode s = Inr (sint k, s') \<and> store_ok E s' A Q \<and>
    bitmap s' = bitmap s"
proof -
  obtain e s1 nd where e: "search_path E pre s = Inr (e, s1)" "is_valid_entry e"
      "node_num e = of_nat m" "read_node E (of_nat m) s1 = Inr (nd, 2 + m, s1\<lparr>tick := Suc (tick s1)\<rparr>)"
      "named nd" "nview nd = nview (node_at s1 m)" "inode_ok s1 nd (Dir p es) (Q m)" "store_ok E s1 A Q"
      "bitmap s1 = bitmap s"
    using open_path [OF st w A] by blast
  let ?t = "s1\<lparr>tick := Suc (tick s1)\<rparr>"
  have "dir_ok ?t nd es" using e(7) by simp
  from dir_lookup [OF this, of nm] old obtain x where x: "get_entry nd nm ?t = Inr x"
      "is_valid_entry x" "node_num x = k" by auto
  then have "create_and_save_file_node E nm (of_nat m) s1 =
      Inr (k, unmap_and_destroy_node nd (2 + m) ?t)"
    using e(4) by (simp add: create_and_save_file_node_def exists_entry_def)
  then have "sac_open E (child_path pre nm) mode s = Inr (sint k, unmap_and_destroy_node nd (2 + m) ?t)"
    using valid_child_path [OF path(2,1)] child_path_parts [OF path(2)] e(1-3)
    by (simp add: sac_open_def)
  moreover have "bitmap (unmap_and_destroy_node nd (2 + m) ?t) = bitmap s"
    using e(9) by (simp add: unmap_and_destroy_node_def)
  ultimately show ?thesis using close_node [OF e(8) A e(5,6)] by blast
qed

lemma open_no_folder:
  assumes st: "store_ok E s A Q" and path: "folder_ok pre" "component_ok nm"
    and w: "walks_dirs A (tokens slash pre) 0" "walk A (tokens slash pre) 0 = None"
  shows "\<exists>s'. sac_open E (child_path pre nm) mode s = Inr (- 1, s') \<and> store_ok E s' A Q"
  using search_missing [OF st w] valid_child_path [OF path(2,1)] child_path_parts [OF path(2)]
  by (auto simp: sac_open_def)

end

section \<open>Attributes and listings\<close>

fun mode_of :: "inode \<Rightarrow> u32" where
  "mode_of (Dir p es) = or S_IFDIR 0x1FF"
| "mode_of (File p bs) = or S_IFREG 0x1FF"

fun size_of :: "inode \<Rightarrow> nat" where
  "size_of (Dir p es) = 128 * length es"
| "size_of (File p bs) = length bs"

lemma inode_ok_size: "inode_ok s nd i B \<Longrightarrow> unat (file_size nd) = size_of i"
  using byte_num_values(1) by (cases i) (auto simp: dir_ok_def file_ok_def)

lemma inode_ok_state: "inode_ok s nd i B \<Longrightarrow> state nd = (case i of Dir _ _ \<Rightarrow> 2 | File _ _ \<Rightarrow> 1)"
  by (cases i) auto

lemma scan_load:
  "length names + length es \<le> n \<Longrightarrow>
   scan (load_entry n) es k invalid_entry names = Inr (invalid_entry, names @ map fst es, k + length es)"
  by (induction es arbitrary: k names) (auto simp: load_entry_def entry_of_def)

lemma list_names:
  assumes "dir_ok s nd es"
  shows "\<exists>r. iterate_pointers_blocks nd (load_entry (length es)) s [] = Inr (r, map fst es)"
  using assms
  by (cases "es = []") (simp_all add: iterate_pointers_empty iterate_pointers_scan scan_load)

lemma dir_count:
  assumes "dir_ok s nd es"
  shows "unat (file_size nd div of_nat DIR_ENTRY_SIZE) = length es"
proof -
  have "unat (file_size nd) = 128 * length es"
    using assms byte_num_values(1) [of "length es"] by (simp add: dir_ok_def)
  then show ?thesis by (simp add: const_simps unat_div)
qed

context string_lib
begin

lemma stat_found:
  assumes st: "store_ok E s A Q" and v: "is_valid_path E path"
    and w: "walk A (tokens slash path) 0 = Some m" and A: "A m = Some i"
  shows "\<exists>b s'. sac_stat E path s = Inr (0, Some b, s') \<and> st_mode b = mode_of i \<and>
    st_ino b = of_nat m \<and> unat (st_size b) = size_of i \<and> store_ok E s' A Q \<and> bitmap s' = bitmap s"
proof -
  obtain e s1 nd where e: "search_path E path s = Inr (e, s1)" "is_valid_entry e"
      "node_num e = of_nat m" "read_node E (of_nat m) s1 = Inr (nd, 2 + m, s1\<lparr>tick := Suc (tick s1)\<rparr>)"
      "named nd" "nview nd = nview (node_at s1 m)" "inode_ok s1 nd i (Q m)" "store_ok E s1 A Q"
      "bitmap s1 = bitmap s"
    using open_path [OF st w A] by blast
  let ?s = "unmap_and_destroy_node nd (2 + m) (s1\<lparr>tick := Suc (tick s1)\<rparr>)"
  note [simp] = inode_ok_state [OF e(7)]
  have "\<exists>b. sac_stat E path s = Inr (0, Some b, ?s) \<and> st_mode b = mode_of i \<and> st_ino b = of_nat m \<and>
      st_size b = file_size nd"
    using e(1-4) v by (cases i) (simp_all add: sac_stat_def Let_def)
  moreover have "bitmap ?s = bitmap s" using e(9) by (simp add: unmap_and_destroy_node_def)
  ultimately show ?thesis
    using close_node [OF e(8) A e(5,6)] inode_ok_size [OF e(7)] by metis
qed

lemma stat_missing:
  assumes st: "store_ok E s A Q" and v: "is_valid_path E path"
    and w: "walks_dirs A (tokens slash path) 0" "walk A (tokens slash path) 0 = None"
  shows "\<exists>s'. sac_stat E path s = Inr (- 1, None, s') \<and> store_ok E s' A Q"
  using search_missing [OF st w] v by (auto simp: sac_stat_def)

lemma readdir_lists:
  assumes st: "store_ok E s A Q" and v: "is_valid_path E path"
    and w: "walk A (tokens slash path) 0 = Some m" and A: "A m = Some (Dir p es)"
  shows "\<exists>s'. sac_readdir E path s = Inr (Some (map (Some \<circ> fst) es), s') \<and> store_ok E s' A Q \<and>
    bitmap s' = bitmap s"
proof -
  obtain e s1 nd where e: "search_path E path s = Inr (e, s1)" "is_valid_entry e"
      "node_num e = of_nat m" "read_node E (of_nat m) s1 = Inr (nd, 2 + m, s1\<lparr>tick := Suc (tick s1)\<rparr>)"
      "named nd" "nview nd = nview (node_at s1 m)" "inode_ok s1 nd (Dir p es) (Q m)" "store_ok E s1 A Q"
      "bitmap s1 = bitmap s"
    using open_path [OF st w A] by blast
  let ?t = "s1\<lparr>tick := Suc (tick s1)\<rparr>"
  let ?s = "unmap_and_destroy_node nd (2 + m) ?t"
  have d: "dir_ok ?t nd es" using e(7) by simp
  from list_names [OF this] obtain r
    where "iterate_pointers_blocks nd (load_entry (length es)) ?t [] = Inr (r, map fst es)" by blast
  then have "sac_readdir E path s = Inr (Some (map (Some \<circ> fst) es), ?s)"
    using e(1-4) v inode_ok_state [OF e(7)] dir_count [OF d] by (simp add: sac_readdir_def Let_def)
  moreover have "bitmap ?s = bitmap s" using e(9) by (simp add: unmap_and_destroy_node_def)
  ultimately show ?thesis using close_node [OF e(8) A e(5,6)] by blast
qed

text \<open>Anything else (a file, or no such path) gives \<open>NULL\<close>.\<close>

lemma readdir_none:
  assumes st: "store_ok E s A Q" and v: "is_valid_path E path"
    and w: "walks_dirs A (tokens slash path) 0"
    and no: "(case walk A (tokens slash path) 0 of None \<Rightarrow> \<exists>i. A 0 = Some i
              | Some m \<Rightarrow> \<exists>p bs. A m = Some (File p bs))"
  shows "\<exists>s'. sac_readdir E path s = Inr (None, s') \<and> store_ok E s' A Q"
proof (cases "walk A (tokens slash path) 0")
  case None
  obtain e s1 where e: "search_path E path s = Inr (e, s1)" "\<not> is_valid_entry e" "node_num e = 0"
      "store_ok E s1 A Q"
    using search_missing [OF st w None] by blast
  obtain i where A0: "A 0 = Some i" using no None by auto
  obtain nd where nd: "read_node E (of_nat 0) s1 = Inr (nd, 2 + 0, s1\<lparr>tick := Suc (tick s1)\<rparr>)"
      "named nd" "nview nd = nview (node_at s1 0)"
    using read_node_store [OF e(4) A0] by blast
  have "sac_readdir E path s = Inr (None, unmap_and_destroy_node nd (2 + 0) (s1\<lparr>tick := Suc (tick s1)\<rparr>))"
    using e(1-3) v nd(1) by (simp add: sac_readdir_def Let_def)
  with close_node [OF e(4) A0 nd(2,3)] show ?thesis by blast
next
  case (Some m)
  then obtain p bs where A: "A m = Some (File p bs)" using no by auto
  obtain e s1 nd where e: "search_path E path s = Inr (e, s1)" "is_valid_entry e"
      "node_num e = of_nat m" "read_node E (of_nat m) s1 = Inr (nd, 2 + m, s1\<lparr>tick := Suc (tick s1)\<rparr>)"
      "named nd" "nview nd = nview (node_at s1 m)" "inode_ok s1 nd (File p bs) (Q m)" "store_ok E s1 A Q"
    using open_path [OF st Some A] by blast
  have "sac_readdir E path s = Inr (None, unmap_and_destroy_node nd (2 + m) (s1\<lparr>tick := Suc (tick s1)\<rparr>))"
    using e(1-4) v inode_ok_state [OF e(7)] by (simp add: sac_readdir_def Let_def)
  with close_node [OF e(8) A e(5,6)] show ?thesis by blast
qed

end

end
