(* ===== verification/File_Read.thy ===== *)
theory File_Read
  imports Sacio_Spec
begin

text \<open>
  Reading a file: the loop of \<open>sac_read\<close> returns the bytes of the file that the abstract
  content has at the offset, across data blocks and pointer blocks.
\<close>

section \<open>A file that can be accessed\<close>

text \<open>
  \<open>file_here\<close>: the node \<open>nd\<close> holds the bytes \<open>bs\<close>, has a pointer block, and its blocks are on
  the disk. \<open>blk s nd k\<close> is the number of its \<open>k\<close>-th data block.
\<close>

definition file_here :: "env \<Rightarrow> fs \<Rightarrow> t_node \<Rightarrow> bytes \<Rightarrow> bool" where
  "file_here E s nd bs \<longleftrightarrow>
     sizeof_ptr E = 4 \<and> disk_ok s \<and> node_ok nd \<and> file_ok s nd bs \<and> count_pointers nd \<noteq> 0 \<and>
     (\<forall>b \<in> file_blocks s nd. b < 3000)"

abbreviation blk :: "fs \<Rightarrow> t_node \<Rightarrow> nat \<Rightarrow> nat" where
  "blk s nd k \<equiv> unat (data_block_num s nd k)"

lemma file_hereD:
  assumes "file_here E s nd bs"
  shows "length bs = unat (file_size nd)" and "pointers_fit nd (length bs div 4096)"
    and "slots_ok s nd (Suc (length bs div 4096))" and "zero_tail nd"
    and "i < length bs \<Longrightarrow> bs ! i = disk s (blk s nd (i div 4096)) ! (i mod 4096)"
proof -
  have "count_pointers nd \<noteq> 0" and "file_ok s nd bs" using assms by (simp_all add: file_here_def)
  then have F: "length bs = unat (file_size nd)" "pointers_fit nd (unat (file_size nd) div 4096)"
      "slots_ok s nd (file_slots nd)" "contents s nd bs" "zero_tail nd"
    by (simp_all add: file_ok_def)
  then show "length bs = unat (file_size nd)" and "pointers_fit nd (length bs div 4096)"
    and "slots_ok s nd (Suc (length bs div 4096))" and "zero_tail nd"
    and "i < length bs \<Longrightarrow> bs ! i = disk s (blk s nd (i div 4096)) ! (i mod 4096)"
    by (simp_all only: file_slots_def contents_def)
qed

lemma file_here_blocks:
  assumes "file_here E s nd bs"
  shows "i < count_pointers nd \<Longrightarrow> unat (indirect_pointer_block nd ! i) < 3000"
    and "k \<le> length bs div 4096 \<Longrightarrow> blk s nd k < 3000"
  using assms file_hereD(1) [OF assms]
  by (auto simp: file_here_def file_blocks_def slot_blocks_def file_slots_def)

lemma file_get_block:
  assumes "file_here E s nd bs" and "k \<le> length bs div 4096"
  shows "get_data_block_from_node E nd (of_nat k) s = Inr (blk s nd k)"
proof (rule get_data_block_spec)
  have lt: "k div 1024 < count_pointers nd"
    using pointers_fit_less [OF file_hereD(2) [OF assms(1)] assms(2)] .
  also have "count_pointers nd \<le> 1000" by (rule count_pointers_bound)
  finally show "k < 1024000" by (simp add: div_less_iff_less_mult)
  show "sizeof_ptr E = 4" using assms(1) by (simp add: file_here_def)
  show "unat (indirect_pointer_block nd ! (k div 1024)) < TOTAL_BLOCKS"
    using file_here_blocks(1) [OF assms(1) lt] by (simp add: const_simps)
  show "blk s nd k < TOTAL_BLOCKS"
    using file_here_blocks(2) [OF assms] by (simp add: const_simps)
qed

lemma offset_div_mod:
  assumes "q mod 4096 + i < (4096 :: nat)"
  shows "(q + i) div 4096 = q div 4096" and "(q + i) mod 4096 = q mod 4096 + i"
proof -
  have e: "q + i = (q mod 4096 + i) + q div 4096 * 4096"
    using div_mult_mod_eq [of q 4096] by linarith
  show "(q + i) div 4096 = q div 4096" unfolding e using assms by (subst div_mult_self1) simp_all
  show "(q + i) mod 4096 = q mod 4096 + i" unfolding e using assms by (subst mod_mult_self1) simp
qed

text \<open>What one copy out of a data block gives.\<close>

lemma file_segment:
  assumes "file_here E s nd bs" and "q mod 4096 + n \<le> 4096" and "q + n \<le> length bs"
  shows "memget (disk s (blk s nd (q div 4096))) (q mod 4096) n = take n (drop q bs)"
proof (cases "n = 0")
  case True
  then show ?thesis by (simp add: memget_def)
next
  case False
  have q: "q div 4096 \<le> length bs div 4096" using assms(3) by (intro div_le_mono) simp
  have len: "length (disk s (blk s nd (q div 4096))) = 4096"
    using file_here_blocks(2) [OF assms(1) q] assms(1) by (auto simp: file_here_def disk_ok_length)
  show ?thesis
  proof (rule nth_equalityI)
    show "length (memget (disk s (blk s nd (q div 4096))) (q mod 4096) n) = length (take n (drop q bs))"
      using assms(2,3) len by (simp add: length_memget)
    fix i
    assume "i < length (memget (disk s (blk s nd (q div 4096))) (q mod 4096) n)"
    then have i: "i < n" using assms(2) len by (simp add: length_memget)
    have "q mod 4096 + i < 4096" using i assms(2) by simp
    note dm = offset_div_mod [OF this]
    have "bs ! (q + i) = disk s (blk s nd (q div 4096)) ! (q mod 4096 + i)"
      using i assms(3) file_hereD(5) [OF assms(1), of "q + i"] by (simp add: dm)
    then show "memget (disk s (blk s nd (q div 4096))) (q mod 4096) n ! i = take n (drop q bs) ! i"
      using i assms(2,3) len by (simp add: memget_nth)
  qed
qed

section \<open>The loop\<close>

text \<open>One turn of the loop, with the number of bytes that it copies.\<close>

definition read_chunk :: "nat \<Rightarrow> nat \<Rightarrow> nat \<Rightarrow> nat" where
  "read_chunk sz q rest = min rest ((if sz < 4096 then sz else 4096) - q mod 4096)"

lemma read_chunk_bounds:
  assumes "q + rest \<le> sz" and "0 < rest"
  shows "0 < read_chunk sz q rest" and "read_chunk sz q rest \<le> rest"
    and "q mod 4096 + read_chunk sz q rest \<le> 4096"
    and "read_chunk sz q rest < rest \<Longrightarrow> q mod 4096 + read_chunk sz q rest = 4096"
proof -
  have "q mod 4096 < 4096" by simp
  then have "(if sz < 4096 then read_chunk sz q rest = rest
      else read_chunk sz q rest = min rest (4096 - q mod 4096)) \<and> q mod 4096 < 4096"
    using assms by (auto simp: read_chunk_def)
  then show "0 < read_chunk sz q rest" and "read_chunk sz q rest \<le> rest"
    and "q mod 4096 + read_chunk sz q rest \<le> 4096"
    and "read_chunk sz q rest < rest \<Longrightarrow> q mod 4096 + read_chunk sz q rest = 4096"
    using assms by (auto split: if_splits simp: min_def)
qed

lemma read_step:
  assumes here: "file_here E s nd bs" and l: "l < count" and q: "q + (count - l) \<le> length bs"
  defines "n \<equiv> read_chunk (length bs) q (count - l)"
  shows "read_loop E nd count bi (int (q mod 4096)) (blk s nd (q div 4096)) l k buf s =
    (if l + n \<ge> length bs then Inr (buf @ take n (drop q bs))
     else if l + n < count
     then bindE (get_data_block_from_node E nd (bi + of_nat (Suc k)) s) (\<lambda>b.
            read_loop E nd count bi 0 b (l + n) (Suc k) (buf @ take n (drop q bs)) s)
     else Inr (buf @ take n (drop q bs)))"
proof -
  have sz: "unat (file_size nd) = length bs" using file_hereD(1) [OF here] by simp
  have small: "(of_nat BLOCK_SIZE > file_size nd) = (length bs < 4096)"
    by (simp add: word_less_nat_alt const_simps sz)
  have pos: "0 < count - l" using l by simp
  note b = read_chunk_bounds [OF q pos, folded n_def]
  have seg: "read_bytes s (blk s nd (q div 4096)) (q mod 4096) n = Inr (take n (drop q bs))"
    using file_segment [OF here b(3)] b(2,3) q by (simp add: read_bytes_def const_simps)
  let ?m = "if of_nat BLOCK_SIZE > file_size nd then int (unat (file_size nd)) else int BLOCK_SIZE"
  have m: "?m = (if length bs < 4096 then int (length bs) else 4096)"
    unfolding small by (simp add: sz const_simps)
  have "int (q mod 4096) \<le> ?m"
  proof (cases "length bs < 4096")
    case True
    then show ?thesis unfolding m using q by simp
  next
    case False
    have "q mod 4096 \<le> 4096" by (intro less_imp_le) simp
    then have "int (q mod 4096) \<le> 4096" by linarith
    then show ?thesis unfolding m using False by simp
  qed
  then have n: "(if 0 \<le> ?m - int (q mod 4096) \<and> int (count - l) > ?m - int (q mod 4096)
      then nat (?m - int (q mod 4096)) else count - l) = n"
    unfolding m by (auto simp: n_def read_chunk_def min_def nat_diff_distrib)
  show ?thesis
    unfolding read_loop.simps [of E nd count bi "int (q mod 4096)"] Let_def n
    using l by (simp add: sz seg del: of_nat_Suc)
qed

lemma take_drop_take: "n \<le> m \<Longrightarrow> take n (drop q bs) @ take (m - n) (drop (q + n) bs) = take m (drop q bs)"
  using take_add [of n "m - n" "drop q bs"] by (simp add: add.commute)

lemma read_loop_spec:
  assumes here: "file_here E s nd bs" and "off + count \<le> length bs" and "l \<le> count"
    and "(off + l) div 4096 = off div 4096 + k"
  shows "read_loop E nd count (of_nat (off div 4096)) (int ((off + l) mod 4096))
      (blk s nd ((off + l) div 4096)) l k buf s = Inr (buf @ take (count - l) (drop (off + l) bs))"
  using assms(2-)
proof (induction "count - l" arbitrary: l k buf rule: less_induct)
  case less
  show ?case
  proof (cases "l < count")
    case False
    then show ?thesis by (simp add: read_loop.simps [of E nd count])
  next
    case True
    define q where "q = off + l"
    define n where "n = read_chunk (length bs) q (count - l)"
    have qc: "q + (count - l) \<le> length bs" and pos: "0 < count - l"
      using less.prems True by (simp_all add: q_def)
    note b = read_chunk_bounds [OF qc pos, folded n_def]
    note step = read_step [OF here True qc, folded n_def, of "of_nat (off div 4096)" k buf]
    show ?thesis
    proof (cases "n = count - l")
      case eq: True
      then show ?thesis using step True by (simp add: q_def)
    next
      case False
      then have lt: "n < count - l" using b(2) by simp
      then have full: "q mod 4096 + n = 4096" using b(4) by simp
      have "(q div 4096 + 1) * 4096 = q div 4096 * 4096 + 4096" by simp
      then have "q + n = (q div 4096 + 1) * 4096" using div_mult_mod_eq [of q 4096] full by linarith
      then have nx: "(q + n) div 4096 = q div 4096 + 1" "(q + n) mod 4096 = 0" by simp_all
      have in_file: "(q + n) div 4096 \<le> length bs div 4096" using lt qc by (intro div_le_mono) simp
      have nl: "l + n < count" "\<not> length bs \<le> l + n" using lt qc by (simp_all add: q_def)
      have k: "(off + (l + n)) div 4096 = off div 4096 + Suc k"
        using nx less.prems(3) by (simp add: q_def add.assoc)
      have num: "of_nat (off div 4096) + of_nat (Suc k) = (of_nat ((q + n) div 4096) :: u32)"
        unfolding q_def add.assoc [of off l n] k by (simp only: of_nat_add)
      have "read_loop E nd count (of_nat (off div 4096)) 0 (blk s nd ((q + n) div 4096)) (l + n) (Suc k)
          (buf @ take n (drop q bs)) s =
          Inr ((buf @ take n (drop q bs)) @ take (count - (l + n)) (drop (q + n) bs))"
        using less.hyps [of "l + n" "Suc k" "buf @ take n (drop q bs)"] k nl less.prems(1) b(1) nx(2)
        by (simp add: q_def add.assoc)
      also have "\<dots> = Inr (buf @ take (count - l) (drop q bs))"
        using take_drop_take [of n "count - l" q bs] lt by simp
      finally show ?thesis
        using step nl file_get_block [OF here in_file] by (simp add: num q_def del: of_nat_Suc)
    qed
  qed
qed

section \<open>\<open>sac_read\<close>\<close>

lemma read_data:
  assumes "file_here E s nd bs" and "off < length bs" and "length bs < 2 ^ 31"
  shows "bindE (get_data_block_from_node E nd (word_of_int (int off sdiv int BLOCK_SIZE)) s) (\<lambda>b.
      read_loop E nd (min count (length bs - off)) (word_of_int (int off sdiv int BLOCK_SIZE))
        (int off - int BLOCK_SIZE * (int off sdiv int BLOCK_SIZE)) b 0 0 [] s) =
    Inr (take count (drop off bs))"
proof -
  have d: "int off sdiv int BLOCK_SIZE = int (off div 4096)"
    by (simp add: const_simps signed_divide_int_def sgn_if zdiv_int)
  have m: "int off - int BLOCK_SIZE * int (off div 4096) = int (off mod 4096)"
    by (simp add: const_simps zdiv_int zmod_int minus_mult_div_eq_mod)
  have k: "off div 4096 \<le> length bs div 4096" using assms(2) by (intro div_le_mono) simp
  have "read_loop E nd (min count (length bs - off)) (of_nat (off div 4096)) (int ((off + 0) mod 4096))
      (blk s nd ((off + 0) div 4096)) 0 0 [] s =
    Inr ([] @ take (min count (length bs - off) - 0) (drop (off + 0) bs))"
    using assms(2) by (intro read_loop_spec [OF assms(1)]) auto
  then show ?thesis
    unfolding d m using file_get_block [OF assms(1) k] by (simp add: min_def)
qed

lemma count_pointers_zero:
  assumes "node_ok nd"
  shows "count_pointers nd = 0 \<longleftrightarrow> indirect_pointer_block nd ! 0 = 0"
  using assms by (cases "indirect_pointer_block nd") (auto simp: count_pointers_def node_ok_def)

lemma store_file_here:
  assumes "store_ok E s A Q" and "sizeof_ptr E = 4" and "A n = Some (File p bs)"
    and "named nd" and "inode_ok s nd (File p bs) (Q n)" and "count_pointers nd \<noteq> 0"
  shows "file_here E s nd bs"
proof -
  have "\<forall>b \<in> file_blocks s nd. b < 3000" using assms(5) store_okD(3) [OF assms(1), of _ n] by auto
  then show ?thesis
    using assms store_okD(1) [OF assms(1)] by (simp add: file_here_def named_def)
qed

lemma read_empty:
  assumes st: "store_ok E s A Q" and A: "A n = Some (File p bs)" and Q: "Q n = {}"
  shows "\<exists>s'. sac_read E (int n) count offset s = Inr (- 1, [], s')"
proof -
  obtain nd where nd: "read_node E (of_nat n) s = Inr (nd, 2 + n, s\<lparr>tick := Suc (tick s)\<rparr>)"
      "named nd" "inode_ok s nd (File p bs) (Q n)"
    using read_node_store [OF st A] by blast
  have "file_blocks s nd = {}" using nd(3) Q by simp
  moreover have "slot_blocks s nd (file_slots nd) \<noteq> {}" by (auto simp: slot_blocks_def file_slots_def)
  ultimately have "count_pointers nd = 0" by (auto simp: file_blocks_def split: if_splits)
  then have "indirect_pointer_block nd ! 0 = 0" using nd(2) by (simp add: count_pointers_zero named_def)
  then show ?thesis using nd by (simp add: sac_read_def pointer_at_def Let_def)
qed

lemma read_file:
  assumes st: "store_ok E s A Q" and ptr: "sizeof_ptr E = 4" and A: "A n = Some (File p bs)"
    and off: "off < length bs" and len: "length bs < 2 ^ 31"
  shows "\<exists>s'. sac_read E (int n) count (int off) s =
      Inr (int (min count (length bs - off)), take count (drop off bs), s') \<and>
    store_ok E s' A Q \<and> bitmap s' = bitmap s"
proof -
  obtain nd where nd: "read_node E (of_nat n) s = Inr (nd, 2 + n, s\<lparr>tick := Suc (tick s)\<rparr>)"
      "named nd" "nview nd = nview (node_at s n)" "inode_ok s nd (File p bs) (Q n)"
    using read_node_store [OF st A] by blast
  let ?t = "s\<lparr>tick := Suc (tick s)\<rparr>"
  let ?s = "unmap_and_destroy_node nd (2 + n) ?t"
  have st1: "state nd = 1" and size: "unat (file_size nd) = length bs"
    using nd(4) by (auto simp: file_ok_def)
  have c: "count_pointers nd \<noteq> 0" using nd(4) off by (auto simp: file_ok_def split: if_splits)
  have here: "file_here E ?t nd bs"
    using st nd(2,4) c by (intro store_file_here [where Q = Q and A = A and n = n and p = p]) (simp_all add: ptr A)
  have p0: "indirect_pointer_block nd ! 0 \<noteq> 0"
    using c count_pointers_zero [of nd] nd(2) by (simp add: named_def)
  have u: "uint (file_size nd) = int (length bs)" using size by (simp add: uint_nat)
  then have sz: "sint (file_size nd) = int (length bs)" using len by (simp add: sint_cases)
  have "sac_read E (int n) count (int off) s =
      Inr (int (length (take count (drop off bs))), take count (drop off bs), ?s)"
  proof (cases "length bs < count + off")
    case True
    then have "min count (length bs - off) = length bs - off" and "int (length bs) < int count + int off"
      by simp_all
    then show ?thesis
      using nd(1) st1 p0 off read_data [OF here off len, of count]
      by (auto simp: sac_read_def Let_def pointer_at_def sz u bindE_eq_Inr nat_diff_distrib)
  next
    case False
    then have "min count (length bs - off) = count" and "\<not> int (length bs) < int count + int off"
      by simp_all
    then show ?thesis
      using nd(1) st1 p0 off read_data [OF here off len, of count]
      by (auto simp: sac_read_def Let_def pointer_at_def sz u bindE_eq_Inr)
  qed
  moreover have "bitmap ?s = bitmap s" by (simp add: unmap_and_destroy_node_def)
  moreover have "length (take count (drop off bs)) = min count (length bs - off)" by simp
  ultimately show ?thesis using close_node [OF st A nd(2,3)] by metis
qed

text \<open>From the end of a file that has bytes on, there is nothing to read.\<close>

lemma read_at_end:
  assumes st: "store_ok E s A Q" and A: "A n = Some (File p bs)"
    and off: "length bs \<le> off" and bs: "bs \<noteq> []" and len: "length bs < 2 ^ 31"
  shows "\<exists>s'. sac_read E (int n) count (int off) s = Inr (0, [], s') \<and> store_ok E s' A Q"
proof -
  obtain nd where nd: "read_node E (of_nat n) s = Inr (nd, 2 + n, s\<lparr>tick := Suc (tick s)\<rparr>)"
      "named nd" "nview nd = nview (node_at s n)" "inode_ok s nd (File p bs) (Q n)"
    using read_node_store [OF st A] by blast
  have st1: "state nd = 1" and size: "unat (file_size nd) = length bs"
    using nd(4) by (auto simp: file_ok_def)
  have "count_pointers nd \<noteq> 0" using nd(4) bs by (auto simp: file_ok_def split: if_splits)
  then have p0: "indirect_pointer_block nd ! 0 \<noteq> 0"
    using count_pointers_zero [of nd] nd(2) by (simp add: named_def)
  have "uint (file_size nd) = int (length bs)" using size by (simp add: uint_nat)
  then have "sint (file_size nd) = int (length bs)" using len by (simp add: sint_cases)
  then have "sac_read E (int n) count (int off) s =
      Inr (0, [], unmap_and_destroy_node nd (2 + n) (s\<lparr>tick := Suc (tick s)\<rparr>))"
    using nd(1) st1 p0 off by (simp add: sac_read_def Let_def pointer_at_def)
  then show ?thesis using close_node [OF st A nd(2,3)] by blast
qed

end
