(* ===== verification/File_Write.thy ===== *)
theory File_Write
  imports File_Read
begin

text \<open>
  Writing a file: \<open>add_data_block_to_node\<close> gives a file its next data block, and the loop of
  \<open>sac_write\<close> replaces the bytes at the offset and lets the file grow.
\<close>

section \<open>The blocks of a node\<close>

definition area :: "env \<Rightarrow> fs \<Rightarrow> t_node \<Rightarrow> nat \<Rightarrow> bool" where
  "area E s nd M \<longleftrightarrow>
     bitmap_ok s \<and> disk_ok s \<and> node_ok nd \<and> zero_tail nd \<and> slots_ok s nd M \<and>
     (\<forall>b \<in> slot_blocks s nd M. 34 \<le> b \<and> b < 3000 \<and> used E s b) \<and>
     (\<forall>k < M. k div 1024 < count_pointers nd)"

text \<open>
  \<open>grown E s nd s' nd' M\<close>: from \<open>s\<close> to \<open>s'\<close> the node has been given blocks that were free; its
  first \<open>M\<close> data blocks are the same and hold the same bytes.
\<close>

definition grown :: "env \<Rightarrow> fs \<Rightarrow> t_node \<Rightarrow> fs \<Rightarrow> t_node \<Rightarrow> nat \<Rightarrow> bool" where
  "grown E s nd s' nd' M \<longleftrightarrow>
     (\<forall>k < M. data_block_num s' nd' k = data_block_num s nd k \<and>
        disk s' (blk s nd k) = disk s (blk s nd k)) \<and>
     (\<forall>b. b \<notin> slot_blocks s nd M \<union> free_data E s \<longrightarrow> disk s' b = disk s b) \<and>
     (\<forall>k < 3000. used E s k \<longrightarrow> used E s' k) \<and> (\<forall>k < 34. used E s' k \<longrightarrow> used E s k) \<and>
     free_data E s' \<subseteq> free_data E s \<and>
     nd'\<lparr>indirect_pointer_block := indirect_pointer_block nd\<rparr> = nd"

lemma area_pointer:
  assumes "area E s nd M" and "i < count_pointers nd"
  shows "34 \<le> unat (indirect_pointer_block nd ! i)" and "unat (indirect_pointer_block nd ! i) < 3000"
    and "used E s (unat (indirect_pointer_block nd ! i))"
  using assms by (auto simp: area_def slot_blocks_def)

lemma area_block:
  assumes "area E s nd M" and "k < M"
  shows "34 \<le> blk s nd k" and "blk s nd k < 3000" and "used E s (blk s nd k)"
  using assms by (auto simp: area_def slot_blocks_def)

lemma count_pointers_nth:
  assumes "i < count_pointers nd"
  shows "indirect_pointer_block nd ! i \<noteq> 0" and "i < 1000"
proof -
  show i: "i < 1000" using assms count_pointers_bound [of nd] by simp
  have "takeWhile (\<lambda>p. p \<noteq> 0) (take 1000 (indirect_pointer_block nd)) ! i \<noteq> 0"
    using nth_mem [OF assms [unfolded count_pointers_def]] by (auto dest: set_takeWhileD)
  then show "indirect_pointer_block nd ! i \<noteq> 0"
    using assms i by (simp add: takeWhile_nth count_pointers_def)
qed

text \<open>
  \<open>add_data_block_to_node\<close> gives a file with \<open>size div 4096 + 1\<close> data blocks (or none, when it
  has no pointer block) the next one, in a new pointer block when the last is full.
\<close>

definition next_slots :: "t_node \<Rightarrow> nat" where
  "next_slots nd = (if count_pointers nd = 0 then 0 else file_slots nd)"

lemma fit_same:
  assumes "c = Suc (k div 1024) \<or> c = Suc (Suc k div 1024)" and "Suc k < 1024 * c"
  shows "c = Suc (Suc k div 1024)"
proof -
  have "Suc k div 1024 < c" using assms(2) by (simp add: div_less_iff_less_mult mult.commute)
  moreover have "k div 1024 \<le> Suc k div 1024" by (rule div_le_mono) simp
  ultimately show ?thesis using assms(1) by linarith
qed

lemma fit_next:
  assumes "c = Suc (k div 1024) \<or> c = Suc (Suc k div 1024)" and "\<not> Suc k < 1024 * c"
  shows "Suc k = 1024 * c"
proof -
  have lt: "n < 1024 * Suc (n div 1024)" for n :: nat
    using mod_less_divisor [of 1024 n] mult_div_mod_eq [of 1024 n] by simp
  show ?thesis using assms lt [of k] lt [of "Suc k"] by auto
qed

section \<open>Adding a data block\<close>

text \<open>A new pointer block goes in the first zero place of the array.\<close>

lemma add_pointer:
  assumes "node_ok nd" and "zero_tail nd" and "count_pointers nd < 1000" and "q \<noteq> 0"
  defines "nd' \<equiv> nd\<lparr>indirect_pointer_block := (indirect_pointer_block nd)[count_pointers nd := q]\<rparr>"
  shows "count_pointers nd' = Suc (count_pointers nd)" and "zero_tail nd'"
proof -
  let ?c = "count_pointers nd" and ?ps = "(indirect_pointer_block nd)[count_pointers nd := q]"
  have len: "length (indirect_pointer_block nd) = 1000" using assms(1) by (simp add: node_ok_def)
  have "takeWhile (\<lambda>p. p \<noteq> 0) ?ps = take (Suc ?c) ?ps"
  proof (rule takeWhile_eq_take_P_nth)
    show "?ps ! i \<noteq> 0" if "i < Suc ?c" "i < length ?ps" for i
      using that assms(4) count_pointers_nth(1) [of i nd] len by (cases "i = ?c") auto
    show "\<not> ?ps ! Suc ?c \<noteq> 0" if "Suc ?c < length ?ps"
      using that assms(2) len by (simp add: zero_tail_def)
  qed
  then show c: "count_pointers nd' = Suc ?c"
    using len assms(3) by (simp add: count_pointers_def nd'_def)
  show "zero_tail nd'" unfolding zero_tail_def c using assms(2) by (simp add: nd'_def zero_tail_def)
qed

lemma grown_trans:
  assumes "grown E s nd s1 nd1 M" and "grown E s1 nd1 s2 nd2 M"
    and "slot_blocks s1 nd1 M \<subseteq> slot_blocks s nd M \<union> free_data E s"
  shows "grown E s nd s2 nd2 M"
proof -
  have "nd2\<lparr>indirect_pointer_block := indirect_pointer_block nd\<rparr> =
      (nd2\<lparr>indirect_pointer_block := indirect_pointer_block nd1\<rparr>)
        \<lparr>indirect_pointer_block := indirect_pointer_block nd\<rparr>" by simp
  also have "\<dots> = nd" using assms(1,2) by (simp add: grown_def)
  finally have "nd2\<lparr>indirect_pointer_block := indirect_pointer_block nd\<rparr> = nd" .
  moreover have "disk s2 b = disk s b" if "b \<notin> slot_blocks s nd M \<union> free_data E s" for b
  proof -
    have "b \<notin> slot_blocks s1 nd1 M \<union> free_data E s1"
      using that assms(1,3) unfolding grown_def by blast
    then show ?thesis using that assms(1,2) by (simp add: grown_def)
  qed
  moreover have "data_block_num s2 nd2 k = data_block_num s nd k \<and>
      disk s2 (blk s nd k) = disk s (blk s nd k)" if "k < M" for k
    using that assms(1,2) by (simp add: grown_def)
  moreover have "\<forall>k < 3000. used E s k \<longrightarrow> used E s2 k" and "free_data E s2 \<subseteq> free_data E s"
    and "\<forall>k < 34. used E s2 k \<longrightarrow> used E s k"
    using assms(1) [unfolded grown_def, THEN conjunct2, THEN conjunct2]
      assms(2) [unfolded grown_def, THEN conjunct2, THEN conjunct2]
    by (elim conjE, blast)+
  ultimately show ?thesis by (simp add: grown_def)
qed

context bitarray_lib
begin

lemma create_data_block_spec:
  assumes "bitmap_ok s" and "free_data E s \<noteq> {}" and "disk_ok s"
    and "j < 1000" and "slot < 1024" and "unat (indirect_pointer_block nd ! j) < 3000"
  defines "p \<equiv> unat (indirect_pointer_block nd ! j)"
  shows "\<exists>d s'. create_data_block_in_pointer_block E nd (of_nat j) (of_nat slot) s = Inr (d, s') \<and>
    unat d \<in> free_data E s \<and> bitmap_ok s' \<and> disk_ok s' \<and> free_data E s' = free_data E s - {unat d} \<and>
    (\<forall>k < 3000. used E s' k \<longleftrightarrow> k = unat d \<or> used E s k) \<and>
    (\<forall>b. b \<noteq> p \<longrightarrow> disk s' b = disk s b) \<and>
    (\<forall>i. cell s' p i = (if i = slot then d else cell s p i))"
proof -
  obtain d s1 where d: "get_free_data_block E s = Inr (d, s1)" "bitmap_ok s1" "disk s1 = disk s"
      "unat d \<in> free_data E s" "free_data E s1 = free_data E s - {unat d}"
      "\<forall>k < 3000. used E s1 k \<longleftrightarrow> k = unat d \<or> used E s k"
    using get_free_data_block_spec [OF assms(1,2)] by blast
  have u: "unat (of_nat j :: u16) = j" "unat (of_nat slot :: u16) = slot"
    using assms(4,5) by (simp_all add: unat_of_nat)
  have len: "length (disk s p) = 4096" using assms(3,6) by (simp add: p_def disk_ok_length)
  let ?s = "s1\<lparr>disk := (disk s)(p := memput (disk s p) (4 * slot) (le_enc 4 d))\<rparr>"
  have "create_data_block_in_pointer_block E nd (of_nat j) (of_nat slot) s = Inr (d, ?s)"
    using d(1,3) u assms(4-6)
    by (simp add: create_data_block_in_pointer_block_def pointer_at_def read_block_in write_bytes_def
        const_simps p_def mult.commute)
  moreover have "disk_ok ?s"
    using assms(3) len assms(5) by (auto simp: disk_ok_def const_simps length_memput)
  moreover have "cell ?s p i = (if i = slot then d else cell s p i)" for i
    using u32le.cell_put [where x = d and i = slot and bs = "disk s p" and j = i] len assms(5) by (simp add: cell_def)
  ultimately show ?thesis using d by (intro exI [of _ d] exI [of _ ?s]) simp
qed

lemma push_block:
  assumes ar: "area E s nd M" and c: "count_pointers nd = Suc (M div 1024)" and free: "free_data E s \<noteq> {}"
  shows "\<exists>d s'. create_data_block_in_pointer_block E nd (of_nat (M div 1024)) (of_nat (M mod 1024)) s =
      Inr (d, s') \<and> area E s' nd (Suc M) \<and> grown E s nd s' nd M \<and>
    slot_blocks s' nd (Suc M) = insert (unat d) (slot_blocks s nd M) \<and> unat d \<in> free_data E s \<and>
    free_data E s' = free_data E s - {unat d}"
proof -
  let ?j = "M div 1024"
  let ?p = "unat (indirect_pointer_block nd ! ?j)"
  have j: "?j < count_pointers nd" using c by simp
  have bok: "bitmap_ok s" and dok: "disk_ok s" using ar by (simp_all add: area_def)
  obtain d s' where d: "create_data_block_in_pointer_block E nd (of_nat ?j) (of_nat (M mod 1024)) s = Inr (d, s')"
      "unat d \<in> free_data E s" "bitmap_ok s'" "disk_ok s'" "free_data E s' = free_data E s - {unat d}"
      "\<forall>k < 3000. used E s' k \<longleftrightarrow> k = unat d \<or> used E s k"
      "\<forall>b. b \<noteq> ?p \<longrightarrow> disk s' b = disk s b"
      "\<forall>i. cell s' ?p i = (if i = M mod 1024 then d else cell s ?p i)"
    using create_data_block_spec [OF bok free dok count_pointers_nth(2) [OF j] _ area_pointer(2) [OF ar j], of "M mod 1024"]
    by auto
  have sl: "slots_ok s nd M" and lt: "\<forall>k < M. k div 1024 < count_pointers nd" using ar by (simp_all add: area_def)
  have num: "data_block_num s' nd k = data_block_num s nd k" if "k < M" for k
  proof (cases "k div 1024 = ?j")
    case True
    then have "k mod 1024 \<noteq> M mod 1024" using that by (metis div_mult_mod_eq less_irrefl)
    then show ?thesis using d(8) True by (simp add: data_block_num_def)
  next
    case False
    then have "unat (indirect_pointer_block nd ! (k div 1024)) \<noteq> ?p"
      using sl lt that j by (auto simp: slots_ok_def inj_on_def)
    then show ?thesis using d(7) by (simp add: data_block_num_def cell_def)
  qed
  have new: "data_block_num s' nd M = d" using d(8) by (simp add: data_block_num_def)
  have fresh: "b \<noteq> unat d" if "b \<in> slot_blocks s nd M" for b
    using that ar d(2) by (auto simp: area_def free_data_def)
  have inj: "inj_on (blk s' nd) {..<Suc M}"
  proof -
    have "inj_on (blk s' nd) {..<M} = inj_on (blk s nd) {..<M}" using num by (intro inj_on_cong) simp
    then have "inj_on (blk s' nd) {..<M}" using sl by (simp add: slots_ok_def)
    moreover have "blk s' nd M \<notin> blk s' nd ` {..<M}"
      using fresh num new by (auto simp: slot_blocks_def)
    ultimately show ?thesis by (simp add: lessThan_Suc)
  qed
  have blocks: "slot_blocks s' nd (Suc M) = insert (unat d) (slot_blocks s nd M)"
    using num new by (auto simp: slot_blocks_def lessThan_Suc)
  have "unat (indirect_pointer_block nd ! i) \<noteq> blk s' nd k" if "i < count_pointers nd" "k < Suc M" for i k
  proof (cases "k = M")
    case True
    then show ?thesis using fresh [of "unat (indirect_pointer_block nd ! i)"] that(1) new
      by (auto simp: slot_blocks_def)
  next
    case False
    then show ?thesis using sl that num by (auto simp: slots_ok_def less_Suc_eq)
  qed
  then have "slots_ok s' nd (Suc M)" using inj sl by (simp add: slots_ok_def)
  moreover have "34 \<le> unat d \<and> unat d < 3000" using d(2) by (simp add: free_data_def)
  ultimately have area: "area E s' nd (Suc M)"
    using ar d(3,4,6) j by (auto simp: area_def blocks less_Suc_eq)
  have data: "disk s' (blk s nd k) = disk s (blk s nd k)" if "k < M" for k
  proof -
    have "?p \<noteq> blk s nd k" using sl j that unfolding slots_ok_def by blast
    then show ?thesis using d(7) by metis
  qed
  have "?p \<in> slot_blocks s nd M" using j by (auto simp: slot_blocks_def)
  then have "disk s' b = disk s b" if "b \<notin> slot_blocks s nd M" for b
    using d(7) that by metis
  then have "grown E s nd s' nd M"
    using num data d(2,5,6) by (auto simp: grown_def free_data_def)
  then show ?thesis using d(1,2,5) area blocks by blast
qed

lemma push_pointer:
  assumes ar: "area E s nd M" and M: "M = 1024 * count_pointers nd" and c: "count_pointers nd < 1000"
    and free: "free_data E s \<noteq> {}"
  shows "\<exists>q nd' s'. create_pointers_block_in_node E nd (of_nat (count_pointers nd)) s = Inr (q, nd', s') \<and>
    area E s' nd' M \<and> grown E s nd s' nd' M \<and> count_pointers nd' = Suc (count_pointers nd) \<and>
    slot_blocks s' nd' M = insert (unat q) (slot_blocks s nd M) \<and> unat q \<in> free_data E s \<and>
    free_data E s' = free_data E s - {unat q}"
proof -
  let ?c = "count_pointers nd"
  have bok: "bitmap_ok s" and nok: "node_ok nd" and zt: "zero_tail nd" and sl: "slots_ok s nd M"
    and lt: "\<forall>k < M. k div 1024 < ?c" using ar by (simp_all add: area_def)
  obtain q s' where q: "get_free_data_block E s = Inr (q, s')" "bitmap_ok s'" "disk s' = disk s"
      "unat q \<in> free_data E s" "free_data E s' = free_data E s - {unat q}"
      "\<forall>k < 3000. used E s' k \<longleftrightarrow> k = unat q \<or> used E s k"
    using get_free_data_block_spec [OF bok free] by blast
  let ?nd = "nd\<lparr>indirect_pointer_block := (indirect_pointer_block nd)[?c := q]\<rparr>"
  have u: "unat (of_nat ?c :: u16) = ?c" using c by (simp add: unat_of_nat)
  have q34: "34 \<le> unat q" "unat q < 3000" using q(4) by (simp_all add: free_data_def)
  have q0: "q \<noteq> 0" using q34(1) by auto
  note ap = add_pointer [OF nok zt c q0]
  have len: "length (indirect_pointer_block nd) = 1000" using nok by (simp add: node_ok_def)
  have ptr: "indirect_pointer_block ?nd ! i = indirect_pointer_block nd ! i" if "i < ?c" for i
    using that by simp
  have ptrc: "indirect_pointer_block ?nd ! ?c = q" using len c by simp
  have num: "data_block_num s' ?nd k = data_block_num s nd k" if "k < M" for k
    using ptr [OF lt [rule_format, OF that]] q(3) by (simp add: data_block_num_def cell_def)
  have fresh: "b \<noteq> unat q" if "b \<in> slot_blocks s nd M" for b
    using that ar q(4) by (auto simp: area_def free_data_def)
  have blocks: "slot_blocks s' ?nd M = insert (unat q) (slot_blocks s nd M)"
    using num ptr ptrc unfolding slot_blocks_def ap(1) by (auto simp: lessThan_Suc)
  have inj: "inj_on (\<lambda>i. unat (indirect_pointer_block ?nd ! i)) {..<Suc ?c}"
  proof -
    have "inj_on (\<lambda>i. unat (indirect_pointer_block ?nd ! i)) {..<?c} =
        inj_on (\<lambda>i. unat (indirect_pointer_block nd ! i)) {..<?c}"
      using ptr by (intro inj_on_cong) simp
    then have "inj_on (\<lambda>i. unat (indirect_pointer_block ?nd ! i)) {..<?c}"
      using sl by (simp add: slots_ok_def)
    moreover have "unat (indirect_pointer_block ?nd ! ?c) \<notin>
        (\<lambda>i. unat (indirect_pointer_block ?nd ! i)) ` {..<?c}"
      unfolding ptrc using fresh ptr by (auto simp: slot_blocks_def)
    ultimately show ?thesis by (simp only: lessThan_Suc inj_on_insert) simp
  qed
  have "inj_on (blk s' ?nd) {..<M} = inj_on (blk s nd) {..<M}" using num by (intro inj_on_cong) simp
  moreover have "unat (indirect_pointer_block ?nd ! i) \<noteq> blk s' ?nd k" if "i < Suc ?c" "k < M" for i k
  proof (cases "i = ?c")
    case True
    then show ?thesis using fresh [of "blk s nd k"] that(2) num ptrc by (auto simp: slot_blocks_def)
  next
    case False
    then show ?thesis using sl that num ptr unfolding slots_ok_def by simp
  qed
  ultimately have "slots_ok s' ?nd M" using inj sl unfolding slots_ok_def ap(1) by blast
  moreover have "34 \<le> b \<and> b < 3000 \<and> used E s' b" if "b \<in> slot_blocks s' ?nd M" for b
    using that ar q34 q(6) unfolding blocks by (auto simp: area_def)
  moreover have "k div 1024 < count_pointers ?nd" if "k < M" for k
    using lt that ap(1) by (simp add: less_SucI)
  moreover have "node_ok ?nd" using nok by (simp add: node_ok_def)
  moreover have "disk_ok s'" using ar q(3) by (simp add: area_def disk_ok_def)
  ultimately have area: "area E s' ?nd M" using q(2) ap(2) unfolding area_def by blast
  have "grown E s nd s' ?nd M" using num q(3,5,6) q34 by (auto simp: grown_def)
  moreover have "create_pointers_block_in_node E nd (of_nat ?c) s = Inr (q, ?nd, s')"
    using q(1) u c by (simp add: create_pointers_block_in_node_def set_pointer_def)
  ultimately show ?thesis using area ap(1) blocks q(4,5) by blast
qed

lemma add_data_block_spec:
  assumes ar: "area E s nd (next_slots nd)" and lim: "next_slots nd < 1024000"
    and fit: "count_pointers nd \<noteq> 0 \<longrightarrow> pointers_fit nd (unat (file_size nd) div 4096)"
    and free: "2 \<le> card (free_data E s)"
  shows "\<exists>nd' s'. add_data_block_to_node E nd s = Inr (nd', s') \<and>
    area E s' nd' (Suc (next_slots nd)) \<and> grown E s nd s' nd' (next_slots nd) \<and>
    count_pointers nd' = Suc (next_slots nd div 1024) \<and>
    slot_blocks s' nd' (Suc (next_slots nd)) \<subseteq> slot_blocks s nd (next_slots nd) \<union> free_data E s \<and>
    card (free_data E s) \<le> card (free_data E s') + 2"
proof -
  let ?M = "next_slots nd" and ?c = "count_pointers nd"
  have fin: "finite (free_data E s)" by (rule finite_subset [of _ "{..<3000}"]) (auto simp: free_data_def)
  have ne: "free_data E s \<noteq> {}" using free by auto
  show ?thesis
  proof (cases "?c \<noteq> 0 \<and> ?M < 1024 * ?c")
    case True
    let ?k = "unat (file_size nd) div 4096"
    have M: "?M = Suc ?k" using True by (simp add: next_slots_def file_slots_def)
    have c: "?c = Suc (?M div 1024)"
      using True fit unfolding M pointers_fit_def by (intro fit_same) auto
    obtain d s' where d: "create_data_block_in_pointer_block E nd (of_nat (?M div 1024)) (of_nat (?M mod 1024)) s = Inr (d, s')"
        "area E s' nd (Suc ?M)" "grown E s nd s' nd ?M"
        "slot_blocks s' nd (Suc ?M) = insert (unat d) (slot_blocks s nd ?M)" "unat d \<in> free_data E s"
        "free_data E s' = free_data E s - {unat d}"
      using push_block [OF ar c ne] by blast
    have "add_data_block_to_node E nd s = Inr (nd, s')"
      using d(1) True c unfolding add_data_block_cases M by (simp del: of_nat_Suc)
    then show ?thesis using d c fin by (intro exI [of _ nd] exI [of _ s']) (auto simp: card_Diff_singleton_if)
  next
    case False
    have M: "?M = 1024 * ?c"
    proof (cases "?c = 0")
      case ne: False
      then have M: "?M = Suc (unat (file_size nd) div 4096)" by (simp add: next_slots_def file_slots_def)
      have "Suc (unat (file_size nd) div 4096) = 1024 * ?c"
        by (rule fit_next) (use False ne fit M in \<open>simp_all add: pointers_fit_def\<close>)
      then show ?thesis by (simp only: M)
    qed (simp add: next_slots_def)
    have c: "?c < 1000" using lim M by simp
    obtain q nd' s1 where q: "create_pointers_block_in_node E nd (of_nat ?c) s = Inr (q, nd', s1)"
        "area E s1 nd' ?M" "grown E s nd s1 nd' ?M" "count_pointers nd' = Suc ?c"
        "slot_blocks s1 nd' ?M = insert (unat q) (slot_blocks s nd ?M)" "unat q \<in> free_data E s"
        "free_data E s1 = free_data E s - {unat q}"
      using push_pointer [OF ar M c ne] by blast
    have c1: "count_pointers nd' = Suc (?M div 1024)" using q(4) M by simp
    have "1 \<le> card (free_data E s1)" using free q(6,7) fin by (simp add: card_Diff_singleton)
    then have ne1: "free_data E s1 \<noteq> {}" by auto
    obtain d s' where d: "create_data_block_in_pointer_block E nd' (of_nat (?M div 1024)) (of_nat (?M mod 1024)) s1 = Inr (d, s')"
        "area E s' nd' (Suc ?M)" "grown E s1 nd' s' nd' ?M"
        "slot_blocks s' nd' (Suc ?M) = insert (unat d) (slot_blocks s1 nd' ?M)" "unat d \<in> free_data E s1"
        "free_data E s' = free_data E s1 - {unat d}"
      using push_block [OF q(2) c1 ne1] by blast
    have "\<not> unat (file_size nd) div 4096 + 1 < 1024 * ?c"
      using False by (cases "?c = 0") (auto simp: next_slots_def file_slots_def)
    then have "add_data_block_to_node E nd s = Inr (nd', s')"
      using q(1) d(1) unfolding add_data_block_cases M by simp
    moreover have "grown E s nd s' nd' ?M"
      using grown_trans [OF q(3) d(3)] q(5,6) by auto
    moreover have "slot_blocks s' nd' (Suc ?M) \<subseteq> slot_blocks s nd ?M \<union> free_data E s"
      using d(4,5) q(5-7) by auto
    moreover have "card (free_data E s) \<le> card (free_data E s') + 2"
      using d(5,6) q(6,7) fin by (simp add: card_Diff_singleton_if)
    ultimately show ?thesis using c1 d(2) by blast
  qed
qed

end

section \<open>Files being written\<close>

definition wfile :: "env \<Rightarrow> fs \<Rightarrow> t_node \<Rightarrow> bytes \<Rightarrow> bool" where
  "wfile E s nd bs \<longleftrightarrow>
     sizeof_ptr E = 4 \<and> count_pointers nd \<noteq> 0 \<and> area E s nd (file_slots nd) \<and>
     length bs = unat (file_size nd) \<and> pointers_fit nd (unat (file_size nd) div 4096) \<and>
     contents s nd bs"

lemma wfile_here:
  assumes "wfile E s nd bs"
  shows "file_here E s nd bs"
  using assms by (simp add: wfile_def file_here_def area_def file_ok_def file_blocks_def)

lemma area_mono: "area E s nd M \<Longrightarrow> N \<le> M \<Longrightarrow> area E s nd N"
  by (auto simp: area_def slots_ok_def slot_blocks_def inj_on_def)

lemma count_pointers_size [simp]: "count_pointers (nd\<lparr>file_size := z\<rparr>) = count_pointers nd"
  by (simp add: count_pointers_def)

lemma area_size [simp]: "area E s (nd\<lparr>file_size := z\<rparr>) M = area E s nd M"
  by (simp add: area_def slots_ok_def slot_blocks_def data_block_num_def node_ok_def zero_tail_def)

text \<open>Storing bytes in the \<open>k\<close>-th data block keeps the table of blocks.\<close>

lemma area_data:
  assumes "area E s nd M" and "k < M" and "length page = 4096"
    and s': "s' = s\<lparr>disk := (disk s)(blk s nd k := page)\<rparr>"
  shows "area E s' nd M" and "j < M \<Longrightarrow> data_block_num s' nd j = data_block_num s nd j"
    and "slot_blocks s' nd M = slot_blocks s nd M"
proof -
  have sl: "slots_ok s nd M" and lt: "\<forall>j < M. j div 1024 < count_pointers nd"
    using assms(1) by (simp_all add: area_def)
  have "disk s' (unat (indirect_pointer_block nd ! i)) = disk s (unat (indirect_pointer_block nd ! i))"
    if "i < count_pointers nd" for i
  proof -
    have "unat (indirect_pointer_block nd ! i) \<noteq> blk s nd k"
      using sl that assms(2) unfolding slots_ok_def by blast
    then show ?thesis by (simp add: s')
  qed
  then have ptrs: "\<forall>i < count_pointers nd. disk s' (unat (indirect_pointer_block nd ! i)) =
      disk s (unat (indirect_pointer_block nd ! i))" by blast
  note fr = slots_frame [OF lt refl ptrs]
  show "j < M \<Longrightarrow> data_block_num s' nd j = data_block_num s nd j" by (rule fr(1))
  show "slot_blocks s' nd M = slot_blocks s nd M" by (rule fr(3))
  have "disk_ok s'" using assms(1,3) by (simp add: area_def disk_ok_def s' const_simps)
  then show "area E s' nd M"
    using assms(1) fr(2,3) by (simp add: area_def s')
qed

text \<open>Overwriting from an offset inside the list, past its end if need be.\<close>

lemma length_memput_grow: "q \<le> length bs \<Longrightarrow> length (memput bs q xs) = max (length bs) (q + length xs)"
  by (simp add: memput_def)

lemma memput_nth_grow:
  "q \<le> length bs \<Longrightarrow> i < length bs \<or> i < q + length xs \<Longrightarrow> memput bs q xs ! i =
     (if i < q then bs ! i else if i < q + length xs then xs ! (i - q) else bs ! i)"
  by (auto simp: memput_def nth_append)

lemma contents_write:
  assumes cont: "contents s nd bs" and ar: "area E s nd M" and M: "length bs div 4096 < M"
    and q: "q \<le> length bs" and room: "q mod 4096 + length xs \<le> 4096"
  defines "b \<equiv> blk s nd (q div 4096)"
  defines "s' \<equiv> s\<lparr>disk := (disk s)(b := memput (disk s b) (q mod 4096) xs)\<rparr>"
  shows "area E s' nd M" and "contents s' nd (memput bs q xs)"
    and "slot_blocks s' nd M = slot_blocks s nd M" and "disk s' = (disk s)(b := disk s' b)"
proof -
  have qM: "q div 4096 < M" using q M div_le_mono [of q "length bs" 4096] by simp
  have len: "length (disk s b) = 4096"
    using ar area_block(2) [OF ar qM] by (simp add: b_def area_def disk_ok_length)
  have "length (memput (disk s b) (q mod 4096) xs) = 4096" using len room by (simp add: length_memput)
  note page = this
  have s'_eq: "s' = s\<lparr>disk := (disk s)(blk s nd (q div 4096) := memput (disk s b) (q mod 4096) xs)\<rparr>"
    by (simp add: s'_def b_def)
  note ad = area_data [OF ar qM page s'_eq]
  show "area E s' nd M" by (rule ad(1))
  show "slot_blocks s' nd M = slot_blocks s nd M" by (rule ad(3))
  show "disk s' = (disk s)(b := disk s' b)" by (simp add: s'_def)
  have sl: "slots_ok s nd M" using ar by (simp add: area_def)
  show "contents s' nd (memput bs q xs)"
    unfolding contents_def
  proof (intro allI impI)
    fix i
    assume "i < length (memput bs q xs)"
    then have i: "i < length bs \<or> i < q + length xs" using q by (auto simp: length_memput_grow)
    show "memput bs q xs ! i = disk s' (blk s' nd (i div 4096)) ! (i mod 4096)"
    proof (cases "q \<le> i \<and> i < q + length xs")
      case True
      define j where "j = i - q"
      have j: "i = q + j" "j < length xs" using True by (auto simp: j_def)
      then have "q mod 4096 + j < 4096" using room by simp
      note dm = offset_div_mod [OF this, folded j(1)]
      have "data_block_num s' nd (i div 4096) = data_block_num s nd (q div 4096)"
        using ad(2) qM dm(1) by simp
      then have "disk s' (blk s' nd (i div 4096)) ! (i mod 4096) = memput (disk s b) (q mod 4096) xs ! (q mod 4096 + j)"
        by (simp add: dm(2) s'_def b_def)
      also have "\<dots> = xs ! j" using j(2) room len by (simp add: memput_nth)
      finally show ?thesis using j q i by (simp add: memput_nth_grow)
    next
      case False
      then have ib: "i < length bs" using i q by arith
      have iM: "i div 4096 < M" using ib M div_le_mono [of i "length bs" 4096] by simp
      have num: "data_block_num s' nd (i div 4096) = data_block_num s nd (i div 4096)"
        using ad(2) iM by blast
      have old: "bs ! i = disk s (blk s nd (i div 4096)) ! (i mod 4096)"
        using cont ib by (simp add: contents_def)
      have "disk s' (blk s nd (i div 4096)) ! (i mod 4096) = disk s (blk s nd (i div 4096)) ! (i mod 4096)"
      proof (cases "i div 4096 = q div 4096")
        case same: True
        have "i mod 4096 < q mod 4096 \<or> q mod 4096 + length xs \<le> i mod 4096"
          using False same div_mult_mod_eq [of i 4096] div_mult_mod_eq [of q 4096] by linarith
        then show ?thesis using same len room by (auto simp: s'_def b_def memput_nth)
      next
        case diff: False
        then have "blk s nd (i div 4096) \<noteq> b"
          using sl iM qM by (auto simp: slots_ok_def inj_on_def b_def)
        then show ?thesis by (simp add: s'_def)
      qed
      moreover have "memput bs q xs ! i = bs ! i" using False q i by (auto simp: memput_nth_grow)
      ultimately show ?thesis using old num by simp
    qed
  qed
qed

section \<open>One turn of the write loop\<close>

text \<open>The size that the loop sets after it has written up to \<open>e\<close>.\<close>

definition resize :: "nat \<Rightarrow> nat \<Rightarrow> t_node \<Rightarrow> t_node" where
  "resize fs0 e nd = (if fs0 < e then nd\<lparr>file_size := of_nat e\<rparr> else nd)"

lemma resize_eq:
  "(if int off + int es > int fs0 then nd\<lparr>file_size := word_of_int (int off + int es)\<rparr> else nd) =
   resize fs0 (off + es) nd"
proof -
  have "word_of_int (int off + int es) = (of_nat (off + es) :: u32)"
    by (metis of_int_of_nat_eq of_nat_add)
  moreover have "int fs0 < int off + int es \<longleftrightarrow> fs0 < off + es" by linarith
  ultimately show ?thesis by (simp only: resize_def)
qed

definition write_chunk :: "nat \<Rightarrow> nat \<Rightarrow> nat" where
  "write_chunk q rest = min rest (4096 - q mod 4096)"

lemma write_chunk_bounds:
  assumes "0 < rest"
  shows "0 < write_chunk q rest" and "write_chunk q rest \<le> rest"
    and "q mod 4096 + write_chunk q rest \<le> 4096"
    and "write_chunk q rest < rest \<Longrightarrow> q mod 4096 + write_chunk q rest = 4096"
proof -
  have "q mod 4096 < 4096" by simp
  then show "0 < write_chunk q rest" and "write_chunk q rest \<le> rest"
    and "q mod 4096 + write_chunk q rest \<le> 4096"
    and "write_chunk q rest < rest \<Longrightarrow> q mod 4096 + write_chunk q rest = 4096"
    using assms by (auto simp: write_chunk_def min_def split: if_splits)
qed

lemma write_step_at:
  assumes get: "get_data_block_from_node E nd (of_nat (q div 4096)) s = Inr b"
    and es: "es < count" "count \<le> length data"
  defines "n \<equiv> write_chunk q (count - es)"
  defines "s1 \<equiv> s\<lparr>disk := (disk s)(b := memput (disk s b) (q mod 4096) (memget data es n))\<rparr>"
  shows "write_loop E data count (int off) (int fs0) nd (of_nat (q div 4096)) (int (q mod 4096)) es 0 s =
    (if q mod 4096 + n = 4096
     then bindE (add_data_block_to_node E nd s1) (\<lambda>(nd', s2).
            write_loop E data count (int off) (int fs0) (resize fs0 (off + (es + n)) nd')
              (of_nat (q div 4096) + 1) 0 (es + n) 0 s2)
     else write_loop E data count (int off) (int fs0) (resize fs0 (off + (es + n)) nd)
            (of_nat (q div 4096)) (int (q mod 4096)) (es + n) n s1)"
proof -
  have pos: "0 < count - es" using es(1) by simp
  note bd = write_chunk_bounds [OF pos, of q, folded n_def]
  have m: "q mod 4096 < 4096" by simp
  have n: "(if 0 \<le> int BLOCK_SIZE - int (q mod 4096) \<and>
        int (count - es) > int BLOCK_SIZE - int (q mod 4096)
      then nat (int BLOCK_SIZE - int (q mod 4096)) else count - es) = n"
    using m by (auto simp: n_def write_chunk_def min_def const_simps nat_diff_distrib)
  have len: "length (memget data es n) = n" using bd(2) es by (simp add: length_memget)
  have wr: "write_bytes s b (nat (int (q mod 4096) + int 0)) (memget data es n) = Inr s1"
    using bd(3) len by (simp add: write_bytes_def const_simps s1_def)
  have full: "int n = int BLOCK_SIZE - int (q mod 4096) \<and> es + n \<le> count \<longleftrightarrow> q mod 4096 + n = 4096"
    using bd(2) es(1) by (auto simp: const_simps)
  have in_buf: "\<not> length data < es + n" using bd(2) es by simp
  show ?thesis
    unfolding write_loop.simps [of E data count "int off" "int fs0" nd "of_nat (q div 4096)" "int (q mod 4096)" es 0 s]
      Let_def n get full
    using es(1) in_buf
    by (auto simp: wr [simplified] bindE_assoc case_prod_unfold resize_eq [symmetric] add.assoc)
qed

lemma write_step:
  assumes here: "file_here E s nd cur" and es: "es < count" "count \<le> length data" and q: "q \<le> length cur"
  defines "n \<equiv> write_chunk q (count - es)" and "b \<equiv> blk s nd (q div 4096)"
  defines "s1 \<equiv> s\<lparr>disk := (disk s)(b := memput (disk s b) (q mod 4096) (memget data es n))\<rparr>"
  shows "write_loop E data count (int off) (int fs0) nd (of_nat (q div 4096)) (int (q mod 4096)) es 0 s =
    (if q mod 4096 + n = 4096
     then bindE (add_data_block_to_node E nd s1) (\<lambda>(nd', s2).
            write_loop E data count (int off) (int fs0) (resize fs0 (off + (es + n)) nd')
              (of_nat (q div 4096) + 1) 0 (es + n) 0 s2)
     else write_loop E data count (int off) (int fs0) (resize fs0 (off + (es + n)) nd)
            (of_nat (q div 4096)) (int (q mod 4096)) (es + n) n s1)"
proof -
  have "q div 4096 \<le> length cur div 4096" using q by (rule div_le_mono)
  from write_step_at [OF file_get_block [OF here this] es, of off fs0] show ?thesis
    unfolding n_def b_def s1_def .
qed

text \<open>A write that ends inside one block.\<close>

lemma write_loop_once:
  assumes get: "get_data_block_from_node E nd (of_nat (off div 4096)) s = Inr b"
    and c: "0 < count" "count \<le> length data" "off mod 4096 + count < 4096"
  shows "write_loop E data count (int off) (int fs0) nd (of_nat (off div 4096)) (int (off mod 4096)) 0 0 s =
    Inr (resize fs0 (off + count) nd, s\<lparr>disk := (disk s)(b := memput (disk s b) (off mod 4096) (take count data))\<rparr>)"
proof -
  have n: "write_chunk off (count - 0) = count" using c(3) by (simp add: write_chunk_def)
  show ?thesis
    using write_step_at [OF get c(1,2), of off fs0, unfolded n] c(3)
    by (simp add: write_loop.simps [of _ _ count _ _ _ _ _ count] memget_def)
qed

text \<open>
  \<open>evolves E s nd s' nd'\<close>: the node may have taken free blocks; nothing else has changed on
  the disk but its own blocks.
\<close>

definition evolves :: "env \<Rightarrow> fs \<Rightarrow> t_node \<Rightarrow> fs \<Rightarrow> t_node \<Rightarrow> bool" where
  "evolves E s nd s' nd' \<longleftrightarrow>
     (\<forall>b. b \<notin> slot_blocks s nd (next_slots nd) \<union> free_data E s \<longrightarrow> disk s' b = disk s b) \<and>
     (\<forall>k < 3000. used E s k \<longrightarrow> used E s' k) \<and> (\<forall>k < 34. used E s' k \<longrightarrow> used E s k) \<and>
     free_data E s' \<subseteq> free_data E s \<and>
     slot_blocks s' nd' (next_slots nd') \<subseteq> slot_blocks s nd (next_slots nd) \<union> free_data E s \<and>
     nd'\<lparr>indirect_pointer_block := indirect_pointer_block nd, file_size := file_size nd\<rparr> = nd"

lemma resize_fields [simp]:
  "indirect_pointer_block (resize a e nd) = indirect_pointer_block nd"
  "count_pointers (resize a e nd) = count_pointers nd" "area E s (resize a e nd) M = area E s nd M"
  "contents s (resize a e nd) bs = contents s nd bs"
  "slot_blocks s (resize a e nd) M = slot_blocks s nd M"
  by (simp_all add: resize_def contents_def slot_blocks_def data_block_num_def)

lemma slot_blocks_mono: "N \<le> M \<Longrightarrow> slot_blocks s nd N \<subseteq> slot_blocks s nd M"
  by (auto simp: slot_blocks_def)

lemma evolves_refl: "evolves E s nd s nd"
  by (simp add: evolves_def)

lemma evolvesD:
  assumes "evolves E s nd s' nd'"
  shows "b \<notin> slot_blocks s nd (next_slots nd) \<Longrightarrow> b \<notin> free_data E s \<Longrightarrow> disk s' b = disk s b"
    and "k < 3000 \<Longrightarrow> used E s k \<Longrightarrow> used E s' k" and "k < 34 \<Longrightarrow> used E s' k \<Longrightarrow> used E s k"
    and "free_data E s' \<subseteq> free_data E s"
    and "slot_blocks s' nd' (next_slots nd') \<subseteq> slot_blocks s nd (next_slots nd) \<union> free_data E s"
    and "nd'\<lparr>indirect_pointer_block := indirect_pointer_block nd, file_size := file_size nd\<rparr> = nd"
  using assms unfolding evolves_def by blast+

lemma evolves_trans:
  assumes "evolves E s nd s1 nd1" and "evolves E s1 nd1 s2 nd2"
  shows "evolves E s nd s2 nd2"
proof -
  note a = evolvesD [OF assms(1)] and b = evolvesD [OF assms(2)]
  have "nd2\<lparr>indirect_pointer_block := indirect_pointer_block nd, file_size := file_size nd\<rparr> =
      (nd2\<lparr>indirect_pointer_block := indirect_pointer_block nd1, file_size := file_size nd1\<rparr>)
        \<lparr>indirect_pointer_block := indirect_pointer_block nd, file_size := file_size nd\<rparr>" by simp
  then have "nd2\<lparr>indirect_pointer_block := indirect_pointer_block nd, file_size := file_size nd\<rparr> = nd"
    unfolding b(6) a(6) .
  moreover have "disk s2 x = disk s x" if "x \<notin> slot_blocks s nd (next_slots nd) \<union> free_data E s" for x
    using that a(1) [of x] b(1) [of x] a(4,5) by auto
  moreover have "\<forall>k < 3000. used E s k \<longrightarrow> used E s2 k" using a(2) b(2) by blast
  moreover have "\<forall>k < 34. used E s2 k \<longrightarrow> used E s k" using a(3) b(3) by blast
  moreover have "free_data E s2 \<subseteq> free_data E s" using a(4) b(4) by blast
  moreover have "slot_blocks s2 nd2 (next_slots nd2) \<subseteq> slot_blocks s nd (next_slots nd) \<union> free_data E s"
    using a(4,5) b(5) by blast
  ultimately show ?thesis unfolding evolves_def by blast
qed

text \<open>The contents of the data blocks that a growth keeps.\<close>

lemma contents_grown:
  assumes "contents s nd bs" and "grown E s nd s' nd' M" and "\<forall>i < length bs. i div 4096 < M"
  shows "contents s' nd' bs"
  using assms by (simp add: contents_def grown_def)

lemma last_block:
  assumes "q \<le> length bs" and "q mod 4096 + length xs \<le> 4096" and "i < length (memput bs q xs)"
  shows "i div 4096 \<le> length bs div 4096"
proof (cases "i < length bs")
  case True
  then show ?thesis by (intro div_le_mono) simp
next
  case False
  define j where "j = i - q"
  have j: "i = q + j" using False assms(1) by (simp add: j_def)
  have "q mod 4096 + j < 4096" using False assms by (simp add: length_memput_grow j_def)
  from offset_div_mod(1) [OF this] have "i div 4096 = q div 4096" unfolding j .
  then show ?thesis using assms(1) by (simp add: div_le_mono)
qed

lemma resize_size:
  assumes "unat (file_size nd) = max fs0 q" and "e < 2 ^ 31" and "q \<le> e"
  shows "unat (file_size (resize fs0 e nd)) = max fs0 e"
proof (cases "fs0 < e")
  case True
  have "unat (of_nat e :: u32) = e" using assms(2) by (intro unat_of_nat_small) simp
  then show ?thesis using True by (simp add: resize_def)
next
  case False
  then have "max fs0 q = fs0" and "max fs0 e = fs0" using assms(3) by auto
  with False show ?thesis using assms(1) by (simp only: resize_def if_False)
qed

lemma wfile_resize:
  assumes "sizeof_ptr E = 4" and "count_pointers nd \<noteq> 0" and "contents s nd bs"
    and "area E s nd M" and "length bs div 4096 < M" and "pointers_fit nd (length bs div 4096)"
    and "unat (file_size (resize fs0 e nd)) = length bs"
  shows "wfile E s (resize fs0 e nd) bs"
proof -
  have "area E s nd (Suc (length bs div 4096))" by (rule area_mono [OF assms(4)]) (use assms(5) in simp)
  moreover have "pointers_fit (resize fs0 e nd) (length bs div 4096)"
    using assms(6) by (simp add: pointers_fit_def)
  ultimately show ?thesis
    unfolding wfile_def file_slots_def assms(7) using assms(1-3) by simp
qed

lemma wfile_slots: "wfile E s nd bs \<Longrightarrow> next_slots nd = file_slots nd \<and> file_slots nd = Suc (length bs div 4096)"
  by (simp add: wfile_def next_slots_def file_slots_def)

lemma next_slots_resize:
  "count_pointers nd \<noteq> 0 \<Longrightarrow> unat (file_size (resize a e nd)) = z \<Longrightarrow>
   next_slots (resize a e nd) = Suc (z div 4096)"
  by (simp add: next_slots_def file_slots_def)

text \<open>A turn that does not fill its block: the last one.\<close>

lemma write_turn_partial:
  assumes wf: "wfile E s nd cur" and q: "q \<le> length cur" and lc: "length cur = max fs0 q"
    and room: "q mod 4096 + length xs < 4096" and lim: "q + length xs < 2 ^ 31"
  defines "b \<equiv> blk s nd (q div 4096)"
  defines "s1 \<equiv> s\<lparr>disk := (disk s)(b := memput (disk s b) (q mod 4096) xs)\<rparr>"
    and "nd1 \<equiv> resize fs0 (q + length xs) nd"
  shows "wfile E s1 nd1 (memput cur q xs)" and "evolves E s nd s1 nd1" and "free_data E s1 = free_data E s"
proof -
  let ?M = "file_slots nd" and ?cur = "memput cur q xs"
  have w: "sizeof_ptr E = 4" "count_pointers nd \<noteq> 0" "area E s nd ?M" "length cur = unat (file_size nd)"
      "pointers_fit nd (length cur div 4096)" "contents s nd cur"
    using wf by (simp_all add: wfile_def)
  have M: "?M = Suc (length cur div 4096)" "next_slots nd = ?M" using wfile_slots [OF wf] by simp_all
  note cw = contents_write [OF w(6,3) _ q less_imp_le [OF room], folded b_def, folded s1_def]
  have lM: "length cur div 4096 < ?M" by (simp add: M)
  have len: "length ?cur = max fs0 (q + length xs)" using q lc by (simp add: length_memput_grow)
  have "(q + length xs) div 4096 = q div 4096" using room by (rule offset_div_mod(1))
  then have K: "length ?cur div 4096 = length cur div 4096"
    unfolding len lc by (simp add: max_def div_le_mono le_antisym)
  have sz: "unat (file_size nd1) = length ?cur"
    unfolding nd1_def len using w(4) lc lim by (intro resize_size [where q = q]) simp_all
  show "wfile E s1 nd1 ?cur"
    unfolding nd1_def
    using w cw(1,2) lM K sz [unfolded nd1_def] by (intro wfile_resize [where M = ?M]) simp_all
  show f: "free_data E s1 = free_data E s" by (simp add: s1_def)
  have ns: "next_slots nd1 = ?M" unfolding nd1_def
    using next_slots_resize [OF w(2) sz [unfolded nd1_def]] K M by simp
  have inb: "b \<in> slot_blocks s nd ?M"
    unfolding b_def slot_blocks_def M(1) using q by (intro UnI2 imageI) (simp add: less_Suc_eq_le div_le_mono)
  have "slot_blocks s1 nd1 ?M = slot_blocks s nd ?M" unfolding nd1_def using cw(3) lM by simp
  moreover have "disk s1 x = disk s x" if "x \<notin> slot_blocks s nd ?M" for x
    using that inb by (auto simp: s1_def)
  moreover have "used E s1 k = used E s k" for k by (simp add: s1_def)
  moreover have "nd1\<lparr>indirect_pointer_block := indirect_pointer_block nd, file_size := file_size nd\<rparr> = nd"
    by (simp add: nd1_def resize_def)
  ultimately show "evolves E s nd s1 nd1" using f by (simp add: evolves_def ns M(2))
qed

text \<open>A turn that fills its block adds the next one.\<close>

lemma grown_size: "grown E s nd s' nd' M \<Longrightarrow> file_size nd' = file_size nd"
proof -
  assume "grown E s nd s' nd' M"
  then have "nd'\<lparr>indirect_pointer_block := indirect_pointer_block nd\<rparr> = nd" by (simp add: grown_def)
  from arg_cong [OF this, of file_size] show ?thesis by simp
qed

context bitarray_lib
begin

lemma write_turn_full:
  assumes wf: "wfile E s nd cur" and q: "q \<le> length cur" and lc: "length cur = max fs0 q"
    and full: "q mod 4096 + length xs = 4096" and lim: "q + length xs < 2 ^ 31" "fs0 < 2 ^ 31"
    and free: "2 \<le> card (free_data E s)"
  defines "b \<equiv> blk s nd (q div 4096)"
  defines "s1 \<equiv> s\<lparr>disk := (disk s)(b := memput (disk s b) (q mod 4096) xs)\<rparr>"
  shows "\<exists>nd2 s2. add_data_block_to_node E nd s1 = Inr (nd2, s2) \<and>
    wfile E s2 (resize fs0 (q + length xs) nd2) (memput cur q xs) \<and>
    evolves E s nd s2 (resize fs0 (q + length xs) nd2) \<and> card (free_data E s) \<le> card (free_data E s2) + 2"
proof -
  let ?M = "file_slots nd" and ?cur = "memput cur q xs" and ?e = "q + length xs"
  let ?K = "length cur div 4096"
  have w: "sizeof_ptr E = 4" "count_pointers nd \<noteq> 0" "area E s nd ?M" "length cur = unat (file_size nd)"
      "pointers_fit nd ?K" "contents s nd cur"
    using wf by (simp_all add: wfile_def)
  have M: "?M = Suc ?K" "next_slots nd = ?M" using wfile_slots [OF wf] by simp_all
  note cw = contents_write [OF w(6,3) _ q eq_imp_le [OF full], folded b_def, folded s1_def]
  have lM: "?K < ?M" by (simp add: M)
  have "length cur < 2 ^ 31" using lc lim by simp
  then have "?K < 524288" by (simp add: div_less_iff_less_mult)
  then have lim1: "next_slots nd < 1024000" using M by simp
  have f1: "free_data E s1 = free_data E s" by (simp add: s1_def)
  have ar1: "area E s1 nd (next_slots nd)" using cw(1) [OF lM] M(2) by simp
  have fit: "count_pointers nd \<noteq> 0 \<longrightarrow> pointers_fit nd (unat (file_size nd) div 4096)"
    using w(4,5) by simp
  have free1: "2 \<le> card (free_data E s1)" using free f1 by simp
  obtain nd2 s2 where g: "add_data_block_to_node E nd s1 = Inr (nd2, s2)" "area E s2 nd2 (Suc ?M)"
      "grown E s1 nd s2 nd2 ?M" "count_pointers nd2 = Suc (?M div 1024)"
      "slot_blocks s2 nd2 (Suc ?M) \<subseteq> slot_blocks s1 nd ?M \<union> free_data E s1"
      "card (free_data E s1) \<le> card (free_data E s2) + 2"
    using add_data_block_spec [OF ar1 lim1 fit free1] unfolding M(2) by blast
  have "\<forall>i < length ?cur. i div 4096 < ?M"
    using last_block [OF q eq_imp_le [OF full]] M(1) by (simp add: less_Suc_eq_le)
  then have cont: "contents s2 nd2 ?cur" by (rule contents_grown [OF cw(2) [OF lM] g(3)])
  have len: "length ?cur = max fs0 ?e" using q lc by (simp add: length_memput_grow)
  have sz: "unat (file_size (resize fs0 ?e nd2)) = length ?cur"
    unfolding len using w(4) lc lim grown_size [OF g(3)] by (intro resize_size [where q = q]) simp_all
  have "(q div 4096 + 1) * 4096 = q div 4096 * 4096 + 4096" by simp
  then have "?e = (q div 4096 + 1) * 4096" using full div_mult_mod_eq [of q 4096] by linarith
  then have "?e div 4096 = Suc (q div 4096)" by simp
  moreover have "q div 4096 \<le> ?K" using q by (rule div_le_mono)
  ultimately have eK: "?e div 4096 \<le> Suc ?K" by simp
  have K': "length ?cur div 4096 = ?K \<or> length ?cur div 4096 = Suc ?K"
  proof (cases "?e \<le> length cur")
    case True
    then have "length ?cur = length cur" unfolding len using lc by linarith
    then show ?thesis by simp
  next
    case False
    then have "length ?cur = ?e" unfolding len using lc by linarith
    moreover have "?K \<le> ?e div 4096" using False by (intro div_le_mono) simp
    ultimately show ?thesis using eK by (simp only:) linarith
  qed
  then have lt: "length ?cur div 4096 < Suc ?M" by (auto simp: M(1))
  have "pointers_fit nd2 (length ?cur div 4096)"
    using K' g(4) by (auto simp: pointers_fit_def M(1))
  then have wf2: "wfile E s2 (resize fs0 ?e nd2) ?cur"
    using w(1) cont g(2,4) lt sz by (intro wfile_resize [where M = "Suc ?M"]) simp_all
  have inb: "b \<in> slot_blocks s nd ?M"
    unfolding b_def slot_blocks_def M(1) using q by (intro UnI2 imageI) (simp add: less_Suc_eq_le div_le_mono)
  have sb: "slot_blocks s1 nd ?M = slot_blocks s nd ?M" using cw(3) lM by simp
  have G: "\<forall>b. b \<notin> slot_blocks s1 nd ?M \<union> free_data E s1 \<longrightarrow> disk s2 b = disk s1 b"
      "\<forall>k < 3000. used E s1 k \<longrightarrow> used E s2 k" "\<forall>k < 34. used E s2 k \<longrightarrow> used E s1 k"
      "free_data E s2 \<subseteq> free_data E s1" "nd2\<lparr>indirect_pointer_block := indirect_pointer_block nd\<rparr> = nd"
    using g(3) unfolding grown_def by blast+
  have u1: "used E s1 k = used E s k" for k by (simp add: s1_def)
  have "evolves E s nd s2 (resize fs0 ?e nd2)"
    unfolding evolves_def M(2)
  proof (intro conjI)
    show "\<forall>x. x \<notin> slot_blocks s nd ?M \<union> free_data E s \<longrightarrow> disk s2 x = disk s x"
      using G(1) inb unfolding sb f1 by (auto simp: s1_def)
    show "slot_blocks s2 (resize fs0 ?e nd2) (next_slots (resize fs0 ?e nd2)) \<subseteq> slot_blocks s nd ?M \<union> free_data E s"
      using g(5) slot_blocks_mono [of "Suc (length ?cur div 4096)" "Suc ?M" s2 nd2] lt
        next_slots_resize [OF _ sz] g(4) unfolding sb f1 by fastforce
    show "\<forall>k < 3000. used E s k \<longrightarrow> used E s2 k" and "\<forall>k < 34. used E s2 k \<longrightarrow> used E s k"
      and "free_data E s2 \<subseteq> free_data E s"
      using G(2-4) unfolding u1 f1 by blast+
    show "(resize fs0 ?e nd2)\<lparr>indirect_pointer_block := indirect_pointer_block nd, file_size := file_size nd\<rparr> = nd"
    proof -
      have "(resize fs0 ?e nd2)\<lparr>indirect_pointer_block := indirect_pointer_block nd, file_size := file_size nd\<rparr> =
          (nd2\<lparr>indirect_pointer_block := indirect_pointer_block nd\<rparr>)\<lparr>file_size := file_size nd\<rparr>"
        by (simp add: resize_def)
      also have "nd2\<lparr>indirect_pointer_block := indirect_pointer_block nd\<rparr> = nd"
        by (rule G(5))
      finally show ?thesis by simp
    qed
  qed
  then show ?thesis using g(1,6) wf2 unfolding f1 by blast
qed

end

end
