(* ===== verification/Write_Spec.thy ===== *)
theory Write_Spec
  imports File_Write
begin

text \<open>
  Writing a file: the loop of \<open>sac_write\<close> stores the buffer at the offset, taking data
  and pointer blocks from the free ones as blocks fill up, and \<open>sac_write\<close> refines the update
  of the abstract content; a read after a write returns the bytes written.
\<close>

section \<open>The loop\<close>

lemma memput_append_grow:
  "pos \<le> length bs \<Longrightarrow> memput (memput bs pos xs) (pos + length xs) ys = memput bs pos (xs @ ys)"
  by (simp add: memput_def add_ac)

lemma memput_split:
  assumes "q \<le> length bs" and "n \<le> m" and "es + m \<le> length data"
  shows "memput (memput bs q (memget data es n)) (q + n) (memget data (es + n) (m - n)) =
    memput bs q (memget data es m)"
proof -
  have n: "length (memget data es n) = n" using assms(2,3) by (simp add: length_memget)
  have "take n (drop es data) @ take (m - n) (drop (es + n) data) = take m (drop es data)"
    using assms(2) by (metis add.commute drop_drop le_add_diff_inverse take_add)
  then have "memget data es n @ memget data (es + n) (m - n) = memget data es m"
    by (simp only: memget_def)
  then show ?thesis
    using memput_append_grow [OF assms(1), of "memget data es n" "memget data (es + n) (m - n)"] n by simp
qed

lemma memput_nil: "memput bs q [] = bs"
  by (simp add: memput_def)

context bitarray_lib
begin

lemma write_loop_spec:
  assumes "wfile E s nd cur" and "off + es \<le> length cur" and "length cur = max fs0 (off + es)"
    and "es \<le> count" and "count \<le> length data" and "off + count < 2 ^ 31" and "fs0 < 2 ^ 31"
    and "2 * ((off + count) div 4096 - (off + es) div 4096) \<le> card (free_data E s)"
  shows "\<exists>nd' s'. write_loop E data count (int off) (int fs0) nd
      (of_nat ((off + es) div 4096)) (int ((off + es) mod 4096)) es 0 s = Inr (nd', s') \<and>
    wfile E s' nd' (memput cur (off + es) (memget data es (count - es))) \<and> evolves E s nd s' nd' \<and>
    card (free_data E s) \<le> card (free_data E s') + 2 * ((off + count) div 4096 - (off + es) div 4096)"
  using assms
proof (induction "count - es" arbitrary: es s nd cur rule: less_induct)
  case less
  note wf = less.prems(1) and q = less.prems(2) and lc = less.prems(3)
  let ?q = "off + es"
  show ?case
  proof (cases "es < count")
    case False
    then have "es = count" using less.prems(4) by simp
    then show ?thesis
      using wf by (simp add: write_loop.simps memget_def memput_nil evolves_refl)
  next
    case True
    define n where "n = write_chunk ?q (count - es)"
    define b where "b = blk s nd (?q div 4096)"
    let ?xs = "memget data es n"
    define s1 where "s1 = s\<lparr>disk := (disk s)(b := memput (disk s b) (?q mod 4096) ?xs)\<rparr>"
    have pos: "0 < count - es" using True by simp
    note bd = write_chunk_bounds [OF pos, of ?q, folded n_def]
    have esn: "es + n \<le> count" using bd(2) True by simp
    have len: "length ?xs = n" using esn less.prems(5) by (simp add: length_memget)
    note step = write_step [OF wfile_here [OF wf] True less.prems(5) q, of off fs0, folded n_def b_def, folded s1_def]
    have lim: "?q + n < 2 ^ 31" using esn less.prems(6) by simp
    show ?thesis
    proof (cases "?q mod 4096 + n = 4096")
      case False
      then have "n = count - es" using bd(2-4) by linarith
      then have room: "?q mod 4096 + n < 4096" and all: "es + n = count" using False bd(3) True by simp_all
      note W = write_turn_partial [OF wf q lc, of ?xs, unfolded len, OF room lim, folded b_def, folded s1_def]
      have "write_loop E data count (int off) (int fs0) nd (of_nat (?q div 4096)) (int (?q mod 4096)) es 0 s =
          Inr (resize fs0 (?q + n) nd, s1)"
        unfolding step using False all by (simp add: write_loop.simps [of _ _ count _ _ _ _ _ count] add.assoc)
      moreover have "(off + count) div 4096 = ?q div 4096"
        using offset_div_mod(1) [OF room] all by (simp add: add.assoc)
      ultimately show ?thesis using W \<open>n = count - es\<close> by auto
    next
      case full: True
      have "(?q div 4096 + 1) * 4096 = ?q div 4096 * 4096 + 4096" by simp
      then have e: "?q + n = (?q div 4096 + 1) * 4096" using full div_mult_mod_eq [of ?q 4096] by linarith
      then have d: "(?q + n) div 4096 = Suc (?q div 4096)" and m: "(?q + n) mod 4096 = 0"
        by (simp_all add: mod_mult_self2_is_0)
      have "(?q + n) div 4096 \<le> (off + count) div 4096" using esn by (intro div_le_mono) simp
      then have rest: "(off + count) div 4096 - ?q div 4096 = Suc ((off + count) div 4096 - (?q + n) div 4096)"
        unfolding d by simp
      then have free: "2 \<le> card (free_data E s)" using less.prems(8) by linarith
      obtain nd2 s2 where g: "add_data_block_to_node E nd s1 = Inr (nd2, s2)"
          "wfile E s2 (resize fs0 (?q + n) nd2) (memput cur ?q ?xs)"
          "evolves E s nd s2 (resize fs0 (?q + n) nd2)" "card (free_data E s) \<le> card (free_data E s2) + 2"
        using write_turn_full [OF wf q lc, of ?xs, unfolded len, OF full lim less.prems(7) free,
            folded b_def, folded s1_def] by blast
      let ?nd2 = "resize fs0 (?q + n) nd2" and ?cur = "memput cur ?q ?xs"
      have lcur: "length ?cur = max (length cur) (?q + n)" using q len by (simp add: length_memput_grow)
      obtain nd' s' where r: "write_loop E data count (int off) (int fs0) ?nd2
            (of_nat ((off + (es + n)) div 4096)) (int ((off + (es + n)) mod 4096)) (es + n) 0 s2 = Inr (nd', s')"
          "wfile E s' nd' (memput ?cur (off + (es + n)) (memget data (es + n) (count - (es + n))))"
          "evolves E s2 ?nd2 s' nd'"
          "card (free_data E s2) \<le> card (free_data E s') + 2 * ((off + count) div 4096 - (off + (es + n)) div 4096)"
      proof -
        have "2 * ((off + count) div 4096 - (off + (es + n)) div 4096) \<le> card (free_data E s2)"
          using less.prems(8) g(4) rest by (simp add: add.assoc)
        moreover have "count - (es + n) < count - es" using bd(1) True esn by simp
        moreover have "wfile E s2 ?nd2 ?cur" by (rule g(2))
        moreover have "off + (es + n) \<le> length ?cur" unfolding lcur by simp
        moreover have "length ?cur = max fs0 (off + (es + n))" unfolding lcur lc by simp
        ultimately show ?thesis using less.hyps [of "es + n" s2 ?nd2 ?cur] esn less.prems(5-7) that by blast
      qed
      have "write_loop E data count (int off) (int fs0) nd (of_nat (?q div 4096)) (int (?q mod 4096)) es 0 s =
          Inr (nd', s')"
      proof -
        have "of_nat (?q div 4096) + 1 = (of_nat ((off + (es + n)) div 4096) :: u32)"
          using d unfolding add.assoc by (simp only: of_nat_Suc add.commute)
        moreover have "int ((off + (es + n)) mod 4096) = 0" using m unfolding add.assoc by (simp only: of_nat_0)
        ultimately show ?thesis
          unfolding step if_P [OF full] g(1) using r(1) by (simp add: add.assoc)
      qed
      moreover have "memput ?cur (off + (es + n)) (memget data (es + n) (count - (es + n))) =
          memput cur ?q (memget data es (count - es))"
        using memput_split [OF q bd(2), of es data] less.prems(5) True by (simp add: add.assoc)
      moreover have "card (free_data E s) \<le> card (free_data E s') + 2 * ((off + count) div 4096 - ?q div 4096)"
        using r(4) g(4) rest by (simp add: add.assoc)
      ultimately show ?thesis
        using r(2) evolves_trans [OF g(3) r(3)] by auto
    qed
  qed
qed

end

section \<open>\<open>sac_write\<close>\<close>

text \<open>What a write that only touches its node's blocks and free ones does to the store.\<close>

lemma store_ok_evolves:
  assumes st: "store_ok E s A Q" and A: "A n = Some (File p bs)" and nd: "named nd" "inode_ok s nd (File p bs) (Q n)"
    and ev: "evolves E s nd s' nd'" and wf: "wfile E s' nd' bs'"
  shows "store_ok E (unmap_and_destroy_node nd' (2 + n) s') (A(n \<mapsto> File p bs')) (Q(n := file_blocks s' nd'))"
proof -
  let ?R = "file_blocks s' nd'" and ?s = "put_node nd' (2 + n) s'" and ?B = "Q n \<union> free_data E s"
  note e = evolvesD [OF ev] and sD = store_okD [OF st] and nD = store_nodeD [OF st A]
  have c': "count_pointers nd' \<noteq> 0" and ar: "area E s' nd' (file_slots nd')" using wf by (simp_all add: wfile_def)
  have s': "disk_ok s'" "bitmap_ok s'" and nok: "node_ok nd'" using ar by (simp_all add: area_def)
  have Q: "slot_blocks s nd (next_slots nd) = Q n"
    using nd(2) by (auto simp: file_blocks_def next_slots_def slot_blocks_def split: if_splits)
  have R: "?R = slot_blocks s' nd' (next_slots nd')" using c' by (simp add: file_blocks_def next_slots_def)
  have RB: "?R \<subseteq> ?B" using e(5) unfolding R Q .
  have Rok: "\<forall>b \<in> ?R. 34 \<le> b \<and> b < 3000 \<and> used E s' b"
    using ar c' by (simp add: area_def file_blocks_def)
  have fn: "file_name nd' = file_name nd" "state nd' = state nd" "parent_block nd' = parent_block nd"
    using arg_cong [OF e(6), of file_name] arg_cong [OF e(6), of state] arg_cong [OF e(6), of parent_block] by simp_all
  have nm: "named nd'" using nd(1) nok fn by (simp add: named_def)
  have free: "Q m \<inter> free_data E s = {}" for m using sD(3) by (auto simp: free_data_def)
  have ino: "inode_ok s' nd' (File p bs') ?R"
    using nd(2) fn wfile_here [OF wf] by (simp add: file_here_def)
  have d: "disk ?s = (disk s')(2 + n := node_bytes nd')"
    using nok s'(1) nD(1) by (intro put_node_disk) auto
  have at: "node_at ?s n = nd'"
    using put_node_at [OF nok s'(1), of n n] nD(1) by (simp add: const_simps)
  have "2 + n \<notin> ?R" using Rok nD(1) by force
  then have ino': "inode_ok ?s nd' (File p bs') ?R"
    using nok d by (intro inode_ok_frame [OF ino]) auto
  have "store_ok E ?s (A(n \<mapsto> File p bs')) (Q(n := ?R))"
  proof (rule store_ok_update [OF st nD(1), where B = ?B])
    show "disk_ok ?s" using nok s'(1) nD(1) by (simp add: put_node_disk_ok)
    show "bitmap_ok ?s" using s'(2) by (simp add: put_node_def)
    show "\<forall>b. b \<noteq> 2 + n \<and> b \<notin> ?B \<longrightarrow> disk ?s b = disk s b" using e(1) unfolding d Q by simp
    show "\<forall>b \<in> ?B. 34 \<le> b" using sD(3) by (auto simp: free_data_def)
    show "\<forall>m. m \<noteq> n \<longrightarrow> Q m \<inter> ?B = {}" using sD(4) free by blast
    show "\<forall>b < 3000. used E s b \<longrightarrow> used E ?s b" using e(2) by (simp add: put_node_def)
    show "used E ?s (2 + n)" using e(2) nD(1,2) by (simp add: put_node_def)
    show "named (node_at ?s n)" unfolding at by (rule nm)
    show "inode_ok ?s (node_at ?s n) (File p bs') ?R" unfolding at by (rule ino')
    show "\<forall>b \<in> ?R. 34 \<le> b \<and> b < 3000 \<and> used E ?s b" using Rok by (simp add: put_node_def)
    show "\<forall>m. m \<noteq> n \<longrightarrow> Q m \<inter> ?R = {}" using RB sD(4) free by blast
  qed
  then show ?thesis by (simp add: unmap_and_destroy_node_def)
qed

lemma evolves_used: "evolves E s nd s' nd' \<Longrightarrow> k < 34 \<Longrightarrow> used E s' k = used E s k"
  using evolvesD(2,3) [of E s nd s' nd' k] by auto

text \<open>A file without blocks is given its first one.\<close>

context bitarray_lib
begin

lemma first_block:
  assumes st: "store_ok E s A Q" and ptr: "sizeof_ptr E = 4" and A: "A n = Some (File p bs)"
    and nd: "named nd" "inode_ok s nd (File p bs) (Q n)" and free: "2 \<le> card (free_data E s)"
  shows "\<exists>nd' s'. (if indirect_pointer_block nd ! 0 = 0 then add_data_block_to_node E nd s else Inr (nd, s)) =
      Inr (nd', s') \<and> wfile E s' nd' bs \<and> evolves E s nd s' nd' \<and>
    card (free_data E s) \<le> card (free_data E s') + 2"
proof (cases "count_pointers nd = 0")
  case False
  have "indirect_pointer_block nd ! 0 \<noteq> 0"
    using False count_pointers_zero [of nd] nd(1) by (simp add: named_def)
  moreover have "wfile E s nd bs"
  proof -
    have f: "file_ok s nd bs" "Q n = slot_blocks s nd (file_slots nd)"
      using nd(2) False by (simp_all add: file_blocks_def)
    have "pointers_fit nd (unat (file_size nd) div 4096)" "slots_ok s nd (file_slots nd)" "contents s nd bs"
      "zero_tail nd" "length bs = unat (file_size nd)"
      using f(1) False by (simp_all add: file_ok_def)
    moreover have "area E s nd (file_slots nd)"
      using calculation store_okD(1-3) [OF st] nd(1) pointers_fit_less [of nd "unat (file_size nd) div 4096"]
      unfolding area_def f(2) [symmetric] by (auto simp: named_def file_slots_def)
    ultimately show ?thesis using False ptr by (simp add: wfile_def)
  qed
  ultimately show ?thesis by (auto simp: evolves_refl)
next
  case True
  have p0: "indirect_pointer_block nd ! 0 = 0"
    using True count_pointers_zero [of nd] nd(1) by (simp add: named_def)
  have f: "bs = []" "file_size nd = 0" "zero_tail nd"
    using nd(2) True by (auto simp: file_ok_def unat_eq_0)
  have M: "next_slots nd = 0" using True by (simp add: next_slots_def)
  have ar: "area E s nd (next_slots nd)"
    using True f(3) store_okD(1,2) [OF st] nd(1)
    by (simp add: area_def M named_def slots_ok_def slot_blocks_def)
  obtain nd1 s1 where g: "add_data_block_to_node E nd s = Inr (nd1, s1)" "area E s1 nd1 1"
      "grown E s nd s1 nd1 0" "count_pointers nd1 = 1" "slot_blocks s1 nd1 1 \<subseteq> free_data E s"
      "card (free_data E s) \<le> card (free_data E s1) + 2"
    using add_data_block_spec [OF ar _ _ free] True unfolding M by (auto simp: slot_blocks_def)
  have sz: "file_size nd1 = 0" using grown_size [OF g(3)] f(2) by simp
  have wf: "wfile E s1 nd1 bs"
    unfolding wfile_def using ptr g(2,4) f(1) sz
    by (simp add: file_slots_def pointers_fit_def contents_def)
  have G: "\<forall>b. b \<notin> slot_blocks s nd 0 \<union> free_data E s \<longrightarrow> disk s1 b = disk s b"
      "\<forall>k < 3000. used E s k \<longrightarrow> used E s1 k" "\<forall>k < 34. used E s1 k \<longrightarrow> used E s k"
      "free_data E s1 \<subseteq> free_data E s" "nd1\<lparr>indirect_pointer_block := indirect_pointer_block nd\<rparr> = nd"
    using g(3) unfolding grown_def by blast+
  have "nd1\<lparr>indirect_pointer_block := indirect_pointer_block nd, file_size := file_size nd\<rparr> =
      nd\<lparr>file_size := file_size nd\<rparr>"
    by (subst G(5)) (rule refl)
  then have "nd1\<lparr>indirect_pointer_block := indirect_pointer_block nd, file_size := file_size nd\<rparr> = nd"
    by simp
  moreover have "slot_blocks s1 nd1 (next_slots nd1) \<subseteq> slot_blocks s nd 0 \<union> free_data E s"
    using g(4,5) sz by (auto simp: next_slots_def file_slots_def)
  ultimately have "evolves E s nd s1 nd1"
    unfolding evolves_def M using G(1-4) by blast
  then show ?thesis using p0 g(1,6) wf by (intro exI [of _ nd1] exI [of _ s1]) simp
qed

end

lemma null_fill_inside:
  assumes "length bs = unat (file_size nd)" and "off \<le> length bs"
  shows "null_fill E nd (word_of_int (int off)) s = Inr (nd, s)"
proof -
  have "unat (of_nat off :: u32) \<le> off" by (simp add: unat_of_nat)
  then have "\<not> file_size nd < of_nat off" using assms by (simp add: word_less_nat_alt)
  then show ?thesis by (simp add: null_fill.simps)
qed

text \<open>
  A hole in the first block: the bytes from the end of the file to the offset become zeros. The loop
  does one turn, since what it has filled is taken off the offset as well.
\<close>

definition padded :: "nat \<Rightarrow> bytes \<Rightarrow> bytes" where
  "padded off bs = bs @ replicate (off - length bs) 0"

lemma padded_inside [simp]: "off \<le> length bs \<Longrightarrow> padded off bs = bs"
  by (simp add: padded_def)

lemma length_padded: "length (padded off bs) = max (length bs) off"
  by (simp add: padded_def)

lemma sint_of_nat: "k < 2 ^ 31 \<Longrightarrow> sint (of_nat k :: u32) = int k"
  by (simp add: sint_cases unat_of_nat_small uint_nat del: unat_of_nat)

lemma null_fill_first:
  assumes wf: "wfile E s nd bs" and b: "length bs < off" "off < 4096"
  shows "\<exists>nd' s'. null_fill E nd (word_of_int (int off)) s = Inr (nd', s') \<and> wfile E s' nd' (padded off bs) \<and>
    evolves E s nd s' nd' \<and> free_data E s' = free_data E s"
proof -
  let ?S = "length bs" and ?xs = "replicate (off - length bs) (0 :: byte)"
  define k where "k = blk s nd (?S div 4096)"
  define s1 where "s1 = s\<lparr>disk := (disk s)(k := memput (disk s k) (?S mod 4096) ?xs)\<rparr>"
  let ?nd = "resize ?S off nd"
  have sz: "unat (file_size nd) = ?S" using wf by (simp add: wfile_def)
  have fs: "file_size nd = of_nat ?S" unfolding sz [symmetric] by simp
  have S: "?S div 4096 = 0" "?S mod 4096 = ?S" using b by simp_all
  have pos: "byte_num (get_next_write_position nd) = of_nat ?S" "block_num (get_next_write_position nd) = of_nat 0"
    using sz b by (simp_all add: get_next_write_position_def Let_def const_simps word_unat_eq_iff unat_mod unat_div
        unat_of_nat_small)
  have lt: "file_size nd < of_nat off" "\<not> (of_nat off :: u32) < of_nat ?S"
    using b by (simp_all add: fs word_less_nat_alt unat_of_nat_small)
  have so: "sint (of_nat off :: u32) = int off" using b by (intro sint_of_nat) simp
  have d: "of_nat off - of_nat ?S = (of_nat (off - ?S) :: u32)" using b by simp
  have c: "sint (word_of_int (min_int (sint (of_nat off :: u32)) (int BLOCK_SIZE)) - of_nat ?S :: u32) = int (off - ?S)"
  proof -
    have "min_int (int off) (int BLOCK_SIZE) = int off" using b by (simp add: min_int_def const_simps)
    moreover have "sint (of_nat (off - ?S) :: u32) = int (off - ?S)" using b by (intro sint_of_nat) simp
    ultimately show ?thesis unfolding so by (simp add: d del: of_nat_diff)
  qed
  have get: "get_data_block_from_node E nd (of_nat 0) s = Inr k"
    unfolding k_def S(1) by (rule file_get_block [OF wfile_here [OF wf]]) simp
  have wr: "write_bytes s k ?S ?xs = Inr s1"
    unfolding s1_def S(2) using b by (simp add: write_bytes_def const_simps)
  have un: "unat (of_nat ?S :: u32) = ?S" using b by (intro unat_of_nat_small) simp
  have grow: "of_nat ?S + word_of_int (int (off - ?S)) = (of_nat off :: u32)"
    and rest: "of_nat off - word_of_int (int (off - ?S)) = (of_nat ?S :: u32)" using b by simp_all
  have nb: "of_nat off \<noteq> (of_nat BLOCK_SIZE :: u32)"
    using b by (simp add: const_simps word_unat_eq_iff unat_of_nat_small)
  have nd1: "nd\<lparr>file_size := of_nat off\<rparr> = ?nd" using b by (simp add: resize_def)
  have "null_fill E nd (word_of_int (int off)) s = null_fill E ?nd (of_nat ?S) s1"
    using lt(1) c get wr un grow rest nb
    by (subst null_fill.simps) (simp add: pos fs nd1 [symmetric] Let_def)
  also have "\<dots> = Inr (?nd, s1)"
    using lt(2) by (subst null_fill.simps) (simp add: nd1 [symmetric])
  finally have "null_fill E nd (word_of_int (int off)) s = Inr (?nd, s1)" .
  moreover have "wfile E s1 ?nd (memput bs ?S ?xs) \<and> evolves E s nd s1 ?nd \<and> free_data E s1 = free_data E s"
    using write_turn_partial [OF wf order_refl, of ?S ?xs, folded k_def, folded s1_def] b by simp
  moreover have "memput bs ?S ?xs = padded off bs" by (simp add: memput_def padded_def)
  ultimately show ?thesis by auto
qed

text \<open>An offset inside the file or in its first block.\<close>

definition fillable :: "nat \<Rightarrow> nat \<Rightarrow> bool" where
  "fillable off len \<longleftrightarrow> off \<le> len \<or> off < 4096"

lemma null_fill_spec:
  assumes wf: "wfile E s nd bs" and off: "fillable off (length bs)"
  shows "\<exists>nd' s'. null_fill E nd (word_of_int (int off)) s = Inr (nd', s') \<and> wfile E s' nd' (padded off bs) \<and>
    evolves E s nd s' nd' \<and> free_data E s' = free_data E s"
proof (cases "off \<le> length bs")
  case True
  have "length bs = unat (file_size nd)" using wf by (simp add: wfile_def)
  from null_fill_inside [OF this True] show ?thesis using wf True by (auto simp: evolves_refl)
next
  case False
  then show ?thesis using off null_fill_first [OF wf] by (simp add: fillable_def)
qed

lemma put_node_used [simp]: "used E (unmap_and_destroy_node nd h s) k = used E s k"
    "free_data E (unmap_and_destroy_node nd h s) = free_data E s"
  by (simp_all add: unmap_and_destroy_node_def put_node_def free_data_def)

text \<open>
  The blocks a write of \<open>count\<close> bytes at \<open>off\<close> can take: two (a data and a pointer block) for the
  first block of an empty file, and two for each block boundary it reaches.
\<close>

definition write_need :: "nat \<Rightarrow> nat \<Rightarrow> nat" where
  "write_need off count = 2 * Suc ((off + count) div 4096 - off div 4096)"

context bitarray_lib
begin

lemma write_padded:
  assumes st: "store_ok E s A Q" and ptr: "sizeof_ptr E = 4" and A: "A n = Some (File p bs)"
    and off: "fillable off (length bs)" and len: "length bs < 2 ^ 31" "off + count < 2 ^ 31"
    and buf: "count \<le> length data" and free: "write_need off count \<le> card (free_data E s)"
  shows "\<exists>R s'. sac_write E (int n) data count (int off) s = Inr (int count, s') \<and>
    store_ok E s' (A(n \<mapsto> File p (memput (padded off bs) off (take count data)))) (Q(n := R)) \<and>
    (\<forall>k < 34. used E s' k = used E s k) \<and>
    card (free_data E s) \<le> card (free_data E s') + write_need off count"
proof -
  let ?t = "s\<lparr>tick := Suc (tick s)\<rparr>" and ?bs = "padded off bs"
  obtain nd where nd: "read_node E (of_nat n) s = Inr (nd, 2 + n, ?t)"
      "named nd" "nview nd = nview (node_at s n)" "inode_ok s nd (File p bs) (Q n)"
    using read_node_store [OF st A] by blast
  have stt: "store_ok E ?t A Q" and inot: "inode_ok ?t nd (File p bs) (Q n)"
    using st nd(4) by simp_all
  have "2 \<le> card (free_data E ?t)" using free by (simp add: write_need_def)
  then obtain nd0 s0 where f: "(if indirect_pointer_block nd ! 0 = 0 then add_data_block_to_node E nd ?t
        else Inr (nd, ?t)) = Inr (nd0, s0)" "wfile E s0 nd0 bs" "evolves E ?t nd s0 nd0"
      "card (free_data E ?t) \<le> card (free_data E s0) + 2"
    using first_block [OF stt ptr A nd(2) inot] by blast
  obtain nd1 s1 where z: "null_fill E nd0 (word_of_int (int off)) s0 = Inr (nd1, s1)" "wfile E s1 nd1 ?bs"
      "evolves E s0 nd0 s1 nd1" "free_data E s1 = free_data E s0"
    using null_fill_spec [OF f(2) off] by blast
  have lb: "length ?bs < 2 ^ 31" using len by (simp add: length_padded)
  have fs: "unat (file_size nd1) = length ?bs" using z(2) by (simp add: wfile_def)
  then have "uint (file_size nd1) = int (length ?bs)" by (simp add: uint_nat)
  then have sz: "sint (file_size nd1) = int (length ?bs)" using lb by (simp add: sint_cases)
  have d: "int off sdiv int BLOCK_SIZE = int (off div 4096)"
    by (simp add: const_simps signed_divide_int_def sgn_if zdiv_int)
  have m: "int off - int BLOCK_SIZE * int (off div 4096) = int (off mod 4096)"
    by (simp add: const_simps zdiv_int zmod_int minus_mult_div_eq_mod)
  have free1: "2 * ((off + count) div 4096 - off div 4096) \<le> card (free_data E s1)"
    using free f(4) z(4) by (simp add: write_need_def)
  have q: "off \<le> length ?bs" and mx: "length ?bs = max (length ?bs) off" by (simp_all add: length_padded)
  obtain nd2 s2 where w: "write_loop E data count (int off) (int (length ?bs)) nd1
        (of_nat (off div 4096)) (int (off mod 4096)) 0 0 s1 = Inr (nd2, s2)"
      "wfile E s2 nd2 (memput ?bs off (memget data 0 count))" "evolves E s1 nd1 s2 nd2"
      "card (free_data E s1) \<le> card (free_data E s2) + 2 * ((off + count) div 4096 - off div 4096)"
    using write_loop_spec [OF z(2), of off 0 "length ?bs" count data, unfolded add_0_right diff_zero,
        OF q mx le0 buf len(2) lb free1] by blast
  let ?s = "unmap_and_destroy_node nd2 (2 + n) s2" and ?R = "file_blocks s2 nd2"
  have mg: "memget data 0 count = take count data" by (simp add: memget_def)
  have ev: "evolves E ?t nd s2 nd2" by (rule evolves_trans [OF evolves_trans [OF f(3) z(3)] w(3)])
  have p: "0 < length (indirect_pointer_block nd)" using nd(2) by (simp add: named_def node_ok_def)
  have "sac_write E (int n) data count (int off) s = Inr (int count, ?s)"
    unfolding sac_write_def Let_def d m
    using nd(1) f(1) z(1) w(1) p by (simp add: pointer_at_def sz)
  moreover have "store_ok E ?s (A(n \<mapsto> File p (memput ?bs off (take count data)))) (Q(n := ?R))"
    using store_ok_evolves [OF stt A nd(2) inot ev w(2)] unfolding mg .
  moreover have "\<forall>k < 34. used E ?s k = used E s k" using evolves_used [OF ev] by simp
  moreover have "card (free_data E s) \<le> card (free_data E ?s) + write_need off count"
    using f(4) z(4) w(4) by (simp add: write_need_def)
  ultimately show ?thesis by blast
qed

lemma write_file:
  assumes st: "store_ok E s A Q" and ptr: "sizeof_ptr E = 4" and A: "A n = Some (File p bs)"
    and off: "off \<le> length bs" and len: "length bs < 2 ^ 31" "off + count < 2 ^ 31"
    and buf: "count \<le> length data" and free: "write_need off count \<le> card (free_data E s)"
  shows "\<exists>R s'. sac_write E (int n) data count (int off) s = Inr (int count, s') \<and>
    store_ok E s' (A(n \<mapsto> File p (memput bs off (take count data)))) (Q(n := R)) \<and>
    (\<forall>k < 34. used E s' k = used E s k) \<and>
    card (free_data E s) \<le> card (free_data E s') + write_need off count"
proof -
  have "fillable off (length bs)" using off by (simp add: fillable_def)
  from write_padded [OF st ptr A this len buf free] show ?thesis using off by simp
qed

end

end
