(* ===== verification/Format.thy ===== *)
theory Format
  imports Sacio_Spec
begin

text \<open>
  \<open>disk.c\<close> and \<open>sac.c\<close>: formatting a disk, what \<open>main\<close> does before the server starts, and
  how the bitmap moves between the disk and memory.
\<close>

section \<open>Operations\<close>

text \<open>
  \<open>format_disk\<close> ends in \<open>exit(0)\<close>: its result is the disk that is left. The disk it formats
  holds anything (it is made from \<open>/dev/urandom\<close>).
\<close>

definition format_disk :: "env \<Rightarrow> fs \<Rightarrow> error + fs" where
  "format_disk E s =
     (let header = create_default_header;
          s = s\<lparr>bitmap := create_default_bitmap E\<rparr>
      in bindE (create_root_dir E s) (\<lambda>(root_dir, s).
      bindE (read_block 0) (\<lambda>header_blocks.
      let s = s\<lparr>disk := (disk s)(header_blocks := header_to_block header (disk s header_blocks))\<rparr> in
      bindE (read_blocks (of_nat BITMAP_INITIAL_BLOCK) (of_nat BITMAP_BLOCKS)) (\<lambda>bitmap_blocks.
      bindE (bitmap_to_block (bitmap s) bitmap_blocks s) (\<lambda>s.
      bindE (read_block (of_nat NODE_TABLE_INITIAL_BLOCK)) (\<lambda>root_node_blocks.
        Inr (put_node root_dir root_node_blocks s)))))))"

definition load_bitmap :: "env \<Rightarrow> fs \<Rightarrow> error + (nat list \<times> fs)" where
  "load_bitmap E s =
     bindE (read_blocks (of_nat BITMAP_INITIAL_BLOCK) (of_nat BITMAP_BLOCKS)) (\<lambda>bitmap_blocks.
     bindE (block_to_bitmap E bitmap_blocks s) (\<lambda>bm. Inr (bitmap_blocks, s\<lparr>bitmap := bm\<rparr>)))"

definition unmap_bitmap :: "nat list \<Rightarrow> fs \<Rightarrow> error + fs" where
  "unmap_bitmap bitmap_blocks s = bitmap_to_block (bitmap s) bitmap_blocks s"

datatype startup = Default_config | Config_file cstr | Formatted

definition validate_input :: "env \<Rightarrow> cstr list \<Rightarrow> fs \<Rightarrow> error + (startup \<times> fs)" where
  "validate_input E argv s =
     (case argv of
        [_] \<Rightarrow> Inr (Default_config, s)
      | [_, a] \<Rightarrow>
          if string_ends_with E a (lit ''.cfg'') then Inr (Config_file a, s)
          else if string_ends_with E a (lit ''-f'') \<or> string_ends_with E a (lit ''-format'')
          then bindE (format_disk E s) (\<lambda>s. Inr (Formatted, s))
          else Inl (Exit (- 1))
      | _ \<Rightarrow> Inl (Exit (- 1)))"

text \<open>
  \<open>main\<close> up to \<open>server_init\<close>, which does not return: the \<open>unmap_bitmap\<close> after it never runs.
  \<open>Formatted\<close>: the process has exited with 0.
\<close>

definition start :: "env \<Rightarrow> cstr list \<Rightarrow> fs \<Rightarrow> error + (startup \<times> fs)" where
  "start E argv s =
     bindE (validate_input E argv s) (\<lambda>(act, s).
       if act = Formatted then Inr (Formatted, s)
       else bindE (load_bitmap E s) (\<lambda>(_, s). Inr (act, s)))"

section \<open>The default bitmap\<close>

lemma bitmap_window: "read_blocks (of_nat BITMAP_INITIAL_BLOCK) (of_nat BITMAP_BLOCKS) = Inr [1]"
  by (simp add: read_blocks_def const_simps eval_nat_numeral map_block_in)

context bitarray_lib
begin

lemma set_bit_ok:
  assumes "ba_ok b" and "ba_size b = 375" and "i < 3000"
  shows "ba_ok (bitarray_set_bit E b i)" and "ba_size (bitarray_set_bit E b i) = 375"
    and "\<forall>k < 3000. bitarray_test_bit E (bitarray_set_bit E b i) k \<longleftrightarrow> k = i \<or> bitarray_test_bit E b k"
  using assms by (simp_all add: ok_set size_set test_set)

end

context commons_lib
begin

lemma default_bitmap:
  shows "ba_ok (create_default_bitmap E)" and "ba_size (create_default_bitmap E) = 375"
    and "\<forall>k < 3000. bitarray_test_bit E (create_default_bitmap E) k \<longleftrightarrow> k < 3"
proof -
  define b0 where "b0 = \<lparr>bitarray = replicate 375 (0 :: byte), ba_size = 375, ba_mode = MSB_FIRST\<rparr>"
  define b1 where "b1 = bitarray_set_bit E b0 0"
  define b2 where "b2 = bitarray_set_bit E b1 1"
  have d: "create_default_bitmap E = bitarray_set_bit E b2 2"
    by (simp add: create_default_bitmap_def Let_def const_simps create_eq repeat_eq b0_def b1_def b2_def
        eval_nat_numeral)
  have 0: "ba_ok b0" "ba_size b0 = 375" by (simp_all add: b0_def ba_ok_def)
  have z: "\<forall>k < 3000. \<not> bitarray_test_bit E b0 k" using test_zero [of _ 375] by (simp add: b0_def)
  note 1 = set_bit_ok [OF 0, of 0, folded b1_def]
  note 2 = set_bit_ok [OF 1(1,2), of 1, folded b2_def]
  note 3 = set_bit_ok [OF 2(1,2), of 2, folded d]
  show "ba_ok (create_default_bitmap E)" and "ba_size (create_default_bitmap E) = 375"
    using 3(1,2) by simp_all
  show "\<forall>k < 3000. bitarray_test_bit E (create_default_bitmap E) k \<longleftrightarrow> k < 3"
    using 1(3) 2(3) 3(3) z by auto
qed

end

text \<open>The bitmap is read from one block, the same wherever that block has the same bytes.\<close>

lemma block_to_bitmap_same:
  assumes "disk_ok s" and "disk_ok s'" and "disk s' 1 = disk s 1"
  shows "block_to_bitmap E [1] s' = block_to_bitmap E [1] s"
proof -
  have "length (disk s 1) = 4096" "length (disk s' 1) = 4096" using assms(1,2) by (simp_all add: disk_ok_length)
  then show ?thesis
    using assms(3) block_to_bitmap_from_eq [of s 1 0 "[]"] block_to_bitmap_from_eq [of s' 1 0 "[]"]
    by (simp add: block_to_bitmap_def)
qed

section \<open>A formatted disk\<close>

context commons_lib
begin

lemma format_represents:
  assumes "disk_ok s"
  shows "\<exists>s'. format_disk E s = Inr s' \<and> store_ok E s' [0 \<mapsto> Dir 0 []] (\<lambda>_. {}) \<and>
    free_node E s' 1 \<and> free_data E s' = {34..<3000} \<and> (\<forall>k < 3000. used E s' k \<longleftrightarrow> k < 3) \<and>
    block_to_header (disk s' 0) = create_default_header \<and>
    block_to_bitmap E [1] s' = Inr (bitmap s')"
proof -
  let ?s0 = "s\<lparr>bitmap := create_default_bitmap E\<rparr>" and ?nm = "lit ''/''"
  have nm: "is_cstr ?nm" "length ?nm < 71" by (simp_all add: lit_def is_cstr_def)
  obtain rt where rt: "create_root_dir E ?s0 = Inr (rt, ?s0\<lparr>tick := Suc (tick s)\<rparr>)" "named rt"
      "nview rt = \<lparr>state = 2, file_name = ?nm, parent_block = 0, file_size = 0,
        creation_date = now E (tick s), modification_date = now E (tick s),
        indirect_pointer_block = replicate 1000 0\<rparr>"
    using create_node_spec [OF nm, of "replicate 1000 0" E 2 0 0 "now E (tick s)" "now E (tick s)" ?s0]
    by (auto simp: create_root_dir_def Let_def)
  let ?s1 = "?s0\<lparr>tick := Suc (tick s),
    disk := (disk s)(0 := header_to_block create_default_header (disk s 0))\<rparr>"
  have hdr: "header_ok create_default_header"
    by (simp add: header_ok_def create_default_header_def create_header_def memget_def lit_def)
  have len: "length (disk s b) = 4096" if "b < 3000" for b using assms that by (rule disk_ok_length)
  have bok: "bitmap_ok ?s1" using default_bitmap(1,2) by (simp add: bitmap_ok_def const_simps)
  obtain s2 where s2: "bitmap_to_block (bitmap ?s1) [1] ?s1 = Inr s2"
      "block_to_bitmap E [1] s2 = Inr (bitmap ?s1)" "\<forall>b. b \<noteq> 1 \<longrightarrow> disk s2 b = disk ?s1 b"
      "length (disk s2 1) = 4096" "bitmap s2 = bitmap ?s1"
    using bitmap_roundtrip_block [OF bok, of 1] len by auto
  let ?s3 = "put_node rt 2 s2"
  have "format_disk E s = Inr ?s3"
    using rt(1) s2(1) bitmap_window
    by (simp add: format_disk_def Let_def read_block_in const_simps)
  moreover have st: "store_ok E ?s3 [0 \<mapsto> Dir 0 []] (\<lambda>_. {})"
  proof -
    have hl: "length (header_to_block create_default_header (disk s 0)) = 4096"
      using hdr len [of 0] by (simp add: header_to_block_eq header_ok_def)
    have "length (disk s2 b) = 4096" if "b < 3000" for b
      using s2(3) [rule_format, of b] s2(4) len [OF that] hl by (cases "b = 1") auto
    then have "disk_ok s2" by (simp add: disk_ok_def const_simps)
    moreover have "bitmap_ok s2" using bok s2(5) by (simp add: bitmap_ok_def)
    ultimately have "store_ok E s2 Map.empty (\<lambda>_. {})" by (simp add: store_ok_def)
    moreover have "used E s2 2" using default_bitmap(3) s2(5) by (simp add: used_def)
    moreover have "empty_inode rt (Dir 0 [])"
      unfolding empty_inode_def using rt(3) by (metis nview_simps t_node.select_convs)
    ultimately show ?thesis using store_ok_new_node [of E s2 Map.empty "\<lambda>_. {}" 0 rt] rt(2) by simp
  qed
  moreover have u: "used E ?s3 k \<longleftrightarrow> k < 3" if "k < 3000" for k
    using default_bitmap(3) s2(5) that by (simp add: used_def)
  then have "free_node E ?s3 1" and "free_data E ?s3 = {34..<3000}"
    by (auto simp: free_node_def free_data_def)
  moreover have "block_to_header (disk ?s3 0) = create_default_header"
    using s2(3) block_to_header_to_block [OF hdr len [of 0]] by (simp add: put_node_def)
  moreover have "block_to_bitmap E [1] ?s3 = Inr (bitmap ?s3)"
  proof -
    have "length (disk s2 1) = 4096" "length (disk ?s3 1) = 4096" "disk ?s3 1 = disk s2 1"
      using s2(4) by (simp_all add: put_node_def)
    then show ?thesis
      using s2(2,5) block_to_bitmap_from_eq [of s2 1 0 "[]"] block_to_bitmap_from_eq [of ?s3 1 0 "[]"]
      by (simp add: block_to_bitmap_def)
  qed
  ultimately show ?thesis using u by blast
qed

end

end
