(* ===== verification/Session.thy ===== *)
theory Session
  imports Server Client Write_Spec Format
begin

text \<open>
  Client and server together: what the functions of FUSE do to the file system behind the
  connection, each proved from the message it sends (\<open>Serialization\<close>), the call that the server
  makes of it (\<open>Server\<close>) and the specification of the operation. \<open>E\<close> is the environment of the
  client, \<open>E'\<close> that of the server.
\<close>

section \<open>A server at the other end\<close>

text \<open>
  The server as a peer of the client; \<open>None\<close>: its process has died. A call that stops the
  process closes the connection with nothing sent.
\<close>

definition server_peer :: "env \<Rightarrow> t_dir_entry list_ops \<Rightarrow> 'h host \<Rightarrow> bool \<Rightarrow> 'h srv option peer" where
  "server_peer E L H lin =
     \<lparr>accepts = (\<lambda>w. w \<noteq> None),
      serve = (\<lambda>stream w. case w of
          None \<Rightarrow> Inr ([], None)
        | Some v \<Rightarrow>
            (case attend_connection E L H lin stream v of
               None \<Rightarrow> Inl Blocked
             | Some (Inl e) \<Rightarrow> Inr ([], None)
             | Some (Inr (out, v)) \<Rightarrow> Inr (out, Some v)))\<rparr>"

definition complete :: "t_package \<Rightarrow> bool" where
  "complete p \<longleftrightarrow> length (pkg_data p) = unat (pkg_size p)"

text \<open>What arrives of a package: the bytes that its size counts.\<close>

definition trim :: "t_package \<Rightarrow> t_package" where
  "trim p = p\<lparr>pkg_data := take (unat (pkg_size p)) (pkg_data p)\<rparr>"

lemma trim_complete: "complete p \<Longrightarrow> trim p = p"
  by (simp add: complete_def trim_def)

lemma receive_trimmed:
  assumes "unat (pkg_size p) \<le> length (pkg_data p)"
  shows "fst (receive_package E t (send_package E' p)) = trim p"
proof -
  have "send_package E' (trim p) = send_package E' p"
    using assms by (simp add: send_package_def send_bytes_def trim_def)
  then have "receive_package E t (send_package E' p @ []) = (trim p, [])"
    using assms by (intro receive_sent) (simp_all add: trim_def)
  then show ?thesis by simp
qed

context message
begin

lemma called_trim:
  assumes ser: "serialize_function E t m d1 d2 i1 i2 i3 = ser E t x" and sent: "sent E x"
    and got: "got E E' (tick (srv_fs v) + 3) x"
    and log: "log_function_call (call m (fields E' (tick (srv_fs v) + 3) x)) = Inr l"
    and run: "execute E' L H lin (call m (fields E' (tick (srv_fs v) + 3) x)) (ticks 4 v) = Some (Inr (resp, v'))"
    and resp: "unat (pkg_size resp) \<le> length (pkg_data resp)"
  shows "send_function E t (server_peer E' L H lin) m d1 d2 i1 i2 i3 (Some v) = Inr (trim resp, Some v')"
proof -
  have got': "got E E' (Suc (tick (srv_fs v) + 2)) x" using got by (simp add: numeral_3_eq_3)
  obtain p where p: "ser E t x = Inr p" using delivered [OF sent got', of t] by blast
  have "attend_connection E' L H lin (hello @ send_package E p @ []) v = Some (Inr (send_package E' resp, v'))"
    unfolding attended [OF sent p refl got log] run answer_def by simp
  then show ?thesis
    using ser p receive_trimmed [OF resp, of E "Suc t" E']
    by (simp add: send_function_def server_peer_def send_handshake_spec)
qed

lemma called:
  assumes "serialize_function E t m d1 d2 i1 i2 i3 = ser E t x" and "sent E x"
    and "got E E' (tick (srv_fs v) + 3) x"
    and "log_function_call (call m (fields E' (tick (srv_fs v) + 3) x)) = Inr l"
    and "execute E' L H lin (call m (fields E' (tick (srv_fs v) + 3) x)) (ticks 4 v) = Some (Inr (resp, v'))"
    and "complete resp"
  shows "send_function E t (server_peer E' L H lin) m d1 d2 i1 i2 i3 (Some v) = Inr (resp, Some v')"
  using called_trim [OF assms(1-5)] assms(6) trim_complete [OF assms(6)] by (simp add: complete_def)

end

section \<open>Responses\<close>

lemma complete_default [simp]: "complete (create_default_package i)"
  by (simp add: complete_def create_default_package_def)

lemma result_default:
  assumes "- (2 ^ 31) \<le> i" and "i < 2 ^ 31"
  shows "result_of (create_default_package i) = i"
proof -
  have "(ucast (word_of_int i :: u64) :: u32) = word_of_int i" by (simp add: ucast_eq uint_word_of_int_eq)
      (simp add: word_of_int_eq_iff)
  moreover have "sint (word_of_int i :: u32) = i"
    unfolding int_word_sint using assms by simp
  ultimately show ?thesis by (simp add: result_of_def create_default_package_def)
qed

lemma on_fs_status:
  "r (srv_fs w) = status_response x \<Longrightarrow> x = Inr (i, s) \<Longrightarrow>
   on_fs r w = Inr (create_default_package i, w\<lparr>srv_fs := s\<rparr>)"
  by (simp add: on_fs_def status_response_def)

lemma ticks_fs [simp]:
  "store_ok E (srv_fs (ticks n v)) A Q = store_ok E (srv_fs v) A Q"
  "bitmap (srv_fs (ticks n v)) = bitmap (srv_fs v)"
  "free_node E (srv_fs (ticks n v)) k = free_node E (srv_fs v) k"
  "free_data E (srv_fs (ticks n v)) = free_data E (srv_fs v)"
  by (simp_all add: ticks_def free_node_def free_data_def used_def)

text \<open>A simple call whose operation returns a status.\<close>

context message
begin

lemma status_called:
  assumes ser: "serialize_function E t m d1 d2 i1 i2 i3 = ser E t x" and sent: "sent E x"
    and got: "got E E' (tick (srv_fs v) + 3) x"
    and log: "log_function_call (call m (fields E' (tick (srv_fs v) + 3) x)) = Inr l"
    and exec: "execute E' L H lin (call m (fields E' (tick (srv_fs v) + 3) x)) (ticks 4 v) =
      Some (Inr (create_default_package i, v'))"
    and i: "- (2 ^ 31) \<le> i" "i < 2 ^ 31"
  shows "simple_call E t (server_peer E' L H lin) m d1 d2 i1 i2 i3 (Some v) = Inr (i, Some v')"
  using called [OF ser sent got log exec] result_default [OF i] by (simp add: simple_call_def)

lemma simple_called:
  assumes ser: "serialize_function E t m d1 d2 i1 i2 i3 = ser E t x" and sent: "sent E x"
    and got: "got E E' (tick (srv_fs v) + 3) x"
    and log: "log_function_call (call m (fields E' (tick (srv_fs v) + 3) x)) = Inr l"
    and exec: "execute E' L H lin (call m (fields E' (tick (srv_fs v) + 3) x)) (ticks 4 v) =
      Some (on_fs (\<lambda>s. status_response (f s)) (ticks 4 v))"
    and run: "f (srv_fs (ticks 4 v)) = Inr (i, s)" and i: "- (2 ^ 31) \<le> i" "i < 2 ^ 31"
  shows "simple_call E t (server_peer E' L H lin) m d1 d2 i1 i2 i3 (Some v) = Inr (i, Some ((ticks 4 v)\<lparr>srv_fs := s\<rparr>))"
proof -
  have "execute E' L H lin (call m (fields E' (tick (srv_fs v) + 3) x)) (ticks 4 v) =
      Some (Inr (create_default_package i, (ticks 4 v)\<lparr>srv_fs := s\<rparr>))"
    unfolding exec using on_fs_status [of "\<lambda>s. status_response (f s)", OF refl run] by simp
  from status_called [OF ser sent got log this i] show ?thesis .
qed

end

section \<open>What each call logs\<close>

lemma log_path:
  assumes "is_cstr p"
  shows "log_function_call (call IDENTIFIER_OPEN [p @ [0], mode_bytes v]) =
      Inr (''open'', [Log_s p, Log_d (sint (word_of_int v :: u16))])"
    and "log_function_call (call IDENTIFIER_REMOVE [p @ [0]]) = Inr (''remove'', [Log_s p])"
    and "log_function_call (call IDENTIFIER_MKDIR [p @ [0], b]) = Inr (''mkdir'', [Log_s p])"
    and "log_function_call (call IDENTIFIER_RMDIR [p @ [0]]) = Inr (''rmdir'', [Log_s p])"
    and "log_function_call (call IDENTIFIER_STAT [p @ [0], b]) = Inr (''stat'', [Log_s p])"
    and "log_function_call (call IDENTIFIER_READDIR [p @ [0]]) = Inr (''readdir'', [Log_s p])"
  using assms by (simp_all add: log_function_call_def Let_def call_args)

lemma log_rename:
  "is_cstr p \<Longrightarrow> is_cstr q \<Longrightarrow>
   log_function_call (call IDENTIFIER_RENAME [p @ [0], q @ [0]]) = Inr (''rename'', [Log_s p, Log_s q])"
  by (simp add: log_function_call_def Let_def call_args)

lemma log_descriptor:
  "log_function_call (call IDENTIFIER_CLOSE [fd_bytes fd]) = Inr (''close'', [Log_d (fd mod 65536)])"
  "log_function_call (call IDENTIFIER_WRITE [fd_bytes fd, b, count_bytes n, offset_bytes off]) =
     Inr (''write'', [Log_d (fd mod 65536), Log_d (int (n mod 4294967296)), Log_d (off mod 4294967296)])"
  "log_function_call (call IDENTIFIER_READ [fd_bytes fd, count_bytes n, offset_bytes off]) =
     Inr (''read'', [Log_d (fd mod 65536), Log_d (int (n mod 4294967296)), Log_d (off mod 4294967296)])"
  by (simp_all add: log_function_call_def Let_def call_args)

section \<open>Directories\<close>

lemmas status_calls = sac_open_response_def [abs_def] sac_write_response_def [abs_def]
  sac_remove_response_def [abs_def] sac_mkdir_response_def [abs_def] sac_rename_response_def [abs_def]
  sac_truncate_response_def [abs_def]

definition cpath :: "cstr \<Rightarrow> bool" where
  "cpath p \<longleftrightarrow> is_cstr p \<and> path_fits p"

context commons_lib
begin

lemma do_mkdir_new:
  assumes st: "store_ok E (srv_fs v) A Q" and path: "folder_ok pre" "component_ok nm" "cpath (child_path pre nm)"
    and w: "walk A (tokens slash pre) 0 = Some m" and A: "A m = Some (Dir p es)"
    and new: "nm \<notin> fst ` set es" and room: "length es < 31" and fn: "free_node E (srv_fs v) n"
    and space: "es = [] \<longrightarrow> 2 \<le> card (free_data E (srv_fs v))"
  shows "\<exists>v' Q'. do_mkdir C t (server_peer E L H False) (child_path pre nm) mode (Some v) = Inr (0, Some v') \<and>
    store_ok E (srv_fs v') (A(n \<mapsto> Dir (of_nat (2 + m)) [], m \<mapsto> Dir p (es @ [(nm, of_nat n)]))) Q'"
proof -
  let ?p = "child_path pre nm"
  obtain s' Q' where r: "sac_mkdir E ?p 0 (srv_fs (ticks 4 v)) = Inr (0, s')"
      "store_ok E s' (A(n \<mapsto> Dir (of_nat (2 + m)) [], m \<mapsto> Dir p (es @ [(nm, of_nat n)]))) Q'"
    using mkdir_creates [of "srv_fs (ticks 4 v)" A Q pre nm m p es n 0] assms by auto
  have "simple_call C t (server_peer E L H False) IDENTIFIER_MKDIR ?p [] mode 0 0 (Some v) =
      Inr (0, Some ((ticks 4 v)\<lparr>srv_fs := s'\<rparr>))"
    using path(3) r(1)
    by (intro mkdir_msg.simple_called [where x = "(?p, to_int mode)" and f = "sac_mkdir E ?p 0"])
      (simp_all add: serialize_function_def cpath_def log_path execute_path status_calls)
  then show ?thesis using r(2) by (auto simp: do_mkdir_def)
qed

lemma do_mkdir_existing:
  assumes st: "store_ok E (srv_fs v) A Q" and path: "folder_ok pre" "component_ok nm" "cpath (child_path pre nm)"
    and w: "walk A (tokens slash pre) 0 = Some m" and A: "A m = Some (Dir p es)"
    and old: "nm \<in> fst ` set es"
  shows "\<exists>v'. do_mkdir C t (server_peer E L H False) (child_path pre nm) mode (Some v) = Inr (- 1, Some v') \<and>
    store_ok E (srv_fs v') A Q"
proof -
  let ?p = "child_path pre nm"
  obtain s' where r: "sac_mkdir E ?p 0 (srv_fs (ticks 4 v)) = Inr (- 1, s')" "store_ok E s' A Q"
    using mkdir_existing [of "srv_fs (ticks 4 v)" A Q pre nm m p es 0] assms by auto
  have "simple_call C t (server_peer E L H False) IDENTIFIER_MKDIR ?p [] mode 0 0 (Some v) =
      Inr (- 1, Some ((ticks 4 v)\<lparr>srv_fs := s'\<rparr>))"
    using path(3) r(1)
    by (intro mkdir_msg.simple_called [where x = "(?p, to_int mode)" and f = "sac_mkdir E ?p 0"])
      (simp_all add: serialize_function_def cpath_def log_path execute_path status_calls)
  then show ?thesis using r(2) by (auto simp: do_mkdir_def)
qed

end

section \<open>Attributes\<close>

text \<open>Reading the fields of a fixed layout back.\<close>

lemma stat_bytes_read:
  "fill_stat_from_buffer E uid gid t (stat_bytes b) =
     Inr \<lparr>cs_mode = (if S_ISDIR (st_mode b) then 0x41FF else 0x81FF),
       cs_nlink = (if S_ISDIR (st_mode b) then 2 else 1), cs_uid = uid, cs_gid = gid,
       cs_ino = ucast (st_ino b), cs_size = st_size b, cs_mtime = to_time_t E (st_mtime b),
       cs_ctime = to_time_t E (st_ctime b), cs_atime = to_time_t E (st_mtime b)\<rparr>"
proof -
  let ?d = "le_enc 2 (if S_ISDIR (st_mode b) then 2 else 1 :: u16)" and ?n = "le_enc 2 (ucast (st_ino b) :: u16)"
    and ?z = "le_enc 4 (st_size b)" and ?m = "le_enc 8 (st_mtime b)" and ?c = "le_enc 8 (st_ctime b)"
  let ?b = "stat_bytes b"
  have 1: "mem_read E t ?b 0 2 = Inr ?d" by (rule field_at [of _ "[]"]) (simp_all add: stat_bytes_def)
  have 2: "mem_read E t ?b 2 2 = Inr ?n" by (rule field_at [of _ ?d]) (simp_all add: stat_bytes_def)
  have 3: "mem_read E t ?b 4 4 = Inr ?z" by (rule field_at [of _ "?d @ ?n"]) (simp_all add: stat_bytes_def)
  have 4: "mem_read E t ?b 8 8 = Inr ?m" by (rule field_at [of _ "?d @ ?n @ ?z"]) (simp_all add: stat_bytes_def)
  have 5: "mem_read E t ?b 16 8 = Inr ?c"
    by (rule field_at [of _ "?d @ ?n @ ?z @ ?m" _ "[]"]) (simp_all add: stat_bytes_def)
  show ?thesis
    unfolding fill_stat_from_buffer_def 1 2 3 4 5 bindE.simps Let_def
      u16le.decode [OF TrueI] u32le.decode [OF TrueI] u64le.decode [OF TrueI]
    by simp
qed

fun is_dir :: "inode \<Rightarrow> bool" where
  "is_dir (Dir p es) = True"
| "is_dir (File p bs) = False"

lemma mode_of_dir: "S_ISDIR (mode_of i) = is_dir i"
  by (cases i) (simp_all add: S_ISDIR_def S_IFDIR_def S_IFREG_def)

text \<open>The bytes that \<open>deserialize_stat\<close> reads past its data must be readable.\<close>

definition slack :: "env \<Rightarrow> nat \<Rightarrow> bool" where
  "slack E t \<longleftrightarrow> past_end E t 0 \<noteq> None \<and> past_end E t 1 \<noteq> None"

context commons_lib
begin

lemma do_getattr_found:
  assumes st: "store_ok E (srv_fs v) A Q" and p: "cpath path" "is_valid_path E path" "correct_path C path"
    and w: "walk A (tokens slash path) 0 = Some m" and A: "A m = Some i"
    and sl: "slack E (tick (srv_fs v) + 3)"
  shows "\<exists>v' a. do_getattr C uid gid t (server_peer E L H False) path (Some v) = Inr (0, Some a, Some v') \<and>
    cs_mode a = (if is_dir i then 0x41FF else 0x81FF) \<and> cs_ino a = of_nat m \<and> unat (cs_size a) = size_of i \<and>
    store_ok E (srv_fs v') A Q"
proof -
  obtain b s' where r: "sac_stat E path (srv_fs (ticks 4 v)) = Inr (0, Some b, s')" "st_mode b = mode_of i"
      "st_ino b = of_nat m" "unat (st_size b) = size_of i" "store_ok E s' A Q"
    using stat_found [of "srv_fs (ticks 4 v)" A Q path m i] st p(2) w A by auto
  let ?resp = "(create_default_package 0)\<lparr>pkg_size := 24, pkg_data := stat_bytes b\<rparr>"
  let ?v = "(ticks 4 v)\<lparr>srv_fs := s'\<rparr>"
  have "on_fs (sac_stat_response E path) (ticks 4 v) = Inr (?resp, ?v)"
    using r(1) by (simp add: on_fs_def sac_stat_response_def)
  moreover have "complete ?resp" by (simp add: complete_def stat_bytes_def)
  ultimately have c: "send_function C t (server_peer E L H False) IDENTIFIER_STAT path [] 0 0 0 (Some v) = Inr (?resp, Some ?v)"
    using p(1) sl
    by (intro stat_msg.called [where x = path])
      (simp_all add: serialize_function_def cpath_def log_path execute_path slack_def)
  have res: "result_of ?resp = 0" by (simp add: result_of_def create_default_package_def)
  have ino: "(ucast (of_nat m :: u32) :: u16) = of_nat m"
    using store_nodeD(1) [OF st A]
    by (simp add: word_unat_eq_iff unsigned_ucast_eq take_bit_eq_mod unat_of_nat)
  let ?a = "\<lparr>cs_mode = (if is_dir i then 0x41FF else 0x81FF), cs_nlink = (if is_dir i then 2 else 1), cs_uid = uid,
      cs_gid = gid, cs_ino = of_nat m, cs_size = st_size b, cs_mtime = to_time_t C (st_mtime b),
      cs_ctime = to_time_t C (st_ctime b), cs_atime = to_time_t C (st_mtime b)\<rparr>"
  have "do_getattr C uid gid t (server_peer E L H False) path (Some v) = Inr (0, Some ?a, Some ?v)"
    unfolding do_getattr_def c bindE.simps prod.case res
    using p(3) r(2,3) by (simp add: stat_bytes_read mode_of_dir ino)
  with r(4,5) show ?thesis by (intro exI [of _ ?v] exI [of _ ?a]) simp
qed

lemma do_getattr_missing:
  assumes st: "store_ok E (srv_fs v) A Q" and p: "cpath path" "is_valid_path E path" "correct_path C path"
    and w: "walks_dirs A (tokens slash path) 0" "walk A (tokens slash path) 0 = None"
    and sl: "slack E (tick (srv_fs v) + 3)"
  shows "\<exists>v'. do_getattr C uid gid t (server_peer E L H False) path (Some v) = Inr (- ENOENT, None, Some v') \<and>
    store_ok E (srv_fs v') A Q"
proof -
  obtain s' where r: "sac_stat E path (srv_fs (ticks 4 v)) = Inr (- 1, None, s')" "store_ok E s' A Q"
    using stat_missing [of "srv_fs (ticks 4 v)" A Q path] st p(2) w by auto
  let ?v = "(ticks 4 v)\<lparr>srv_fs := s'\<rparr>" and ?resp = "create_default_package (- 1)"
  have "on_fs (sac_stat_response E path) (ticks 4 v) = Inr (?resp, ?v)"
    using r(1) by (simp add: on_fs_def sac_stat_response_def)
  then have c: "send_function C t (server_peer E L H False) IDENTIFIER_STAT path [] 0 0 0 (Some v) = Inr (?resp, Some ?v)"
    using p(1) sl
    by (intro stat_msg.called [where x = path])
      (simp_all add: serialize_function_def cpath_def log_path execute_path slack_def)
  have "result_of ?resp = - 1" by (simp add: result_default)
  then show ?thesis using c p(3) r(2) by (auto simp: do_getattr_def)
qed

end

section \<open>Listings\<close>

lemma read_names_spec:
  assumes "\<forall>nm \<in> set ns. cpath nm" and "sz = length pre + length (names_bytes ns)"
  shows "read_names E t (pre @ names_bytes ns) sz (length pre) = Inr ns"
  using assms
proof (induction ns arbitrary: pre)
  case Nil
  then show ?case by (simp add: read_names.simps names_bytes_def)
next
  case (Cons nm ns)
  let ?l = "le_enc 2 (of_nat (length nm + 1) :: u16)" and ?d = "pre @ names_bytes (nm # ns)"
  have nm: "is_cstr nm" "path_fits nm" using Cons.prems(1) by (simp_all add: cpath_def)
  have d: "?d = (pre @ str_bytes nm) @ names_bytes ns" by (simp add: names_bytes_def)
  have 1: "mem_read E t ?d (length pre) 2 = Inr ?l"
    by (rule field_at [of _ pre _ "(nm @ [0]) @ names_bytes ns"]) (simp_all add: names_bytes_def str_bytes_def)
  have 2: "mem_read E t ?d (length pre + 2) (length nm + 1) = Inr (nm @ [0])"
    by (rule field_at [of _ "pre @ ?l" _ "names_bytes ns"]) (simp_all add: names_bytes_def str_bytes_def)
  have 3: "unat (le_dec ?l :: u16) = length nm + 1"
    unfolding u16le.decode [OF TrueI] by (rule string_len [OF nm(2)])
  have 4: "strread (nm @ [0]) = Inr nm" using strread_terminated [OF nm(1), of "[]"] by simp
  have "read_names E t ((pre @ str_bytes nm) @ names_bytes ns) sz (length (pre @ str_bytes nm)) = Inr ns"
    using Cons.prems by (intro Cons.IH) (simp_all add: names_bytes_def)
  then have 5: "read_names E t ?d sz (length pre + 2 + (length nm + 1)) = Inr ns"
    unfolding d by (simp add: eval_nat_numeral)
  have lt: "length pre < sz" using Cons.prems(2) by (simp add: names_bytes_def)
  show ?case
    unfolding read_names.simps [of E t ?d sz "length pre"] 1 bindE.simps 3 Let_def 2 4 5 using lt by simp
qed

lemma dir_entries_ok:
  assumes "dir_ok s nd es"
  shows "\<forall>nm \<in> set (map fst es). cpath nm" and "length (names_bytes (map fst es)) < 2 ^ 32"
proof -
  have n: "\<forall>nm \<in> set (map fst es). name_ok nm" and l: "length es < 32"
    using assms by (auto simp: dir_ok_def slot_is_def in_set_conv_nth)
  then show "\<forall>nm \<in> set (map fst es). cpath nm" by (fastforce simp: name_ok_def cpath_def path_fits_def)
  have "length (names_bytes ns) \<le> 74 * length ns" if "\<forall>nm \<in> set ns. name_ok nm" for ns
    using that by (induction ns) (auto simp: names_bytes_def name_ok_def)
  from this [OF n] show "length (names_bytes (map fst es)) < 2 ^ 32" using l by simp
qed

context commons_lib
begin

lemma do_readdir_lists:
  assumes st: "store_ok E (srv_fs v) A Q" and p: "cpath path" "is_valid_path E path"
    and w: "walk A (tokens slash path) 0 = Some m" and A: "A m = Some (Dir q es)"
  shows "\<exists>v'. do_readdir C t (server_peer E L H False) path (Some v) =
      Inr (0, [lit ''.'', lit ''..''] @ map fst es, Some v') \<and> store_ok E (srv_fs v') A Q"
proof -
  obtain s' where r: "sac_readdir E path (srv_fs (ticks 4 v)) = Inr (Some (map (Some \<circ> fst) es), s')"
      "store_ok E s' A Q"
    using readdir_lists [of "srv_fs (ticks 4 v)" A Q path m q es] st p(2) w A by auto
  have "inode_ok (srv_fs v) (node_at (srv_fs v) m) (Dir q es) (Q m)" by (rule store_nodeD(4) [OF st A])
  then have "dir_ok (srv_fs v) (node_at (srv_fs v) m) es" by simp
  note ns = dir_entries_ok [OF this]
  let ?ns = "map fst es" and ?v = "(ticks 4 v)\<lparr>srv_fs := s'\<rparr>"
  let ?resp = "\<lparr>message_id = 0, pkg_size = of_nat (length (names_bytes ?ns)), pkg_data = names_bytes ?ns\<rparr>"
  have n: "unat (of_nat (length (names_bytes ?ns)) :: u32) = length (names_bytes ?ns)"
    using ns(2) by (intro unat_of_nat_small) simp
  have "append_entries E (tick s') (create_default_package 0) (map Some ?ns) = Inr ?resp"
    using append_entries_spec [of ?ns "[]" "create_default_package 0" 0 E "tick s'"] ns
    by (simp add: create_default_package_def cpath_def)
  then have "on_fs (sac_readdir_response E path) (ticks 4 v) = Inr (?resp, ?v)"
    using r(1) by (simp add: on_fs_def sac_readdir_response_def)
  moreover have "complete ?resp" using n by (simp add: complete_def)
  ultimately have c: "send_function C t (server_peer E L H False) IDENTIFIER_READDIR path [] 0 0 0 (Some v) = Inr (?resp, Some ?v)"
    using p(1)
    by (intro readdir_msg.called [where x = path])
      (simp_all add: serialize_function_def cpath_def log_path execute_path)
  have "read_names C (t + 2) (names_bytes ?ns) (length (names_bytes ?ns)) 0 = Inr ?ns"
    using read_names_spec [OF ns(1), of "length (names_bytes ?ns)" "[]" C "t + 2"] by simp
  then show ?thesis using c n r(2) by (simp add: do_readdir_def)
qed

lemma do_readdir_none:
  assumes st: "store_ok E (srv_fs v) A Q" and p: "cpath path" "is_valid_path E path"
    and w: "walks_dirs A (tokens slash path) 0"
    and no: "(case walk A (tokens slash path) 0 of None \<Rightarrow> \<exists>i. A 0 = Some i
              | Some m \<Rightarrow> \<exists>q bs. A m = Some (File q bs))"
  shows "\<exists>v'. do_readdir C t (server_peer E L H False) path (Some v) =
      Inr (- ENOENT, [lit ''.'', lit ''..''], Some v') \<and> store_ok E (srv_fs v') A Q"
proof -
  obtain s' where r: "sac_readdir E path (srv_fs (ticks 4 v)) = Inr (None, s')" "store_ok E s' A Q"
    using readdir_none [of "srv_fs (ticks 4 v)" A Q path] st p(2) w no by auto
  let ?v = "(ticks 4 v)\<lparr>srv_fs := s'\<rparr>" and ?resp = "(create_default_package 0)\<lparr>message_id := - 1\<rparr>"
  have "on_fs (sac_readdir_response E path) (ticks 4 v) = Inr (?resp, ?v)"
    using r(1) by (simp add: on_fs_def sac_readdir_response_def)
  moreover have "complete ?resp" by (simp add: complete_def create_default_package_def)
  ultimately have c: "send_function C t (server_peer E L H False) IDENTIFIER_READDIR path [] 0 0 0 (Some v) = Inr (?resp, Some ?v)"
    using p(1)
    by (intro readdir_msg.called [where x = path])
      (simp_all add: serialize_function_def cpath_def log_path execute_path)
  then show ?thesis using r(2) by (auto simp: do_readdir_def)
qed

end

section \<open>Reading and writing\<close>

text \<open>What both ends must agree on: a client with a 4-byte \<open>size_t\<close>, and an \<open>off_t\<close> of at least 4 bytes.\<close>

definition wire_ok :: "env \<Rightarrow> env \<Rightarrow> bool" where
  "wire_ok C E \<longleftrightarrow> sizeof_size_t C = 4 \<and> 4 \<le> sizeof_off_t C \<and> sizeof_size_t E = 4 \<and> 4 \<le> sizeof_off_t E"

lemma small_ints:
  "0 \<le> i \<Longrightarrow> i < 2 ^ 31 \<Longrightarrow> to_int i = i"
  "n < 2 ^ 31 \<Longrightarrow> wire_ok C E \<Longrightarrow> to_size_t C (int n) = n"
  "0 \<le> i \<Longrightarrow> i < 2 ^ 31 \<Longrightarrow> wire_ok C E \<Longrightarrow> to_off_t C i = i \<and> to_off_t E i = i"
  by (simp_all add: to_int_def int_word_sint to_size_t_def wire_ok_def to_off_t_small)

lemma fh_small:
  assumes "n < 2 ^ 31"
  shows "fh_int (of_nat n) = int n"
proof -
  have "(ucast (of_nat n :: u64) :: u32) = of_nat n"
    using assms by (simp add: word_unat_eq_iff unsigned_ucast_eq take_bit_eq_mod unat_of_nat)
  moreover have "sint (of_nat n :: u32) = int n"
    using assms int_word_sint [of "int n", where 'a = 32] by simp
  ultimately show ?thesis by (simp add: fh_int_def)
qed

lemmas read_called = read_msg.called_trim [where x = "(fd, count, offset)" for fd count offset, unfolded prod.case]

lemma do_write_run:
  assumes wire: "wire_ok C E" and n: "n < 32" and buf: "count \<le> length data"
    and c: "count < 2 ^ 31" "off < 2 ^ 31" "off + count < 2 ^ 31" and i: "- (2 ^ 31) \<le> i" "i < 2 ^ 31"
    and r: "sac_write E (int n) (take count data) count (int off) (srv_fs (ticks 4 v)) = Inr (i, s')"
  shows "do_write C t (server_peer E L H False) data count (int off) (of_nat n) (Some v) =
    Inr (i, Some ((ticks 4 v)\<lparr>srv_fs := s'\<rparr>))"
proof -
  have c': "int count < 2 ^ 31" "int off < 2 ^ 31" "count + 10 < 2 ^ 32" using c by simp_all
  have ser: "serialize_function C t IDENTIFIER_WRITE data [] (fh_int (of_nat n)) (int count) (int off) =
      (\<lambda>(fd, buffer, count, offset). serialize_write C t fd buffer count offset) (int n, data, count, int off)"
    using n c c' wire small_ints(1) [of "int n"] small_ints(2) [of count C E] small_ints(3) [of "int off" C E]
    by (simp add: serialize_function_def fh_small)
  have md: "int n mod 65536 = int n" "count mod 4294967296 = count" "int off mod 4294967296 = int off"
      "to_off_t E (int off) = int off"
    using n c c' small_ints(3) [of "int off" C E] wire by simp_all
  have ex: "execute E L H False (call IDENTIFIER_WRITE
        [fd_bytes (int n), take count data, count_bytes count, offset_bytes (int off)]) (ticks 4 v) =
      Some (on_fs (\<lambda>s. status_response (sac_write E (int n) (take count data) count (int off) s)) (ticks 4 v))"
    unfolding execute_descriptor status_calls md ..
  show ?thesis
    unfolding do_write_def using r c c' wire buf i
    by (intro write_msg.simple_called [where f = "sac_write E (int n) (take count data) count (int off)", OF ser])
      (simp_all only: prod.case ex log_descriptor, simp_all add: wire_ok_def)
qed

context commons_lib
begin

lemma do_write_file:
  assumes st: "store_ok E (srv_fs v) A Q" and ptr: "sizeof_ptr E = 4" and wire: "wire_ok C E"
    and A: "A n = Some (File p bs)"
    and off: "fillable off (length bs)" and len: "length bs < 2 ^ 31" "off + count < 2 ^ 31"
    and buf: "count \<le> length data" and free: "write_need off count \<le> card (free_data E (srv_fs v))"
  shows "\<exists>v' R. do_write C t (server_peer E L H False) data count (int off) (of_nat n) (Some v) =
      Inr (int count, Some v') \<and>
    store_ok E (srv_fs v') (A(n \<mapsto> File p (memput (padded off bs) off (take count data)))) (Q(n := R))"
proof -
  have st1: "store_ok E (srv_fs (ticks 4 v)) A Q" and free1: "write_need off count \<le> card (free_data E (srv_fs (ticks 4 v)))"
    using st free by simp_all
  have buf1: "count \<le> length (take count data)" using buf by simp
  obtain R s' where r: "sac_write E (int n) (take count data) count (int off) (srv_fs (ticks 4 v)) = Inr (int count, s')"
      "store_ok E s' (A(n \<mapsto> File p (memput (padded off bs) off (take count data)))) (Q(n := R))"
    using write_padded [OF st1 ptr A off len buf1 free1] by auto
  have "do_write C t (server_peer E L H False) data count (int off) (of_nat n) (Some v) =
      Inr (int count, Some ((ticks 4 v)\<lparr>srv_fs := s'\<rparr>))"
    using len by (intro do_write_run [OF wire store_nodeD(1) [OF st A] buf _ _ len(2) _ _ r(1)]) simp_all
  then show ?thesis using r(2) by auto
qed

text \<open>
  What \<open>do_read\<close> returns, from what \<open>sac_read\<close> does: the smaller of \<open>count\<close> and its result, read as
  an unsigned number, and as many bytes of the buffer of the server.
\<close>

lemma do_read_result:
  assumes wire: "wire_ok C E" and path: "correct_path C path" and n: "n < 32"
    and off: "off < 2 ^ 31" and count: "count < 2 ^ 31" "count \<le> length buffer"
    and run: "sac_read E (int n) count (int off) ((srv_fs (ticks 4 v))\<lparr>tick := Suc (tick (srv_fs (ticks 4 v)))\<rparr>) =
      Inr (i, xs, s')" and xs: "length xs \<le> count"
  defines "k \<equiv> min count (nat (i mod 2 ^ 32))"
    and "d \<equiv> memput (malloc E (tick (srv_fs (ticks 4 v))) count) 0 xs"
  shows "do_read C t (server_peer E L H False) path buffer count (int off) (of_nat n) (Some v) =
    Inr (int k, memput buffer 0 (take k d), Some ((ticks 4 v)\<lparr>srv_fs := s'\<rparr>))"
proof -
  let ?u = "srv_fs (ticks 4 v)"
  have k: "k \<le> count" "k < 2 ^ 32" "k < 2 ^ 31" using count(1) by (simp_all add: k_def)
  let ?resp = "\<lparr>message_id = 0, pkg_size = of_nat k, pkg_data = d\<rparr>" and ?v = "(ticks 4 v)\<lparr>srv_fs := s'\<rparr>"
  have resp: "sac_read_response E (int n) count (int off) ?u = Inr (?resp, s')"
    using run wire by (simp add: sac_read_response_def k_def d_def min_def wire_ok_def)
  have c: "count < 2 ^ 31" "int count < 2 ^ 31" "int off < 2 ^ 31" "off < 2 ^ 31" using count off by simp_all
  have md: "int n mod 65536 = int n" "count mod 4294967296 = count" "int off mod 4294967296 = int off"
      "to_off_t E (int off) = int off"
    using n c small_ints(3) [of "int off" C E] wire by simp_all
  have ser: "serialize_function C t IDENTIFIER_READ [] [] (fh_int (of_nat n)) (int count) (int off) =
      (\<lambda>(fd, count, offset). serialize_read C t fd count offset) (int n, count, int off)"
    using n c wire small_ints(1) [of "int n"] small_ints(2) [of count C E] small_ints(3) [of "int off" C E]
    by (simp add: serialize_function_def fh_small)
  have ex: "execute E L H False (call IDENTIFIER_READ [fd_bytes (int n), count_bytes count, offset_bytes (int off)])
      (ticks 4 v) = Some (Inr (?resp, ?v))"
    unfolding execute_descriptor md on_fs_def resp by simp
  have dl: "length d = count" using xs by (simp add: d_def length_memput)
  have sz: "unat (of_nat k :: u32) = k" using k(2) by (intro unat_of_nat_small) simp
  have call: "send_function C t (server_peer E L H False) IDENTIFIER_READ [] [] (fh_int (of_nat n)) (int count) (int off) (Some v) =
      Inr (trim ?resp, Some ?v)"
  proof (rule read_called [OF _ TrueI TrueI log_descriptor(3) ex])
    show "serialize_function C t IDENTIFIER_READ [] [] (fh_int (of_nat n)) (int count) (int off) =
        serialize_read C t (int n) count (int off)" using ser by (simp only: prod.case)
  qed (simp add: sz dl k(1) del: of_nat_min)
  have tr: "trim ?resp = \<lparr>message_id = 0, pkg_size = of_nat k, pkg_data = take k d\<rparr>"
    using sz by (simp add: trim_def)
  have "sint (of_nat k :: u32) = int k"
    using k(3) int_word_sint [of "int k", where 'a = 32] by simp
  moreover have "mem_write buffer 0 (take k (take k d)) = Inr (memput buffer 0 (take k d))"
    using dl k(1) count(2) by (simp add: mem_write_in)
  ultimately show ?thesis
    unfolding do_read_def call tr using path sz by (simp del: of_nat_min)
qed

lemma do_read_file:
  assumes st: "store_ok E (srv_fs v) A Q" and ptr: "sizeof_ptr E = 4" and wire: "wire_ok C E"
    and A: "A n = Some (File p bs)" and path: "correct_path C path"
    and bs: "bs \<noteq> []" and off: "off < 2 ^ 31" and len: "length bs < 2 ^ 31"
    and count: "count < 2 ^ 31" "count \<le> length buffer"
  shows "\<exists>v'. do_read C t (server_peer E L H False) path buffer count (int off) (of_nat n) (Some v) =
      Inr (int (min count (length bs - off)), memput buffer 0 (take count (drop off bs)), Some v') \<and>
    store_ok E (srv_fs v') A Q"
proof -
  let ?xs = "take count (drop off bs)" and ?k = "min count (length bs - off)"
  let ?u = "srv_fs (ticks 4 v)"
  have st1: "store_ok E (?u\<lparr>tick := Suc (tick ?u)\<rparr>) A Q" using st by simp
  obtain s' where r: "sac_read E (int n) count (int off) (?u\<lparr>tick := Suc (tick ?u)\<rparr>) = Inr (int ?k, ?xs, s')"
      "store_ok E s' A Q"
    using read_file [OF st1 ptr A _ len, of off count] read_at_end [OF st1 A _ bs len, of off count]
    by (cases "off < length bs") auto
  have k: "min count (nat (int ?k mod 2 ^ 32)) = ?k" "length ?xs = ?k" "length ?xs \<le> count" using count(1) by auto
  have "take (length xs) (memput b 0 xs) = xs" for b xs :: bytes by (simp add: memput_def)
  from this [of ?xs] have tk: "take ?k (memput b 0 ?xs) = ?xs" for b unfolding k(2) .
  from do_read_result [OF wire path store_nodeD(1) [OF st A] off count r(1) k(3)] show ?thesis
    unfolding k(1) tk using r(2) by auto
qed

text \<open>
  A file with no block, as one just created: the -1 of \<open>sac_read\<close> becomes a success, and the
  caller gets \<open>count\<close> bytes of the memory of the server that nothing has been written to.
\<close>

lemma do_read_empty:
  assumes st: "store_ok E (srv_fs v) A Q" and wire: "wire_ok C E"
    and A: "A n = Some (File p bs)" and Q: "Q n = {}" and path: "correct_path C path"
    and off: "off < 2 ^ 31" and count: "count < 2 ^ 31" "count = length buffer"
  shows "\<exists>v' u. do_read C t (server_peer E L H False) path buffer count (int off) (of_nat n) (Some v) =
      Inr (int count, map (uninit E u) [0..<count], Some v')"
proof -
  let ?u = "srv_fs (ticks 4 v)"
  have st1: "store_ok E (?u\<lparr>tick := Suc (tick ?u)\<rparr>) A Q" using st by simp
  obtain s' where r: "sac_read E (int n) count (int off) (?u\<lparr>tick := Suc (tick ?u)\<rparr>) = Inr (- 1, [], s')"
    using read_empty [OF st1 A Q] by blast
  have k: "min count (nat (- 1 mod 2 ^ 32)) = count" using count(1) by simp
  have c: "count \<le> length buffer" "length ([] :: bytes) \<le> count" using count(2) by simp_all
  have "memput buffer 0 (take count (memput (malloc E w count) 0 [])) = map (uninit E w) [0..<count]" for w
    using count(2) by (simp add: memput_def malloc_def)
  with do_read_result [OF wire path store_nodeD(1) [OF st A] off count(1) c(1) r c(2)] show ?thesis
    unfolding k by auto
qed

text \<open>Bytes written through one call are what the next call reads.\<close>

lemma do_write_then_read:
  assumes st: "store_ok E (srv_fs v) A Q" and ptr: "sizeof_ptr E = 4" and wire: "wire_ok C E"
    and A: "A n = Some (File p bs)" and path: "correct_path C path"
    and off: "fillable off (length bs)" and len: "length bs < 2 ^ 31" "off + length data < 2 ^ 31"
    and data: "data \<noteq> []" "length buffer = length data"
    and free: "write_need off (length data) \<le> card (free_data E (srv_fs v))"
  shows "\<exists>v1 v2. do_write C t (server_peer E L H False) data (length data) (int off) (of_nat n) (Some v) =
      Inr (int (length data), Some v1) \<and>
    do_read C u (server_peer E L H False) path buffer (length data) (int off) (of_nat n) (Some v1) =
      Inr (int (length data), data, Some v2)"
proof -
  obtain v1 R where w: "do_write C t (server_peer E L H False) data (length data) (int off) (of_nat n) (Some v) =
        Inr (int (length data), Some v1)"
      "store_ok E (srv_fs v1) (A(n \<mapsto> File p (memput (padded off bs) off (take (length data) data)))) (Q(n := R))"
    using do_write_file [OF st ptr wire A off len _ free] by blast
  let ?bs = "memput (padded off bs) off data"
  have st1: "store_ok E (srv_fs v1) (A(n \<mapsto> File p ?bs)) (Q(n := R))" using w(2) by simp
  have l: "length ?bs = max (length bs) (off + length data)" by (simp add: length_memput_grow length_padded)
  have pos: "0 < length data" using data(1) by simp
  have "0 < length ?bs" "off < 2 ^ 31" "length ?bs < 2 ^ 31" unfolding l using pos len by linarith+
  moreover have "length data < 2 ^ 31" using len(2) by simp
  ultimately obtain v2 where r: "do_read C u (server_peer E L H False) path buffer (length data) (int off) (of_nat n) (Some v1) =
      Inr (int (min (length data) (length ?bs - off)), memput buffer 0 (take (length data) (drop off ?bs)), Some v2)"
    using do_read_file [OF st1 ptr wire _ path, of n p ?bs off "length data" buffer u] data(2) by auto
  have "min (length data) (length ?bs - off) = length data" using l by simp
  moreover have "take (length data) (drop off ?bs) = data" by (simp add: memput_def length_padded)
  moreover have "memput buffer 0 data = data" using data(2) by (simp add: memput_full)
  ultimately show ?thesis using w(1) r by auto
qed

end

end
