(* ===== verification/Remove_Spec.thy ===== *)
theory Remove_Spec
  imports Write_Spec
begin

text \<open>
  Removing a file: \<open>sac_remove\<close> gives back the data and pointer blocks of the file and its
  node, and takes its entry out of its parent.
\<close>

section \<open>Giving blocks back\<close>

definition freed :: "env \<Rightarrow> fs \<Rightarrow> fs \<Rightarrow> nat set \<Rightarrow> bool" where
  "freed E s s' B \<longleftrightarrow>
     bitmap_ok s' \<and> disk s' = disk s \<and> tick s' = tick s \<and>
     (\<forall>k < 3000. used E s' k \<longleftrightarrow> k \<notin> B \<and> used E s k)"

lemma freed_trans: "freed E s s1 B \<Longrightarrow> freed E s1 s2 B' \<Longrightarrow> freed E s s2 (B \<union> B')"
  by (auto simp: freed_def)

lemma freed_refl: "bitmap_ok s \<Longrightarrow> freed E s s {}"
  by (simp add: freed_def)

lemma freed_free_data: "freed E s s' B \<Longrightarrow> B \<subseteq> {34..<3000} \<Longrightarrow> free_data E s' = free_data E s \<union> B"
  by (auto simp: freed_def free_data_def)

text \<open>The representation depends on the nodes in use, their blocks and their bits only.\<close>

lemma store_ok_frame:
  assumes "store_ok E s A Q" and "disk_ok s'" and "bitmap_ok s'"
    and "\<forall>m i. A m = Some i \<longrightarrow> disk s' (2 + m) = disk s (2 + m) \<and> used E s' (2 + m)"
    and "\<forall>m. \<forall>b \<in> Q m. disk s' b = disk s b \<and> used E s' b"
  shows "store_ok E s' A Q"
proof -
  have "inode_ok s' (node_at s m) i (Q m) \<and> node_at s' m = node_at s m" if "A m = Some i" for m i
  proof -
    have at: "node_at s' m = node_at s m" using assms(4) that by (simp add: node_at_def const_simps)
    have "named (node_at s m)" by (rule store_nodeD(3) [OF assms(1) that])
    then have "inode_ok s' (node_at s m) i (Q m)"
      using assms(5)
      by (intro inode_ok_frame [OF store_nodeD(4) [OF assms(1) that]]) (auto simp: named_def)
    with at show ?thesis by simp
  qed
  then show ?thesis
    using assms unfolding store_ok_def by auto
qed

lemma store_ok_drop: "store_ok E s A Q \<Longrightarrow> store_ok E s (A(n := None)) (Q(n := {}))"
  by (auto simp: store_ok_def)

lemma store_ok_freed:
  assumes "store_ok E s A Q" and "freed E s s' B"
    and "\<forall>m. Q m \<inter> B = {}" and "\<forall>m. A m \<noteq> None \<longrightarrow> 2 + m \<notin> B"
  shows "store_ok E s' A Q"
proof (rule store_ok_frame [OF assms(1)])
  note f = assms(2) [unfolded freed_def] and sD = store_okD [OF assms(1)]
  show "disk_ok s'" using f sD(1) by (simp add: disk_ok_def)
  show "bitmap_ok s'" using f by simp
  show "\<forall>m i. A m = Some i \<longrightarrow> disk s' (2 + m) = disk s (2 + m) \<and> used E s' (2 + m)"
  proof (intro allI impI)
    fix m i
    assume m: "A m = Some i"
    have "2 + m < 3000" using store_nodeD(1) [OF assms(1) m] by simp
    then show "disk s' (2 + m) = disk s (2 + m) \<and> used E s' (2 + m)"
      using f assms(4) [rule_format, of m] store_nodeD(2) [OF assms(1) m] m by simp
  qed
  show "\<forall>m. \<forall>b \<in> Q m. disk s' b = disk s b \<and> used E s' b"
  proof (intro allI ballI)
    fix m b
    assume b: "b \<in> Q m"
    then have "b \<notin> B" using assms(3) by blast
    then show "disk s' b = disk s b \<and> used E s' b" using f sD(3) [OF b] by simp
  qed
qed

lemma store_ok_dead_node:
  assumes "store_ok E s A Q" and "A n = None" and "n < 32" and "node_ok nd"
  shows "store_ok E (put_node nd (2 + n) s) A Q"
proof (rule store_ok_frame [OF assms(1)])
  let ?s = "put_node nd (2 + n) s"
  note sD = store_okD [OF assms(1)]
  have d: "disk ?s = (disk s)(2 + n := node_bytes nd)"
    using assms(3,4) sD(1) by (intro put_node_disk) auto
  show "disk_ok ?s" using assms(3,4) sD(1) by (simp add: put_node_disk_ok)
  show "bitmap_ok ?s" using sD(2) by (simp add: put_node_def)
  show "\<forall>m i. A m = Some i \<longrightarrow> disk ?s (2 + m) = disk s (2 + m) \<and> used E ?s (2 + m)"
    using d assms(2) store_nodeD(2) [OF assms(1)] by (auto simp: put_node_def)
  have "b \<noteq> 2 + n" if "b \<in> Q m" for m b using sD(3) [OF that] assms(3) by auto
  then show "\<forall>m. \<forall>b \<in> Q m. disk ?s b = disk s b \<and> used E ?s b"
    using d sD(3) by (auto simp: put_node_def)
qed

section \<open>The blocks of a file\<close>

text \<open>The blocks that the loop frees: the pointer blocks and what their first \<open>c\<close> cells name.\<close>

fun file_slot_set :: "fs \<Rightarrow> u32 list \<Rightarrow> nat \<Rightarrow> nat set" where
  "file_slot_set s [] c = {}"
| "file_slot_set s (p # ps) c =
     (if p = 0 then {}
      else insert (unat p) ((\<lambda>j. unat (cell s (unat p) j)) ` {..<min 1024 c}) \<union> file_slot_set s ps (c - 1024))"

context bitarray_lib
begin

lemma free_block_freed:
  assumes "bitmap_ok s" and "unat b < 3000"
  shows "\<exists>s'. free_block E b s = Inr s' \<and> freed E s s' {unat b}"
  using free_block_some [OF assms(1), of b] bitmap_ok_clean_bit [OF assms(1), of "unat b"]
    used_clean_bit [OF assms(1), of "unat b"] assms(2)
  by (simp add: freed_def const_simps)

lemma free_pointed_spec:
  assumes "bitmap_ok s" and "\<forall>j \<in> set js. j < 1024" and "\<forall>j \<in> set (take c js). unat (cell s p j) < 3000"
  shows "\<exists>s'. free_pointed E p js c s = Inr (c - length js, s') \<and>
    freed E s s' ((\<lambda>j. unat (cell s p j)) ` set (take c js))"
  using assms
proof (induction js arbitrary: c s)
  case Nil
  then show ?case by (simp add: freed_refl)
next
  case (Cons j js)
  show ?case
  proof (cases c)
    case 0
    then show ?thesis using Cons.prems by (simp add: freed_refl)
  next
    case (Suc c')
    have j: "j < 1024" using Cons.prems(2) by simp
    have rd: "read_bytes s p (j * 4) 4 = Inr (memget (disk s p) (j * 4) 4)"
      using j by (simp add: read_bytes_def const_simps)
    have cell: "bytes_to_int32 (memget (disk s p) (j * 4) 4) = cell s p j"
      by (simp add: bytes_to_int32_memget cell_def mult.commute)
    obtain s1 where s1: "free_block E (cell s p j) s = Inr s1" "freed E s s1 {unat (cell s p j)}"
      using free_block_freed [OF Cons.prems(1), of "cell s p j"] Cons.prems(3) Suc by auto
    have same: "cell s1 p i = cell s p i" for i using s1(2) by (simp add: freed_def cell_def)
    obtain s2 where s2: "free_pointed E p js c' s1 = Inr (c' - length js, s2)"
        "freed E s1 s2 ((\<lambda>j. unat (cell s p j)) ` set (take c' js))"
      using Cons.IH [of s1 c'] Cons.prems s1(2) Suc by (auto simp: freed_def same)
    show ?thesis
      using rd cell s1(1) s2(1) freed_trans [OF s1(2) s2(2)] Suc by simp
  qed
qed

lemma free_file_blocks_spec:
  assumes "bitmap_ok s" and "file_slot_set s ps c \<subseteq> {..<3000}"
  shows "\<exists>s'. free_file_blocks E ps c s = Inr s' \<and> freed E s s' (file_slot_set s ps c)"
  using assms
proof (induction ps arbitrary: c s)
  case Nil
  then show ?case by (simp add: freed_refl)
next
  case (Cons p ps)
  show ?case
  proof (cases "p = 0")
    case True
    then show ?thesis using Cons.prems by (simp add: freed_refl)
  next
    case False
    let ?D = "(\<lambda>j. unat (cell s (unat p) j)) ` {..<min 1024 c}"
    have p: "unat p < 3000" and D: "?D \<subseteq> {..<3000}" and rest: "file_slot_set s ps (c - 1024) \<subseteq> {..<3000}"
      using Cons.prems(2) False by auto
    have tk: "set (take c [0..<1024]) = {..<min 1024 c}" by (auto simp: take_upt min_def)
    have "\<forall>j \<in> set (take c [0..<1024]). unat (cell s (unat p) j) < 3000" using D unfolding tk by auto
    then obtain s1 where s1: "free_pointed E (unat p) [0..<1024] c s = Inr (c - 1024, s1)" "freed E s s1 ?D"
      using free_pointed_spec [OF Cons.prems(1), of "[0..<1024]" c "unat p"] unfolding tk by auto
    have b1: "bitmap_ok s1" using s1(2) by (simp add: freed_def)
    obtain s2 where s2: "free_block E p s1 = Inr s2" "freed E s1 s2 {unat p}"
      using free_block_freed [OF b1 p] by blast
    note f2 = freed_trans [OF s1(2) s2(2)]
    have "file_slot_set s2 ps k = file_slot_set s ps k" for k
    proof -
      have "cell s2 q i = cell s q i" for q i using f2 by (simp add: freed_def cell_def)
      then show ?thesis by (induction ps arbitrary: k) auto
    qed
    then obtain s3 where s3: "free_file_blocks E ps (c - 1024) s2 = Inr s3"
        "freed E s2 s3 (file_slot_set s ps (c - 1024))"
      using Cons.IH [of s2 "c - 1024"] rest s2(2) by (auto simp: freed_def)
    have "(?D \<union> {unat p}) \<union> file_slot_set s ps (c - 1024) = file_slot_set s (p # ps) c" using False by auto
    then have "freed E s s3 (file_slot_set s (p # ps) c)" using freed_trans [OF f2 s3(2)] by simp
    moreover have "free_file_blocks E (p # ps) c s = Inr s3"
      using False p s1(1) s2(1) s3(1) by (simp add: const_simps)
    ultimately show ?thesis by blast
  qed
qed

end

lemma file_slot_set_eq:
  assumes "c \<le> 1024 * length (takeWhile (\<lambda>p. p \<noteq> 0) ps)"
  shows "file_slot_set s ps c =
    (\<lambda>i. unat (ps ! i)) ` {..<length (takeWhile (\<lambda>p. p \<noteq> 0) ps)} \<union>
    (\<lambda>k. unat (cell s (unat (ps ! (k div 1024))) (k mod 1024))) ` {..<c}"
  using assms
proof (induction ps arbitrary: c)
  case (Cons p ps)
  show ?case
  proof (cases "p = 0")
    case False
    let ?n = "length (takeWhile (\<lambda>p. p \<noteq> 0) ps)"
    let ?f = "\<lambda>k. unat (cell s (unat ((p # ps) ! (k div 1024))) (k mod 1024))"
      and ?g = "\<lambda>k. unat (cell s (unat (ps ! (k div 1024))) (k mod 1024))"
    have IH: "file_slot_set s ps (c - 1024) = (\<lambda>i. unat (ps ! i)) ` {..<?n} \<union> ?g ` {..<c - 1024}"
      using Cons.prems False by (intro Cons.IH) simp
    have "(1024 + k) div 1024 = Suc (k div 1024)" for k by (subst div_add_self1) simp_all
    then have fg: "?f (1024 + k) = ?g k" for k by (simp only: nth_Cons_Suc mod_add_self1)
    have small: "?f k = unat (cell s (unat p) k)" if "k < 1024" for k using that by simp
    have "{..<c} = {..<min 1024 c} \<union> (\<lambda>k. 1024 + k) ` {..<c - 1024}"
    proof (intro set_eqI iffI)
      fix k
      assume "k \<in> {..<c}"
      then show "k \<in> {..<min 1024 c} \<union> (\<lambda>k. 1024 + k) ` {..<c - 1024}"
        by (cases "k < 1024") (auto intro!: image_eqI [of _ _ "k - 1024"])
    qed auto
    then have "?f ` {..<c} = ?f ` {..<min 1024 c} \<union> (\<lambda>k. ?f (1024 + k)) ` {..<c - 1024}"
      by (simp add: image_Un image_image)
    also have "?f ` {..<min 1024 c} = (\<lambda>j. unat (cell s (unat p) j)) ` {..<min 1024 c}"
      using small by (intro image_cong) simp_all
    finally have f: "?f ` {..<c} = (\<lambda>j. unat (cell s (unat p) j)) ` {..<min 1024 c} \<union> ?g ` {..<c - 1024}"
      unfolding fg .
    have "{..<Suc ?n} = insert 0 (Suc ` {..<?n})" by (auto simp: image_iff less_Suc_eq_0_disj)
    then have h: "(\<lambda>i. unat ((p # ps) ! i)) ` {..<Suc ?n} = insert (unat p) ((\<lambda>i. unat (ps ! i)) ` {..<?n})"
      by (simp add: image_image)
    have n: "length (takeWhile (\<lambda>p. p \<noteq> 0) (p # ps)) = Suc ?n" using False by simp
    show ?thesis unfolding n h f using False IH by auto
  qed (use Cons.prems in simp)
qed simp

lemma file_slot_set_blocks:
  assumes "file_ok s nd bs" and "node_ok nd"
  shows "file_slot_set s (take 1000 (indirect_pointer_block nd)) (unat (file_size nd div of_nat BLOCK_SIZE) + 1) =
    file_blocks s nd"
proof -
  let ?ps = "indirect_pointer_block nd"
  have len: "take 1000 ?ps = ?ps" using assms(2) by (simp add: node_ok_def)
  have c: "length (takeWhile (\<lambda>p. p \<noteq> 0) ?ps) = count_pointers nd"
    using len by (simp add: count_pointers_def)
  have n: "unat (file_size nd div of_nat BLOCK_SIZE) + 1 = file_slots nd"
    by (simp add: size_div_block file_slots_def)
  show ?thesis
  proof (cases "count_pointers nd = 0")
    case True
    then have "?ps = [] \<or> hd ?ps = 0" using c by (cases ?ps) (auto split: if_splits)
    then show ?thesis unfolding len using True by (cases ?ps) (auto simp: file_blocks_def)
  next
    case False
    then have "pointers_fit nd (unat (file_size nd) div 4096)" using assms(1) by (simp add: file_ok_def)
    from pointers_fit_less [OF this order_refl] have "file_slots nd \<le> 1024 * count_pointers nd"
      by (simp add: file_slots_def Suc_le_eq div_less_iff_less_mult mult.commute)
    then show ?thesis
      unfolding len n using False file_slot_set_eq [of "file_slots nd" ?ps s]
      by (simp add: c file_blocks_def slot_blocks_def data_block_num_def)
  qed
qed

section \<open>\<open>sac_remove\<close>\<close>

lemma walk_append:
  "walk A (ps @ qs) n = (case walk A ps n of None \<Rightarrow> None | Some m \<Rightarrow> walk A qs m)"
  by (induction ps arbitrary: n) (auto split: option.splits inode.splits)

lemma walks_dirs_append:
  "walks_dirs A (ps @ qs) n \<longleftrightarrow>
     walks_dirs A ps n \<and> (case walk A ps n of None \<Rightarrow> True | Some m \<Rightarrow> walks_dirs A qs m)"
  by (induction ps arbitrary: n) (auto split: option.splits inode.splits)

lemma walk_child:
  assumes "component_ok nm" and "walk A (tokens slash pre) 0 = Some m" and "A m = Some (Dir p es)"
    and "map_of es nm = Some k"
  shows "walk A (tokens slash (child_path pre nm)) 0 = Some (unat k)"
  using assms by (simp add: tokens_child walk_append)

lemma block_to_node_store:
  assumes "store_ok E s A Q" and "A n = Some i"
  shows "\<exists>nd. block_to_node E (disk s (2 + n)) s = Inr (nd, s\<lparr>tick := Suc (tick s)\<rparr>) \<and>
    named nd \<and> nview nd = nview (node_at s n) \<and> inode_ok s nd i (Q n)"
proof -
  have n: "n < 32" by (rule store_nodeD(1) [OF assms])
  obtain nd where nd: "read_node E (of_nat n) s = Inr (nd, 2 + n, s\<lparr>tick := Suc (tick s)\<rparr>)"
      "named nd" "nview nd = nview (node_at s n)" "inode_ok s nd i (Q n)"
    using read_node_store [OF assms] by blast
  then have "block_to_node E (disk s (2 + n)) s = Inr (nd, s\<lparr>tick := Suc (tick s)\<rparr>)"
    using n by (auto simp: read_node_def get_block_num_from_node_num_def const_simps bindE_eq_Inr)
  with nd show ?thesis by blast
qed

context commons_lib
begin

lemma remove_file:
  assumes last: "is_last nm es" and st: "store_ok E s A Q" and path: "folder_ok pre" "component_ok nm"
    and w: "walk A (tokens slash pre) 0 = Some m" and A: "A m = Some (Dir p es)"
    and ent: "map_of es nm = Some k" and F: "A (unat k) = Some (File (of_nat (2 + m)) bs)"
  shows "\<exists>s' R. sac_remove E (child_path pre nm) s = Inr (0, s') \<and>
    store_ok E s' (A(unat k := None, m \<mapsto> Dir p (del_entry nm es))) (Q(unat k := {}, m := R)) \<and>
    \<not> used E s' (2 + unat k) \<and> free_data E s' = free_data E s \<union> Q (unat k)"
proof -
  let ?n = "unat k" and ?p = "child_path pre nm"
  have n: "?n < 32" and m: "m < 32" and mn: "m \<noteq> ?n"
    using store_nodeD(1) [OF st F] store_nodeD(1) [OF st A] A F by auto
  have w1: "walk A (tokens slash ?p) 0 = Some ?n" by (rule walk_child [OF path(2) w A ent])
  obtain e s1 nd where e: "search_path E ?p s = Inr (e, s1)" "is_valid_entry e" "node_num e = of_nat ?n"
      "read_node E (of_nat ?n) s1 = Inr (nd, 2 + ?n, s1\<lparr>tick := Suc (tick s1)\<rparr>)" "named nd"
      "inode_ok s1 nd (File (of_nat (2 + m)) bs) (Q ?n)" "store_ok E s1 A Q" "bitmap s1 = bitmap s"
    using open_path [OF st w1 F] by blast
  let ?t = "s1\<lparr>tick := Suc (tick s1)\<rparr>"
  have st1: "store_ok E ?t A Q" and ino: "inode_ok ?t nd (File (of_nat (2 + m)) bs) (Q ?n)" using e(6,7) by simp_all
  note sD = store_okD [OF st1]
  have nd: "state nd = 1" "parent_block nd = of_nat (2 + m)" "node_ok nd" "file_ok ?t nd bs" "Q ?n = file_blocks ?t nd"
    using ino e(5) by (simp_all add: named_def)
  let ?c = "unat (file_size nd div of_nat BLOCK_SIZE) + 1"
  have slots: "file_slot_set ?t (take 1000 (indirect_pointer_block nd)) ?c = Q ?n"
    unfolding nd(5) by (rule file_slot_set_blocks [OF nd(4,3)])
  have sub: "Q ?n \<subseteq> {34..<3000}" using sD(3) [of _ ?n] by auto
  then have sub': "Q ?n \<subseteq> {..<3000}" by auto
  obtain s2 where s2: "free_file_blocks E (take 1000 (indirect_pointer_block nd)) ?c ?t = Inr s2" "freed E ?t s2 (Q ?n)"
    using free_file_blocks_spec [OF sD(2), of "take 1000 (indirect_pointer_block nd)" ?c] sub' unfolding slots by blast
  let ?A = "A(?n := None)" and ?Q = "Q(?n := {})"
  have "\<forall>j. ?Q j \<inter> Q ?n = {}" using sD(4) by auto
  moreover have "\<forall>j. ?A j \<noteq> None \<longrightarrow> 2 + j \<notin> Q ?n"
  proof (intro allI impI)
    fix j
    assume "?A j \<noteq> None"
    then obtain i where "A j = Some i" by (auto split: if_splits)
    from store_nodeD(1) [OF st1 this] show "2 + j \<notin> Q ?n" using sub by auto
  qed
  ultimately have st2: "store_ok E s2 ?A ?Q"
    using store_ok_freed [OF store_ok_drop [OF st1] s2(2)] by blast
  have Am: "?A m = Some (Dir p es)" using A mn by simp
  obtain np where np: "block_to_node E (disk s2 (2 + m)) s2 = Inr (np, s2\<lparr>tick := Suc (tick s2)\<rparr>)" "named np"
      "inode_ok s2 np (Dir p es) (?Q m)"
    using block_to_node_store [OF st2 Am] by blast
  let ?t2 = "s2\<lparr>tick := Suc (tick s2)\<rparr>"
  have st3: "store_ok E ?t2 ?A ?Q" and ino2: "inode_ok ?t2 np (Dir p es) (?Q m)" using st2 np(3) by simp_all
  obtain np' s3 R where s3: "delete_directory_entry E np nm ?t2 = Inr (np', s3)"
      "store_ok E (unmap_and_destroy_node np' (2 + m) s3) (?A(m \<mapsto> Dir p (del_entry nm es))) (?Q(m := R))"
      "bitmap s3 = bitmap ?t2"
    using delete_entry_store [OF last st3 Am np(2) ino2] by blast
  let ?s3 = "unmap_and_destroy_node np' (2 + m) s3" and ?nd = "nd\<lparr>state := 0\<rparr>"
  let ?s4 = "unmap_and_destroy_node ?nd (2 + ?n) ?s3"
  have st4: "store_ok E ?s4 (?A(m \<mapsto> Dir p (del_entry nm es))) (?Q(m := R))"
    unfolding unmap_and_destroy_node_def [of ?nd]
    by (rule store_ok_dead_node [OF s3(2)]) (use mn n nd(3) in \<open>simp_all add: node_ok_def\<close>)
  have b4: "bitmap_ok ?s4" by (rule store_okD(2) [OF st4])
  have num: "get_block_num_from_node_num (node_num e) = of_nat (2 + ?n)"
    by (simp add: e(3) get_block_num_from_node_num_def const_simps)
  have un: "unat (of_nat (2 + ?n) :: u32) = 2 + ?n" using n by (intro unat_of_nat_small) simp
  have lt: "unat (of_nat (2 + ?n) :: u32) < 3000" unfolding un using n by simp
  obtain s5 where s5: "free_block E (of_nat (2 + ?n)) ?s4 = Inr s5" "freed E ?s4 s5 {2 + ?n}"
    using free_block_freed [OF b4 lt] unfolding un by blast
  have "store_ok E s5 (?A(m \<mapsto> Dir p (del_entry nm es))) (?Q(m := R))"
  proof (rule store_ok_freed [OF st4 s5(2)])
    show "\<forall>j. (?Q(m := R)) j \<inter> {2 + ?n} = {}"
      using store_okD(3) [OF st4] n by fastforce
    show "\<forall>j. (?A(m \<mapsto> Dir p (del_entry nm es))) j \<noteq> None \<longrightarrow> 2 + j \<notin> {2 + ?n}"
      using mn by auto
  qed
  moreover have "sac_remove E ?p s = Inr (0, s5)"
  proof -
    have rb: "read_block (parent_block nd) = Inr (2 + m)" using m by (simp add: nd(2))
    show ?thesis
      unfolding sac_remove_def Let_def
      using valid_child_path [OF path(2,1)] child_path_parts(2) [OF path(2), of pre] e(1-4) nd(1) s2(1) rb np(1) s3(1) s5(1) num
      by simp
  qed
  moreover have "\<not> used E s5 (2 + ?n)" using s5(2) n by (simp add: freed_def)
  moreover have "free_data E s5 = free_data E s \<union> Q ?n"
  proof -
    have "free_data E s2 = free_data E ?t \<union> Q ?n" by (rule freed_free_data [OF s2(2) sub])
    moreover have "free_data E ?t = free_data E s" by (rule free_data_bitmap) (simp add: e(8))
    moreover have "free_data E ?s4 = free_data E s2"
      by (rule free_data_bitmap) (simp add: unmap_and_destroy_node_def put_node_def s3(3))
    moreover have "free_data E s5 = free_data E ?s4"
      using s5(2) n by (auto simp: freed_def free_data_def)
    ultimately show ?thesis by simp
  qed
  ultimately show ?thesis by blast
qed

lemma remove_missing:
  assumes st: "store_ok E s A Q" and v: "is_valid_path E path"
    and w: "walks_dirs A (tokens slash path) 0" "walk A (tokens slash path) 0 = None"
  shows "\<exists>s'. sac_remove E path s = Inr (- 1, s') \<and> store_ok E s' A Q"
  using search_missing [OF st w] v by (auto simp: sac_remove_def)

lemma remove_directory:
  assumes st: "store_ok E s A Q" and v: "is_valid_path E path"
    and w: "walk A (tokens slash path) 0 = Some n" and A: "A n = Some (Dir p es)"
  shows "\<exists>s'. sac_remove E path s = Inr (- 1, s') \<and> store_ok E s' A Q"
proof -
  obtain e s1 nd where o: "search_path E path s = Inr (e, s1)" "is_valid_entry e" "node_num e = of_nat n"
      "read_node E (of_nat n) s1 = Inr (nd, 2 + n, s1\<lparr>tick := Suc (tick s1)\<rparr>)" "named nd"
      "nview nd = nview (node_at s1 n)" "inode_ok s1 nd (Dir p es) (Q n)" "store_ok E s1 A Q"
    using open_path [OF st w A] by blast
  have "state nd \<noteq> 1" using o(7) by simp
  then have "sac_remove E path s = Inr (- 1, unmap_and_destroy_node nd (2 + n) (s1\<lparr>tick := Suc (tick s1)\<rparr>))"
    using v o(1-4) by (simp add: sac_remove_def)
  then show ?thesis using close_node [OF o(8) A o(5,6)] by blast
qed

end

end
