(* ===== verification/Rmdir_Spec.thy ===== *)
theory Rmdir_Spec
  imports Remove_Spec
begin

text \<open>
  \<open>sac_rmdir\<close>: a directory with entries is refused with -2; an empty one is taken out of its
  parent and its node is given back, and the function returns.
\<close>

section \<open>The entry of a path\<close>

lemma search_from_append:
  "search_from E (ps @ qs) e s = bindE (search_from E ps e s) (\<lambda>(e, s). search_from E qs e s)"
proof (induction ps arbitrary: e s)
  case (Cons p ps)
  show ?case
  proof (cases "is_valid_entry e")
    case False
    then show ?thesis by (cases qs) simp_all
  next
    case True
    then show ?thesis using Cons.IH by (simp add: bindE_assoc case_prod_unfold)
  qed
qed simp

context string_lib
begin

lemma search_child:
  assumes st: "store_ok E s A Q" and nm: "component_ok nm" and w: "walk A (tokens slash pre) 0 = Some m"
    and A: "A m = Some (Dir p es)" and k: "map_of es nm = Some k"
  shows "\<exists>e s'. search_path E (child_path pre nm) s = Inr (e, s') \<and> is_valid_entry e \<and> entry_name e = nm \<and>
    node_num e = k \<and> store_ok E s' A Q \<and> bitmap s' = bitmap s"
proof -
  obtain e1 s1 nd where e1: "search_path E pre s = Inr (e1, s1)" "is_valid_entry e1" "node_num e1 = of_nat m"
      "read_node E (of_nat m) s1 = Inr (nd, 2 + m, s1\<lparr>tick := Suc (tick s1)\<rparr>)" "named nd"
      "nview nd = nview (node_at s1 m)" "inode_ok s1 nd (Dir p es) (Q m)" "store_ok E s1 A Q" "bitmap s1 = bitmap s"
    using open_path [OF st w A] by blast
  let ?t = "s1\<lparr>tick := Suc (tick s1)\<rparr>"
  have "dir_ok ?t nd es" using e1(7) by simp
  from dir_lookup [OF this, of nm] k obtain e where e: "get_entry nd nm ?t = Inr e" "is_valid_entry e"
      "entry_name e = nm" "node_num e = k" by auto
  let ?s = "unmap_and_destroy_node nd (2 + m) ?t"
  have "search_path E (child_path pre nm) s = bindE (search_path E pre s) (\<lambda>(e, s). search_from E [nm] e s)"
    unfolding search_path_def split_slash tokens_child [OF nm] by (rule search_from_append)
  also have "\<dots> = Inr (e, ?s)" using e1(1-4) e(1) by simp
  finally have "search_path E (child_path pre nm) s = Inr (e, ?s)" .
  moreover have "bitmap ?s = bitmap s" using e1(9) by (simp add: unmap_and_destroy_node_def put_node_def)
  ultimately show ?thesis using e(2-4) close_node [OF e1(8) A e1(5,6)] by blast
qed

end

section \<open>Refusals\<close>

context commons_lib
begin

lemma is_directory_spec:
  assumes "store_ok E s A Q" and "A n = Some i" and "node_num e = of_nat n"
  shows "is_directory E e s = Inr (case i of Dir _ _ \<Rightarrow> True | File _ _ \<Rightarrow> False, s\<lparr>tick := Suc (tick s)\<rparr>)"
proof -
  obtain nd where "read_node E (of_nat n) s = Inr (nd, 2 + n, s\<lparr>tick := Suc (tick s)\<rparr>)" "inode_ok s nd i (Q n)"
    using read_node_store [OF assms(1,2)] by blast
  then show ?thesis
    using assms(3) inode_ok_state [of s nd i "Q n"] by (cases i) (simp_all add: is_directory_def)
qed

lemma rmdir_missing:
  assumes st: "store_ok E s A Q" and path: "folder_ok pre" "component_ok nm"
    and w: "walks_dirs A (tokens slash (child_path pre nm)) 0" "walk A (tokens slash (child_path pre nm)) 0 = None"
  shows "\<exists>s'. sac_rmdir E L (child_path pre nm) s = Some (Inr (- 1, s')) \<and> store_ok E s' A Q"
  using search_missing [OF st w] valid_child_path [OF path(2,1)] child_path_parts(1) [OF path(2), of pre]
  by (auto simp: sac_rmdir_def)

lemma rmdir_refuses:
  assumes st: "store_ok E s A Q" and path: "folder_ok pre" "component_ok nm"
    and w: "walk A (tokens slash pre) 0 = Some m" and A: "A m = Some (Dir p es)"
    and k: "map_of es nm = Some k" and N: "A (unat k) = Some i" and i: "i \<noteq> Dir (par i) []"
  shows "\<exists>s'. sac_rmdir E L (child_path pre nm) s =
      Some (Inr (case i of Dir _ _ \<Rightarrow> - 2 | File _ _ \<Rightarrow> - 1, s')) \<and> store_ok E s' A Q \<and> bitmap s' = bitmap s"
proof -
  let ?p = "child_path pre nm"
  obtain e s1 where e: "search_path E ?p s = Inr (e, s1)" "is_valid_entry e" "node_num e = k"
      "store_ok E s1 A Q" "bitmap s1 = bitmap s"
    using search_child [OF st path(2) w A k] by blast
  let ?t = "s1\<lparr>tick := Suc (tick s1)\<rparr>"
  have num: "node_num e = of_nat (unat k)" using e(3) by simp
  note dir = is_directory_spec [OF e(4) N num]
  have st1: "store_ok E ?t A Q" using e(4) by simp
  obtain nd where nd: "read_node E (of_nat (unat k)) ?t = Inr (nd, 2 + unat k, ?t\<lparr>tick := Suc (tick ?t)\<rparr>)"
      "named nd" "nview nd = nview (node_at ?t (unat k))" "inode_ok ?t nd i (Q (unat k))"
    using read_node_store [OF st1 N] by blast
  let ?u = "?t\<lparr>tick := Suc (tick ?t)\<rparr>"
  note base = valid_child_path [OF path(2,1)] child_path_parts(1) [OF path(2), of pre] e(1,2) dir
  show ?thesis
  proof (cases i)
    case (File q bs)
    then have "sac_rmdir E L ?p s = Some (Inr (- 1, ?t))" using base by (simp add: sac_rmdir_def)
    then show ?thesis using File st1 e(5) by auto
  next
    case (Dir q fs)
    then have "fs \<noteq> []" using i by auto
    moreover have "unat (file_size nd) = 128 * length fs" using inode_ok_size [OF nd(4)] Dir by simp
    ultimately have "0 < unat (file_size nd)" by simp
    then have "file_size nd > 0" by (simp add: unat_gt_0 word_gt_0)
    then have "sac_rmdir E L ?p s = Some (Inr (- 2, unmap_and_destroy_node nd (2 + unat k) ?u))"
      using base Dir nd(1) e(3) by (simp add: sac_rmdir_def)
    moreover have "store_ok E (unmap_and_destroy_node nd (2 + unat k) ?u) A Q"
      using close_node [OF st1 N nd(2,3)] by simp
    ultimately show ?thesis using Dir e(5) by (auto simp: unmap_and_destroy_node_def put_node_def)
  qed
qed

end

section \<open>Deleting an empty directory\<close>

lemma put_node_commute:
  "a \<noteq> b \<Longrightarrow> unmap_and_destroy_node x a (unmap_and_destroy_node y b s) =
    unmap_and_destroy_node y b (unmap_and_destroy_node x a s)"
  by (simp add: unmap_and_destroy_node_def put_node_def fun_upd_twist)

lemma empty_dir_pointers:
  assumes "dir_ok s nd []"
  shows "free_pointers E (take 1000 (indirect_pointer_block nd)) t = Inr t"
proof -
  have "length (indirect_pointer_block nd) = 1000" "indirect_pointer_block nd ! 0 = 0"
    using assms by (simp_all add: dir_ok_def node_ok_def)
  then show ?thesis by (cases "indirect_pointer_block nd") auto
qed

lemma add_childs_empty:
  assumes "store_ok E s A Q" and "A n = Some (Dir p [])" and "node_num e = of_nat n"
  shows "\<exists>s'. add_childs_to_list E L xs e s = Inr (xs, s') \<and> store_ok E s' A Q \<and> bitmap s' = bitmap s"
proof -
  obtain nd where nd: "read_node E (of_nat n) s = Inr (nd, 2 + n, s\<lparr>tick := Suc (tick s)\<rparr>)"
      "named nd" "nview nd = nview (node_at s n)" "inode_ok s nd (Dir p []) (Q n)"
    using read_node_store [OF assms(1,2)] by blast
  let ?t = "s\<lparr>tick := Suc (tick s)\<rparr>"
  have "dir_ok ?t nd []" using nd(4) by simp
  from iterate_pointers_empty [OF this, of "add_child L" xs] nd(1) assms(3)
  have "add_childs_to_list E L xs e s = Inr (xs, unmap_and_destroy_node nd (2 + n) ?t)"
    by (auto simp: add_childs_to_list_def)
  then show ?thesis
    using close_node [OF assms(1,2) nd(2,3)] by (auto simp: unmap_and_destroy_node_def put_node_def)
qed

context bitarray_lib
begin

lemma delete_empty:
  assumes st: "store_ok E s A Q" and N: "A n = Some (Dir p [])"
  shows "\<exists>s1 s2. delete_all_directory_entries E (of_nat n) s = Inr s1 \<and> delete_node E (of_nat n) s1 = Inr s2 \<and>
    store_ok E s2 (A(n := None)) Q \<and> freed E (s2\<lparr>bitmap := bitmap s\<rparr>) s2 {2 + n}"
proof -
  obtain nd where nd: "read_node E (of_nat n) s = Inr (nd, 2 + n, s\<lparr>tick := Suc (tick s)\<rparr>)"
      "named nd" "nview nd = nview (node_at s n)" "inode_ok s nd (Dir p []) (Q n)"
    using read_node_store [OF st N] by blast
  let ?t = "s\<lparr>tick := Suc (tick s)\<rparr>"
  let ?s1 = "unmap_and_destroy_node nd (2 + n) ?t"
  have n: "n < 32" by (rule store_nodeD(1) [OF st N])
  have "dir_ok s nd []" using nd(4) by simp
  then have del: "delete_all_directory_entries E (of_nat n) s = Inr ?s1"
    using nd(1) by (simp add: delete_all_directory_entries_def empty_dir_pointers)
  have st1: "store_ok E ?s1 A Q" using close_node [OF st N nd(2,3)] by simp
  obtain nd1 where nd1: "read_node E (of_nat n) ?s1 = Inr (nd1, 2 + n, ?s1\<lparr>tick := Suc (tick ?s1)\<rparr>)" "named nd1"
    using read_node_store [OF st1 N] by blast
  let ?nd = "nd1\<lparr>file_name := (file_name nd1)[0 := 0], state := 0\<rparr>"
  let ?t1 = "?s1\<lparr>tick := Suc (tick ?s1)\<rparr>"
  let ?s2 = "unmap_and_destroy_node ?nd (2 + n) ?t1"
  have Qn: "Q n = {}" using nd(4) by (simp add: dir_blocks_def)
  have "store_ok E ?t1 A Q" using st1 by simp
  from store_ok_drop [OF this, of n] have st2: "store_ok E ?t1 (A(n := None)) Q"
    using Qn by (simp add: fun_upd_idem)
  have nok: "node_ok ?nd" using nd1(2) by (simp add: named_def node_ok_def)
  have st3: "store_ok E ?s2 (A(n := None)) Q"
    unfolding unmap_and_destroy_node_def [of ?nd]
    by (rule store_ok_dead_node [OF st2 _ n nok]) simp
  have num: "get_block_num_from_node_num (of_nat n) = of_nat (2 + n)"
    by (simp add: get_block_num_from_node_num_def const_simps)
  have un: "unat (of_nat (2 + n) :: u32) = 2 + n" using n by (intro unat_of_nat_small) simp
  have lt: "unat (of_nat (2 + n) :: u32) < 3000" unfolding un using n by simp
  obtain s3 where s3: "free_block E (of_nat (2 + n)) ?s2 = Inr s3" "freed E ?s2 s3 {2 + n}"
    using free_block_freed [OF store_okD(2) [OF st3] lt] unfolding un by blast
  have "store_ok E s3 (A(n := None)) Q"
  proof (rule store_ok_freed [OF st3 s3(2)])
    show "\<forall>j. Q j \<inter> {2 + n} = {}" using store_okD(3) [OF st3] n by fastforce
  qed simp
  moreover have "delete_node E (of_nat n) ?s1 = Inr s3"
    using nd1(1) s3(1) num by (simp add: delete_node_def Let_def)
  moreover have "freed E (s3\<lparr>bitmap := bitmap s\<rparr>) s3 {2 + n}"
    using s3(2) by (simp add: freed_def used_def unmap_and_destroy_node_def put_node_def)
  ultimately show ?thesis using del by blast
qed

end

context commons_lib
begin

lemma rmdir_empty:
  assumes last: "is_last nm es" and lists: "list_lib L" and st: "store_ok E s A Q"
    and path: "folder_ok pre" "component_ok nm"
    and w: "walk A (tokens slash pre) 0 = Some m" and A: "A m = Some (Dir p es)"
    and k: "map_of es nm = Some k" and N: "A (unat k) = Some (Dir (of_nat (2 + m)) [])" and mk: "m \<noteq> unat k"
  shows "\<exists>s' R. sac_rmdir E L (child_path pre nm) s = Some (Inr (0, s')) \<and>
    store_ok E s' (A(unat k := None, m \<mapsto> Dir p (del_entry nm es))) (Q(m := R)) \<and> \<not> used E s' (2 + unat k) \<and>
    free_data E s' = free_data E s"
proof -
  let ?p = "child_path pre nm" and ?n = "unat k"
  have n: "?n < 32" and m: "m < 32" using store_nodeD(1) [OF st] N A by auto
  obtain e s1 where e: "search_path E ?p s = Inr (e, s1)" "is_valid_entry e" "entry_name e = nm" "node_num e = k"
      "store_ok E s1 A Q" "bitmap s1 = bitmap s"
    using search_child [OF st path(2) w A k] by blast
  have num: "node_num e = of_nat ?n" using e(4) by simp
  let ?t = "s1\<lparr>tick := Suc (tick s1)\<rparr>"
  have dir: "is_directory E e s1 = Inr (True, ?t)" using is_directory_spec [OF e(5) N num] by simp
  have st1: "store_ok E ?t A Q" using e(5) by simp
  obtain nd where nd: "read_node E (of_nat ?n) ?t = Inr (nd, 2 + ?n, ?t\<lparr>tick := Suc (tick ?t)\<rparr>)"
      "inode_ok ?t nd (Dir (of_nat (2 + m)) []) (Q ?n)"
    using read_node_store [OF st1 N] by blast
  let ?u = "?t\<lparr>tick := Suc (tick ?t)\<rparr>"
  have z: "\<not> file_size nd > 0" using nd(2) by (simp add: dir_ok_def)
  have top: "sac_rmdir E L ?p s = rmdir_tree E L e ?u"
    using valid_child_path [OF path(2,1)] child_path_parts(1) [OF path(2), of pre] e(1,2,4) dir nd(1) z
    by (simp add: sac_rmdir_def)
  have stu: "store_ok E ?u A Q" using st1 by simp
  obtain un where un: "read_node E (of_nat ?n) ?u = Inr (un, 2 + ?n, ?u\<lparr>tick := Suc (tick ?u)\<rparr>)" "named un"
      "nview un = nview (node_at ?u ?n)" "inode_ok ?u un (Dir (of_nat (2 + m)) []) (Q ?n)"
    using read_node_store [OF stu N] by blast
  let ?v = "?u\<lparr>tick := Suc (tick ?u)\<rparr>"
  have stv: "store_ok E ?v A Q" using stu by simp
  obtain np where np: "block_to_node E (disk ?v (2 + m)) ?v = Inr (np, ?v\<lparr>tick := Suc (tick ?v)\<rparr>)" "named np"
      "inode_ok ?v np (Dir p es) (Q m)"
    using block_to_node_store [OF stv A] by blast
  let ?v1 = "?v\<lparr>tick := Suc (tick ?v)\<rparr>"
  have stv1: "store_ok E ?v1 A Q" and ino: "inode_ok ?v1 np (Dir p es) (Q m)" using stv np(3) by simp_all
  obtain np' s3 R where s3: "delete_directory_entry E np nm ?v1 = Inr (np', s3)"
      "store_ok E (unmap_and_destroy_node np' (2 + m) s3) (A(m \<mapsto> Dir p (del_entry nm es))) (Q(m := R))"
      "\<forall>b < 34. disk s3 b = disk ?v1 b" "bitmap s3 = bitmap ?v1"
    using delete_entry_store [OF last stv1 A np(2) ino] by blast
  let ?s3 = "unmap_and_destroy_node np' (2 + m) s3" and ?A = "A(m \<mapsto> Dir p (del_entry nm es))" and ?Q = "Q(m := R)"
  have N3: "?A ?n = Some (Dir (of_nat (2 + m)) [])" using N mk by simp
  let ?s4 = "unmap_and_destroy_node un (2 + ?n) ?s3"
  have "node_at ?s3 ?n = node_at ?u ?n"
    using s3(3) n mk by (simp add: node_at_def const_simps unmap_and_destroy_node_def put_node_def)
  then have st4: "store_ok E ?s4 ?A ?Q" using un(2,3) by (intro write_back [OF s3(2) N3]) simp_all
  have par: "parent_block un = of_nat (2 + m)" using un(4) by simp
  have rb: "read_block (parent_block un) = Inr (2 + m)" unfolding par using m by simp
  have dp: "delete_parent_entry E e ?u = Inr ?s4"
    using un(1) rb np(1) s3(1) e(3,4) put_node_commute [of "2 + m" "2 + ?n" np' un s3] mk
    by (simp add: delete_parent_entry_def Let_def)
  let ?l = "add_entry_to_list L (list_create L) e"
  obtain s5 where s5: "add_childs_to_list E L ?l e ?s4 = Inr (?l, s5)" "store_ok E s5 ?A ?Q" "bitmap s5 = bitmap ?s4"
    using add_childs_empty [OF st4 N3 num] by blast
  have sz: "list_size L ?l = 1" and el: "list_get L ?l 0 = Some \<lparr>entry_name = nm, node_num = k, entry_data = zero_position\<rparr>"
    using list_lib.add_append [OF lists] list_lib.create_nil [OF lists] list_lib.size_length [OF lists]
      list_lib.get_nth [OF lists] e(3,4)
    by (simp_all add: add_entry_to_list_def)
  obtain s6 s7 where s7: "delete_all_directory_entries E (of_nat ?n) s5 = Inr s6" "delete_node E (of_nat ?n) s6 = Inr s7"
      "store_ok E s7 (?A(?n := None)) ?Q" "freed E (s7\<lparr>bitmap := bitmap s5\<rparr>) s7 {2 + ?n}"
    using delete_empty [OF s5(2) N3] by blast
  have dc: "delete_collected E L 0 ?l s5 = Inr s7"
    using s7(1,2) sz el by (simp add: delete_collected.simps [of _ _ 0] delete_collected.simps [of _ _ "Suc 0"])
  have "collect_childs E L 1 ?l e s5 = Some (Inr (?l, e, s5))"
    using sz by (simp add: collect_childs.simps)
  then have "sac_rmdir E L ?p s = Some (Inr (0, s7))"
    unfolding top rmdir_tree_def using dp s5(1) dc by simp
  moreover have "?A(?n := None) = A(?n := None, m \<mapsto> Dir p (del_entry nm es))"
    using mk by (intro fun_upd_twist) simp
  moreover have "\<not> used E s7 (2 + ?n)" using s7(4) n by (simp add: freed_def)
  moreover have "free_data E s7 = free_data E s"
  proof -
    have "free_data E s7 = free_data E (s7\<lparr>bitmap := bitmap s5\<rparr>)" using s7(4) n by (auto simp: freed_def free_data_def)
    also have "\<dots> = free_data E s"
      using s5(3) s3(4) e(6) by (intro free_data_bitmap) (simp add: unmap_and_destroy_node_def put_node_def)
    finally show ?thesis .
  qed
  ultimately show ?thesis using s7(3) by auto
qed

text \<open>
  A directory that is made in an empty one and removed again: the tree is as before. The blocks that
  the entry took are not given back.
\<close>

lemma walk_to_empty:
  assumes "walk A ps i = Some m" and "A m = Some (Dir p [])" and "A n = None"
    and "\<forall>j. j \<noteq> m \<and> j \<noteq> n \<longrightarrow> B j = A j"
  shows "walk B ps i = Some m"
  using assms(1)
proof (induction ps arbitrary: i)
  case (Cons x ps)
  then obtain q es k where i: "A i = Some (Dir q es)" "map_of es x = Some k" "walk A ps (unat k) = Some m"
    by (auto split: option.splits inode.splits)
  then have "i \<noteq> m" "i \<noteq> n" using assms(2,3) by auto
  then have "B i = Some (Dir q es)" using assms(4) i(1) by simp
  then show ?case using i(2) Cons.IH [OF i(3)] by simp
qed simp

lemma mkdir_rmdir:
  assumes lists: "list_lib L" and st: "store_ok E s A Q" and path: "folder_ok pre" "component_ok nm"
    and w: "walk A (tokens slash pre) 0 = Some m" and A: "A m = Some (Dir p [])"
    and fn: "free_node E s n" and space: "2 \<le> card (free_data E s)"
  shows "\<exists>s1 s2 R. sac_mkdir E (child_path pre nm) mode s = Inr (0, s1) \<and>
    sac_rmdir E L (child_path pre nm) s1 = Some (Inr (0, s2)) \<and> store_ok E s2 A R \<and>
    \<not> used E s2 (2 + n) \<and> card (free_data E s2) + 2 = card (free_data E s)"
proof -
  have n: "n < 32" and N: "A n = None" using fn store_ok_unused [OF st, of n] by (auto simp: free_node_def)
  then have mn: "m \<noteq> n" using A by auto
  let ?B = "A(n \<mapsto> Dir (of_nat (2 + m)) [], m \<mapsto> Dir p ([] @ [(nm, of_nat n)]))"
  obtain s1 Q1 where s1: "sac_mkdir E (child_path pre nm) mode s = Inr (0, s1)" "store_ok E s1 ?B Q1"
      "node_taken E s s1 n 2"
    using mkdir_creates [OF st path w A _ _ fn, of mode] space by auto
  have w1: "walk ?B (tokens slash pre) 0 = Some m" by (rule walk_to_empty [OF w A N]) simp
  have un: "unat (of_nat n :: u32) = n" using n by (intro unat_of_nat_small) simp
  have B: "?B m = Some (Dir p [(nm, of_nat n)])" "?B (unat (of_nat n :: u32)) = Some (Dir (of_nat (2 + m)) [])"
    unfolding un using mn by simp_all
  have mk: "m \<noteq> unat (of_nat n :: u32)" unfolding un by (rule mn)
  have k: "map_of [(nm, of_nat n)] nm = Some (of_nat n :: u32)" by simp
  have last: "is_last nm [(nm, of_nat n :: u32)]" by (simp add: is_last_def)
  obtain s2 R where s2: "sac_rmdir E L (child_path pre nm) s1 = Some (Inr (0, s2))"
      "store_ok E s2 (?B(unat (of_nat n :: u32) := None, m \<mapsto> Dir p (del_entry nm [(nm, of_nat n)]))) (Q1(m := R))"
      "\<not> used E s2 (2 + unat (of_nat n :: u32))" "free_data E s2 = free_data E s1"
    using rmdir_empty [OF last lists s1(2) path w1 B(1) k B(2) mk] by blast
  have "?B(unat (of_nat n :: u32) := None, m \<mapsto> Dir p (del_entry nm [(nm, of_nat n)])) = A"
    unfolding un using A N mn by (auto simp: fun_eq_iff)
  then have "store_ok E s2 A (Q1(m := R))" using s2(2) by simp
  moreover have "card (free_data E s2) + 2 = card (free_data E s)" using s1(3) s2(4) by (simp add: node_taken_def)
  ultimately show ?thesis using s1(1) s2(1,3) un by auto
qed

end

end
