(* ===== verification/Rename_Spec.thy ===== *)
theory Rename_Spec
  imports Rmdir_Spec
begin

text \<open>
  \<open>sac_rename\<close>: the entry is taken out of the old directory and put at the end of the new one,
  and the node is given its new parent. Whether the new name is taken is not looked at. The entry is
  the last of the old directory (\<open>is_last\<close>): for another, ISO C does not say what is left there.
\<close>

fun with_par :: "u32 \<Rightarrow> inode \<Rightarrow> inode" where
  "with_par q (Dir p es) = Dir q es"
| "with_par q (File p bs) = File q bs"

definition delete_from :: "cstr \<Rightarrow> nat \<Rightarrow> afs \<Rightarrow> afs" where
  "delete_from nm m A = (case A m of Some (Dir p es) \<Rightarrow> A(m \<mapsto> Dir p (del_entry nm es)) | _ \<Rightarrow> A)"

definition add_to :: "cstr \<Rightarrow> u32 \<Rightarrow> nat \<Rightarrow> afs \<Rightarrow> afs" where
  "add_to nm k m A = (case A m of Some (Dir p es) \<Rightarrow> A(m \<mapsto> Dir p (es @ [(nm, k)])) | _ \<Rightarrow> A)"

text \<open>The abstract rename of the entry \<open>old\<close> of directory \<open>m\<close> to \<open>new\<close> in directory \<open>m'\<close>.\<close>

definition move :: "cstr \<Rightarrow> nat \<Rightarrow> cstr \<Rightarrow> nat \<Rightarrow> u32 \<Rightarrow> afs \<Rightarrow> afs" where
  "move old m new m' k A =
     (let B = add_to new k m' (delete_from old m A)
      in B(unat k := map_option (with_par (of_nat (2 + m'))) (B (unat k))))"

lemma parent_count [simp]: "count_pointers (nd\<lparr>parent_block := q\<rparr>) = count_pointers nd"
  by (simp add: count_pointers_def)

lemma parent_slots [simp]: "data_block_num s (nd\<lparr>parent_block := q\<rparr>) = data_block_num s nd"
  by (rule ext) (simp add: data_block_num_def)

lemma parent_file [simp]:
  "file_ok s (nd\<lparr>parent_block := q\<rparr>) bs = file_ok s nd bs"
  "file_blocks s (nd\<lparr>parent_block := q\<rparr>) = file_blocks s nd"
  unfolding file_ok_def file_blocks_def zero_tail_def pointers_fit_def slots_ok_def contents_def slot_blocks_def
    file_slots_def parent_count parent_slots by simp_all

lemma parent_dir [simp]:
  "dir_ok s (nd\<lparr>parent_block := q\<rparr>) es = dir_ok s nd es"
  "dir_blocks s (nd\<lparr>parent_block := q\<rparr>) es = dir_blocks s nd es"
  by (simp_all add: dir_ok_def dir_blocks_def dir_data_def node_ok_def)

lemma inode_ok_parent:
  "inode_ok s nd i R \<Longrightarrow> inode_ok s (nd\<lparr>parent_block := q\<rparr>) (with_par q i) R"
  by (cases i) simp_all

lemma no_empty_last:
  assumes "store_ok E s A Q" and "A m = Some (Dir p es)"
  shows "is_last [] es"
proof -
  have "inode_ok s (node_at s m) (Dir p es) (Q m)" by (rule store_nodeD(4) [OF assms])
  then have "\<forall>e \<in> set es. fst e \<noteq> []" by (auto simp: dir_ok_def name_ok_def)
  then show ?thesis by (intro is_last_absent) auto
qed

lemma no_empty_name:
  assumes "store_ok E s A Q" and "A m = Some (Dir p es)"
  shows "delete_from [] m A = A"
proof -
  have "inode_ok s (node_at s m) (Dir p es) (Q m)" by (rule store_nodeD(4) [OF assms])
  then have "\<forall>e \<in> set es. fst e \<noteq> []" by (auto simp: dir_ok_def name_ok_def)
  then have "del_entry [] es = es" by (induction es) auto
  then show ?thesis using assms(2) by (simp add: delete_from_def fun_upd_idem)
qed

context commons_lib
begin

text \<open>
  The entry that is moved: the one found, or the invalid one with no name and node 0 when the old name
  is not there, which the code does not look at.
\<close>

definition found_or_invalid :: "entries \<Rightarrow> cstr \<Rightarrow> cstr \<times> u32" where
  "found_or_invalid es nm = (case map_of es nm of None \<Rightarrow> ([], 0) | Some k \<Rightarrow> (nm, k))"

lemma rename_any:
  assumes last: "is_last x es" and st: "store_ok E s A Q"
    and old: "folder_ok pre" "component_ok nm" and new: "folder_ok pre'" "component_ok nm'"
    and w: "walk A (tokens slash pre) 0 = Some m" and A: "A m = Some (Dir p es)"
    and w': "walk A (tokens slash pre') 0 = Some m'"
    and k: "found_or_invalid es nm = (x, k)" and K: "A (unat k) \<noteq> None"
    and T: "delete_from x m A m' = Some (Dir p' es')" and room: "length es' < 31"
    and space: "es' = [] \<longrightarrow> 2 \<le> card (free_data E s)"
  shows "\<exists>s' Q'. sac_rename E (child_path pre nm) (child_path pre' nm') s = Inr (0, s') \<and>
    store_ok E s' (move x m nm' m' k A) Q'"
proof -
  let ?o = "child_path pre nm" and ?n = "child_path pre' nm'"
  have w1: "walk A (tokens slash (pre @ [slash])) 0 = Some m" "walk A (tokens slash (pre' @ [slash])) 0 = Some m'"
    using w w' by (simp_all add: tokens_folder)
  obtain i' where A': "A m' = Some i'" using T by (auto simp: delete_from_def split: option.splits inode.splits if_splits)
  obtain e1 s1 where e1: "search_path E (pre @ [slash]) s = Inr (e1, s1)" "is_valid_entry e1"
      "node_num e1 = of_nat m" "store_ok E s1 A Q" "bitmap s1 = bitmap s"
    using open_path [OF st w1(1) A] by blast
  obtain e2 s2 where e2: "search_path E (pre' @ [slash]) s1 = Inr (e2, s2)" "is_valid_entry e2"
      "node_num e2 = of_nat m'" "store_ok E s2 A Q" "bitmap s2 = bitmap s1"
    using open_path [OF e1(4) w1(2) A'] by blast
  obtain nd where nd: "read_node E (of_nat m) s2 = Inr (nd, 2 + m, s2\<lparr>tick := Suc (tick s2)\<rparr>)" "named nd"
      "inode_ok s2 nd (Dir p es) (Q m)"
    using read_node_store [OF e2(4) A] by blast
  let ?t = "s2\<lparr>tick := Suc (tick s2)\<rparr>"
  have stt: "store_ok E ?t A Q" and inot: "inode_ok ?t nd (Dir p es) (Q m)" using e2(4) nd(3) by simp_all
  have "dir_ok ?t nd es" using inot by simp
  from dir_lookup [OF this, of nm] k obtain e where e: "get_entry nd nm ?t = Inr e" "entry_name e = x" "node_num e = k"
    by (auto simp: found_or_invalid_def is_valid_entry_def split: option.splits)
  obtain nd' s3 R where s3: "delete_directory_entry E nd x ?t = Inr (nd', s3)"
      "store_ok E (unmap_and_destroy_node nd' (2 + m) s3) (A(m \<mapsto> Dir p (del_entry x es))) (Q(m := R))"
      "bitmap s3 = bitmap ?t"
    using delete_entry_store [OF last stt A nd(2) inot] by blast
  let ?s3 = "unmap_and_destroy_node nd' (2 + m) s3" and ?A = "A(m \<mapsto> Dir p (del_entry x es))"
  have DA: "delete_from x m A = ?A" using A by (simp add: delete_from_def)
  have T': "?A m' = Some (Dir p' es')" using T unfolding DA .
  obtain md where md: "read_node E (of_nat m') ?s3 = Inr (md, 2 + m', ?s3\<lparr>tick := Suc (tick ?s3)\<rparr>)" "named md"
      "inode_ok ?s3 md (Dir p' es') ((Q(m := R)) m')"
    using read_node_store [OF s3(2) T'] by blast
  let ?u = "?s3\<lparr>tick := Suc (tick ?s3)\<rparr>"
  have stu: "store_ok E ?u ?A (Q(m := R))" and inou: "inode_ok ?u md (Dir p' es') ((Q(m := R)) m')"
    using s3(2) md(3) by simp_all
  have "bitmap ?u = bitmap s" using e1(5) e2(5) s3(3) by (simp add: unmap_and_destroy_node_def put_node_def)
  then have sp: "es' = [] \<longrightarrow> 2 \<le> card (free_data E ?u)" using space free_data_bitmap by metis
  have nm': "name_ok nm'" using new(2) by (simp add: component_ok_def)
  obtain md' s4 R' where s4: "add_directory_entry E md nm' k ?u = Inr (md', s4)"
      "store_ok E (unmap_and_destroy_node md' (2 + m') s4) (?A(m' \<mapsto> Dir p' (es' @ [(nm', k)]))) ((Q(m := R))(m' := R'))"
    using add_entry_store [OF stu T' md(2) inou nm' room sp, of k] by blast
  let ?s4 = "unmap_and_destroy_node md' (2 + m') s4" and ?B = "?A(m' \<mapsto> Dir p' (es' @ [(nm', k)]))"
    and ?Q = "(Q(m := R))(m' := R')"
  have B: "add_to nm' k m' (delete_from x m A) = ?B" unfolding DA using T' by (simp add: add_to_def)
  have "?B (unat k) \<noteq> None" using K by simp
  then obtain i where i: "?B (unat k) = Some i" by (auto simp del: fun_upd_apply)
  obtain fd where fd: "read_node E (of_nat (unat k)) ?s4 = Inr (fd, 2 + unat k, ?s4\<lparr>tick := Suc (tick ?s4)\<rparr>)"
      "named fd" "inode_ok ?s4 fd i (?Q (unat k))"
    using read_node_store [OF s4(2) i] by blast
  let ?v = "?s4\<lparr>tick := Suc (tick ?s4)\<rparr>" and ?fd = "fd\<lparr>parent_block := of_nat (2 + m')\<rparr>"
  have stv: "store_ok E ?v ?B ?Q" using s4(2) by simp
  note kD = store_nodeD [OF stv i] and vD = store_okD [OF stv]
  have nfd: "named ?fd" using fd(2) by (simp add: named_def node_ok_def)
  have ino: "inode_ok ?v ?fd (with_par (of_nat (2 + m')) i) (?Q (unat k))"
    using inode_ok_parent [OF fd(3), of "of_nat (2 + m')"] by (simp del: of_nat_add)
  have "store_ok E (unmap_and_destroy_node ?fd (2 + unat k) ?v) (?B(unat k \<mapsto> with_par (of_nat (2 + m')) i))
      (?Q(unat k := ?Q (unat k)))"
  proof (rule store_ok_write [OF stv kD(1,2) vD(1,2) _ _ _ nfd ino, where B = "{}"])
    show "\<forall>b \<in> ?Q (unat k). 34 \<le> b \<and> b < 3000 \<and> used E ?v b" using vD(3) by blast
    show "\<forall>j. j \<noteq> unat k \<longrightarrow> ?Q j \<inter> ?Q (unat k) = {}" using vD(4) by blast
  qed auto
  moreover have "move x m nm' m' k A = ?B(unat k \<mapsto> with_par (of_nat (2 + m')) i)"
    unfolding move_def Let_def B i by simp
  moreover have "sac_rename E ?o ?n s = Inr (0, unmap_and_destroy_node ?fd (2 + unat k) ?v)"
    unfolding sac_rename_def Let_def
    using valid_child_path [OF old(2,1)] valid_child_path [OF new(2,1)] child_path_parts(1,3) [OF old(2)]
      child_path_parts(1,3) [OF new(2)] e1(1-3) e2(1-3) nd(1) e s3(1) md(1) s4(1) fd(1)
    by (simp add: const_simps add.commute)
  ultimately show ?thesis by auto
qed

lemma rename_moves:
  assumes last: "is_last nm es" and st: "store_ok E s A Q"
    and old: "folder_ok pre" "component_ok nm" and new: "folder_ok pre'" "component_ok nm'"
    and w: "walk A (tokens slash pre) 0 = Some m" and A: "A m = Some (Dir p es)"
    and w': "walk A (tokens slash pre') 0 = Some m'"
    and k: "map_of es nm = Some k" and K: "A (unat k) \<noteq> None"
    and T: "delete_from nm m A m' = Some (Dir p' es')" and room: "length es' < 31"
    and space: "es' = [] \<longrightarrow> 2 \<le> card (free_data E s)"
  shows "\<exists>s' Q'. sac_rename E (child_path pre nm) (child_path pre' nm') s = Inr (0, s') \<and>
    store_ok E s' (move nm m nm' m' k A) Q'"
proof -
  have "found_or_invalid es nm = (nm, k)" using k by (simp add: found_or_invalid_def)
  from rename_any [OF last st old new w A w' this K T room space] show ?thesis .
qed

text \<open>A name that is not there: the new directory gets an entry for the root.\<close>

lemma rename_missing:
  assumes st: "store_ok E s A Q"
    and old: "folder_ok pre" "component_ok nm" and new: "folder_ok pre'" "component_ok nm'"
    and w: "walk A (tokens slash pre) 0 = Some m" and A: "A m = Some (Dir p es)"
    and w': "walk A (tokens slash pre') 0 = Some m'" and A': "A m' = Some (Dir p' es')"
    and no: "nm \<notin> fst ` set es" and root: "A 0 \<noteq> None" and room: "length es' < 31"
    and space: "es' = [] \<longrightarrow> 2 \<le> card (free_data E s)"
  shows "\<exists>s' Q'. sac_rename E (child_path pre nm) (child_path pre' nm') s = Inr (0, s') \<and>
    store_ok E s' (move [] m nm' m' 0 A) Q'"
proof -
  have "map_of es nm = None" using no by (simp add: map_of_eq_None_iff)
  then have f: "found_or_invalid es nm = ([], 0)" by (simp add: found_or_invalid_def)
  have T: "delete_from [] m A m' = Some (Dir p' es')" unfolding no_empty_name [OF st A] by (rule A')
  have "A (unat (0 :: u32)) \<noteq> None" using root by simp
  have "is_last [] es" by (rule no_empty_last [OF st A])
  from rename_any [OF this st old new w A w' f \<open>A (unat 0) \<noteq> None\<close> T room space] show ?thesis .
qed

lemma rename_no_folder:
  assumes st: "store_ok E s A Q"
    and old: "folder_ok pre" "component_ok nm" and new: "folder_ok pre'" "component_ok nm'"
    and w: "walks_dirs A (tokens slash pre) 0" "walks_dirs A (tokens slash pre') 0"
    and no: "walk A (tokens slash pre) 0 = None \<or> walk A (tokens slash pre') 0 = None"
  shows "\<exists>s'. sac_rename E (child_path pre nm) (child_path pre' nm') s = Inr (- 1, s') \<and> store_ok E s' A Q"
proof -
  have t: "tokens slash (pre @ [slash]) = tokens slash pre" "tokens slash (pre' @ [slash]) = tokens slash pre'"
    by (simp_all add: tokens_folder)
  obtain e1 s1 where e1: "search_path E (pre @ [slash]) s = Inr (e1, s1)" "store_ok E s1 A Q"
      "walk A (tokens slash pre) 0 = None \<longrightarrow> \<not> is_valid_entry e1"
    using search_path_spec [OF st, of "pre @ [slash]"] w(1) unfolding t by (auto split: option.splits)
  obtain e2 s2 where e2: "search_path E (pre' @ [slash]) s1 = Inr (e2, s2)" "store_ok E s2 A Q"
      "walk A (tokens slash pre') 0 = None \<longrightarrow> \<not> is_valid_entry e2"
    using search_path_spec [OF e1(2), of "pre' @ [slash]"] w(2) unfolding t by (auto split: option.splits)
  have "\<not> (is_valid_entry e1 \<and> is_valid_entry e2)" using no e1(3) e2(3) by blast
  then have "sac_rename E (child_path pre nm) (child_path pre' nm') s = Inr (- 1, s2)"
    using valid_child_path [OF old(2,1)] valid_child_path [OF new(2,1)] child_path_parts(1,3) [OF old(2), of pre]
      child_path_parts(1,3) [OF new(2), of pre'] e1(1) e2(1)
    by (simp add: sac_rename_def) blast
  with e2(2) show ?thesis by blast
qed

end

end
