(* ===== verification/Trunc_Spec.thy ===== *)
theory Trunc_Spec
  imports Remove_Spec
begin

text \<open>
  Truncating a file. To make it shorter, \<open>sac_truncate\<close> takes data blocks off its end with
  \<open>deleteLastDataBlock\<close>, which lets the size fall to the start of the block before the last, and
  sets the size once less than a block is left to cut; to make it longer it writes the letter A.
\<close>

section \<open>Taking blocks off the end of a node\<close>

text \<open>A pointer block goes from the last place in use.\<close>

lemma drop_pointer:
  assumes "node_ok nd" and "zero_tail nd" and "count_pointers nd = Suc c"
  defines "nd' \<equiv> nd\<lparr>indirect_pointer_block := (indirect_pointer_block nd)[c := 0]\<rparr>"
  shows "count_pointers nd' = c" and "zero_tail nd'" and "node_ok nd'"
proof -
  let ?ps = "(indirect_pointer_block nd)[c := 0]"
  have len: "length (indirect_pointer_block nd) = 1000" using assms(1) by (simp add: node_ok_def)
  have c: "c < 1000" using count_pointers_bound [of nd] assms(3) by simp
  have "takeWhile (\<lambda>p. p \<noteq> 0) ?ps = take c ?ps"
  proof (rule takeWhile_eq_take_P_nth)
    show "?ps ! i \<noteq> 0" if "i < c" "i < length ?ps" for i
      using that assms(3) count_pointers_nth(1) [of i nd] by simp
    show "\<not> ?ps ! c \<noteq> 0" if "c < length ?ps" using that by simp
  qed
  then show n: "count_pointers nd' = c" using len c by (simp add: count_pointers_def nd'_def)
  show "zero_tail nd'"
    unfolding zero_tail_def n using assms(2,3) len by (simp add: nd'_def zero_tail_def nth_list_update Suc_le_eq)
  show "node_ok nd'" using assms(1) by (simp add: nd'_def node_ok_def)
qed

text \<open>With the last data block, and the pointer blocks from \<open>c\<close> on, taken away.\<close>

lemma fewer_slots:
  assumes ok: "slots_ok s nd (Suc K)" and c: "count_pointers nd' = c" "c \<le> count_pointers nd"
    and ps: "\<forall>i < c. indirect_pointer_block nd' ! i = indirect_pointer_block nd ! i"
    and in_c: "\<forall>k < K. k div 1024 < c"
  shows "k < K \<Longrightarrow> data_block_num s nd' k = data_block_num s nd k" and "slots_ok s nd' K"
    and "slot_blocks s nd' K \<subseteq> slot_blocks s nd (Suc K)"
    and "slot_blocks s nd (Suc K) - slot_blocks s nd' K =
      insert (blk s nd K) ((\<lambda>i. unat (indirect_pointer_block nd ! i)) ` {c..<count_pointers nd})"
proof -
  let ?p = "\<lambda>i. unat (indirect_pointer_block nd ! i)" and ?d = "\<lambda>k. blk s nd k"
  have num: "data_block_num s nd' k = data_block_num s nd k" if "k < K" for k
    using that ps in_c by (simp add: data_block_num_def)
  then show "k < K \<Longrightarrow> data_block_num s nd' k = data_block_num s nd k" .
  have P: "(\<lambda>i. unat (indirect_pointer_block nd' ! i)) ` {..<c} = ?p ` {..<c}"
    and D: "(\<lambda>k. blk s nd' k) ` {..<K} = ?d ` {..<K}"
    using ps num by (auto intro!: image_cong)
  have ip: "inj_on ?p {..<count_pointers nd}" and id: "inj_on ?d {..<Suc K}"
    and df: "\<And>i k. i < count_pointers nd \<Longrightarrow> k < Suc K \<Longrightarrow> ?p i \<noteq> ?d k"
    using ok by (auto simp: slots_ok_def)
  have "inj_on ?p {..<c}" and "inj_on ?d {..<K}"
    using inj_on_subset [OF ip, of "{..<c}"] inj_on_subset [OF id, of "{..<K}"] c(2) by auto
  then show "slots_ok s nd' K" using ps num c df by (simp add: slots_ok_def inj_on_def)
  have B: "slot_blocks s nd' K = ?p ` {..<c} \<union> ?d ` {..<K}"
    unfolding slot_blocks_def c(1) P D ..
  have B0: "slot_blocks s nd (Suc K) = ?p ` {..<count_pointers nd} \<union> ?d ` {..<Suc K}"
    by (simp add: slot_blocks_def)
  show "slot_blocks s nd' K \<subseteq> slot_blocks s nd (Suc K)" unfolding B B0 using c(2) by auto
  have "?p ` {..<count_pointers nd} - ?p ` {..<c} = ?p ` {c..<count_pointers nd}"
    using inj_on_image_set_diff [OF ip, of "{..<count_pointers nd}" "{..<c}"] c(2)
    by (simp add: lessThan_minus_lessThan subset_eq)
  moreover have "?d ` {..<Suc K} - ?d ` {..<K} = {?d K}"
    using inj_on_image_set_diff [OF id, of "{..<Suc K}" "{..<K}"] by (auto simp: lessThan_Suc)
  moreover have "?p ` {..<count_pointers nd} \<inter> ?d ` {..<Suc K} = {}" using df by auto
  moreover have "?p ` {..<c} \<subseteq> ?p ` {..<count_pointers nd}" and "?d ` {..<K} \<subseteq> ?d ` {..<Suc K}"
    using c(2) by auto
  moreover have "(P \<union> D) - (P' \<union> D') = (P - P') \<union> (D - D')"
    if "P \<inter> D = {}" "P' \<subseteq> P" "D' \<subseteq> D" for P D P' D' :: "nat set"
    using that by blast
  ultimately show "slot_blocks s nd (Suc K) - slot_blocks s nd' K = insert (?d K) (?p ` {c..<count_pointers nd})"
    unfolding B B0 by simp
qed

text \<open>
  \<open>snug E s nd bs\<close>: the node holds \<open>bs\<close>, its blocks are on the disk and marked used, and it has no
  more pointer blocks than its data blocks need.
\<close>

definition snug :: "t_node \<Rightarrow> bool" where
  "snug nd \<longleftrightarrow> count_pointers nd \<noteq> 0 \<longrightarrow> count_pointers nd = Suc (unat (file_size nd) div 4096 div 1024)"

definition kept :: "env \<Rightarrow> fs \<Rightarrow> t_node \<Rightarrow> bytes \<Rightarrow> bool" where
  "kept E s nd bs \<longleftrightarrow>
     sizeof_ptr E = 4 \<and> bitmap_ok s \<and> disk_ok s \<and> node_ok nd \<and> file_ok s nd bs \<and>
     (\<forall>b \<in> file_blocks s nd. 34 \<le> b \<and> b < 3000)"

text \<open>
  \<open>shed E s nd s' nd'\<close>: the disk is the same, the node has kept some of its blocks, and some of the
  others (all those that \<open>deleteLastDataBlock\<close> takes) are free again.
\<close>

definition shed :: "env \<Rightarrow> fs \<Rightarrow> t_node \<Rightarrow> fs \<Rightarrow> t_node \<Rightarrow> bool" where
  "shed E s nd s' nd' \<longleftrightarrow>
     (\<exists>B. B \<subseteq> file_blocks s nd - file_blocks s' nd' \<and> freed E s s' B) \<and>
     file_blocks s' nd' \<subseteq> file_blocks s nd \<and>
     nd'\<lparr>indirect_pointer_block := indirect_pointer_block nd, file_size := file_size nd\<rparr> = nd"

lemma file_blocks_disk: "disk s' = disk s \<Longrightarrow> file_blocks s' = file_blocks s"
  by (rule repr_disk(4))

lemma shed_refl: "bitmap_ok s \<Longrightarrow> shed E s nd s nd"
  using freed_refl [of s E] by (auto simp: shed_def)

lemma shed_trans:
  assumes "shed E s nd s1 nd1" and "shed E s1 nd1 s2 nd2"
  shows "shed E s nd s2 nd2"
proof -
  obtain B B' where B: "B \<subseteq> file_blocks s nd - file_blocks s1 nd1" "freed E s s1 B"
      "B' \<subseteq> file_blocks s1 nd1 - file_blocks s2 nd2" "freed E s1 s2 B'"
    using assms unfolding shed_def by blast
  have "freed E s s2 (B \<union> B')" by (rule freed_trans [OF B(2,4)])
  moreover have "B \<union> B' \<subseteq> file_blocks s nd - file_blocks s2 nd2"
    using B assms unfolding shed_def by blast
  moreover have "nd2\<lparr>indirect_pointer_block := indirect_pointer_block nd, file_size := file_size nd\<rparr> =
      (nd2\<lparr>indirect_pointer_block := indirect_pointer_block nd1, file_size := file_size nd1\<rparr>)
        \<lparr>indirect_pointer_block := indirect_pointer_block nd, file_size := file_size nd\<rparr>" by simp
  moreover have "\<dots> = nd" using assms by (simp add: shed_def)
  moreover have "file_blocks s2 nd2 \<subseteq> file_blocks s nd" using assms unfolding shed_def by blast
  ultimately show ?thesis unfolding shed_def by metis
qed

context bitarray_lib
begin

text \<open>Which pointer blocks, data block and size \<open>deleteLastDataBlock\<close> leaves, \<open>K\<close> the last data block.\<close>

lemma delete_last_eval:
  assumes k: "kept E s nd bs" and sn: "snug nd" and ne: "count_pointers nd \<noteq> 0" "file_size nd \<noteq> 0"
  defines "K \<equiv> unat (file_size nd) div 4096"
  defines "c \<equiv> (if K mod 1024 = 0 then K div 1024 else Suc (K div 1024))"
  shows "\<exists>ps z s'. deleteLastDataBlock E nd s = Inr (nd\<lparr>indirect_pointer_block := ps, file_size := z\<rparr>, s') \<and>
    unat z = (K - 1) * 4096 \<and> length ps = 1000 \<and> (\<forall>i < c. ps ! i = indirect_pointer_block nd ! i) \<and>
    count_pointers (nd\<lparr>indirect_pointer_block := ps\<rparr>) = c \<and> zero_tail (nd\<lparr>indirect_pointer_block := ps\<rparr>) \<and>
    freed E s s' (insert (blk s nd K) ((\<lambda>i. unat (indirect_pointer_block nd ! i)) ` {c..<count_pointers nd}))"
proof -
  let ?n = "file_size nd div of_nat BLOCK_SIZE" and ?ps = "indirect_pointer_block nd"
  have bm: "bitmap_ok s" and nok: "node_ok nd" and E4: "sizeof_ptr E = 4" and Fok: "file_ok s nd bs"
    and Bok: "\<forall>b \<in> file_blocks s nd. b < 3000"
    using k by (simp_all add: kept_def)
  have z: "zero_tail nd" using Fok by (simp add: file_ok_def)
  have cn: "count_pointers nd = Suc (K div 1024)" using sn ne(1) by (simp add: snug_def K_def)
  have K: "K < 1024000" using cn count_pointers_bound [of nd] by (simp add: less_eq_Suc_le div_less_iff_less_mult)
  have u: "unat ?n = K" unfolding K_def by (rule size_div_block)
  then have w: "?n = of_nat K" by (simp flip: u)
  have pb: "unat (?ps ! i) < 3000" if "i < Suc (K div 1024)" for i
    using Bok that cn by (auto simp: file_blocks_def slot_blocks_def)
  have db: "blk s nd K < 3000" using Bok cn by (auto simp: file_blocks_def slot_blocks_def file_slots_def K_def)
  have gb: "getBlockNumberFromNodeDataBlock E nd ?n s = Inr (data_block_num s nd K)"
    unfolding w using pb by (intro getBlockNumber_spec [OF E4 K]) (simp add: const_simps)
  define z' where "z' = (if ?n = 0 then 0 else (?n - 1) * of_nat BLOCK_SIZE)"
  have uz: "unat z' = (K - 1) * 4096" unfolding z'_def K_def by (rule size_before_last)
  obtain s1 where s1: "free_block E (data_block_num s nd K) s = Inr s1" "freed E s s1 {blk s nd K}"
    using free_block_freed [OF bm db] by blast
  have md: "?n mod 1024 = 0 \<longleftrightarrow> K mod 1024 = 0"
    using unat_of_nat_div_mod_1024(2) [OF K] unfolding w by (metis unsigned_eq_0_iff)
  have dv: "unat (?n div 1024) = K div 1024" unfolding w by (rule unat_of_nat_div_mod_1024(1) [OF K])
  have len: "length ?ps = 1000" using nok by (simp add: node_ok_def)
  show ?thesis
  proof (cases "K mod 1024 = 0")
    case False
    then have "deleteLastDataBlock E nd s = Inr (nd\<lparr>indirect_pointer_block := ?ps, file_size := z'\<rparr>, s1)"
      using ne(2) gb s1(1) md by (simp add: deleteLastDataBlock_def z'_def)
    then show ?thesis using False uz len z cn s1(2)
      by (intro exI [of _ ?ps] exI [of _ z'] exI [of _ s1]) (simp add: c_def)
  next
    case True
    let ?j = "K div 1024"
    let ?qs = "?ps[?j := 0]"
    obtain s2 where s2: "free_block E (?ps ! ?j) s1 = Inr s2" "freed E s1 s2 {unat (?ps ! ?j)}"
      using free_block_freed [of s1 "?ps ! ?j"] s1(2) pb by (auto simp: freed_def)
    have j: "?j < 1000" using cn count_pointers_bound [of nd] by simp
    have "deleteLastDataBlock E nd s = Inr (nd\<lparr>indirect_pointer_block := ?qs, file_size := z'\<rparr>, s2)"
      using ne(2) gb s1(1) s2(1) md True j
      by (simp add: deleteLastDataBlock_def z'_def dv pointer_at_def set_pointer_def)
    moreover have "freed E s s2 (insert (blk s nd K) ((\<lambda>i. unat (?ps ! i)) ` {c..<count_pointers nd}))"
      using freed_trans [OF s1(2) s2(2)] True cn by (simp add: c_def insert_commute atLeastLessThanSuc)
    ultimately show ?thesis
      using True uz len drop_pointer [OF nok z cn]
      by (intro exI [of _ ?qs] exI [of _ z'] exI [of _ s2]) (simp add: c_def)
  qed
qed

lemma delete_last_spec:
  assumes k: "kept E s nd bs" and sn: "snug nd" and ne: "bs \<noteq> []"
  shows "\<exists>nd' s'. deleteLastDataBlock E nd s = Inr (nd', s') \<and>
    kept E s' nd' (take ((length bs div 4096 - 1) * 4096) bs) \<and> snug nd' \<and> shed E s nd s' nd'"
proof -
  let ?K = "length bs div 4096" and ?bs = "take ((length bs div 4096 - 1) * 4096) bs"
  have d: "disk_ok s" and E4: "sizeof_ptr E = 4" and nok: "node_ok nd"
    and Fok: "file_ok s nd bs" and Bok: "\<forall>b \<in> file_blocks s nd. 34 \<le> b \<and> b < 3000"
    using k by (simp_all add: kept_def)
  have c0: "count_pointers nd \<noteq> 0" using Fok ne by (auto simp: file_ok_def split: if_splits)
  have len: "length bs = unat (file_size nd)" and so: "slots_ok s nd (Suc ?K)" and cont: "contents s nd bs"
    using Fok c0 by (simp_all add: file_ok_def file_slots_def)
  have sz: "file_size nd \<noteq> 0" using len ne by auto
  define c where "c = (if ?K mod 1024 = 0 then ?K div 1024 else Suc (?K div 1024))"
  have cn: "count_pointers nd = Suc (?K div 1024)" using sn c0 len by (simp add: snug_def)
  have fb: "file_blocks s nd = slot_blocks s nd (Suc ?K)"
    using c0 len by (simp add: file_blocks_def file_slots_def)
  obtain ps z s' where ev: "deleteLastDataBlock E nd s = Inr (nd\<lparr>indirect_pointer_block := ps, file_size := z\<rparr>, s')"
    and z: "unat z = (?K - 1) * 4096" and ps: "length ps = 1000" "\<forall>i < c. ps ! i = indirect_pointer_block nd ! i"
    and cp: "count_pointers (nd\<lparr>indirect_pointer_block := ps\<rparr>) = c"
    and zt: "zero_tail (nd\<lparr>indirect_pointer_block := ps\<rparr>)"
    and fr: "freed E s s' (insert (blk s nd ?K) ((\<lambda>i. unat (indirect_pointer_block nd ! i)) ` {c..<count_pointers nd}))"
    using delete_last_eval [OF k sn c0 sz] unfolding len [symmetric] c_def [symmetric] by blast
  let ?nd = "nd\<lparr>indirect_pointer_block := ps, file_size := z\<rparr>"
  have cp': "count_pointers ?nd = c" using cp by (simp add: count_pointers_def)
  have zt': "zero_tail ?nd" using zt cp cp' by (simp add: zero_tail_def)
  have nok': "node_ok ?nd" using nok ps(1) by (simp add: node_ok_def)
  have fields: "?nd\<lparr>indirect_pointer_block := indirect_pointer_block nd, file_size := file_size nd\<rparr> = nd" by simp
  have dk: "disk s' = disk s" and bm': "bitmap_ok s'" using fr by (simp_all add: freed_def)
  have d': "disk_ok s'" using d dk by (simp add: disk_ok_def)
  have lk: "k div 1024 < c" if "k < ?K" for k
    using that div_le_mono [of k "?K - 1" 1024] by (auto simp: c_def div_Suc [of "?K - 1"] less_Suc_eq_le)
  have cle: "c \<le> count_pointers nd" by (simp add: c_def cn)
  have "\<forall>i < c. indirect_pointer_block ?nd ! i = indirect_pointer_block nd ! i" using ps(2) by simp
  note fs = fewer_slots [OF so cp' cle this]
  have fbs: "file_blocks s ?nd = slot_blocks s ?nd ?K \<and> snug ?nd \<and> file_ok s ?nd ?bs"
  proof (cases "?K = 0")
    case True
    then have "c = 0" by (simp add: c_def)
    then show ?thesis using cp' zt' z True
      by (simp add: file_blocks_def slot_blocks_def snug_def file_ok_def)
  next
    case False
    have c: "c = Suc ((?K - 1) div 1024)" using False div_Suc [of "?K - 1" 1024] by (simp add: c_def)
    have zd: "unat z div 4096 = ?K - 1" unfolding z by simp
    have fsl: "file_slots ?nd = ?K" using zd False by (simp add: file_slots_def)
    have "unat z \<le> length bs" using div_times_less_eq_dividend [of "length bs" 4096] z by (simp add: diff_mult_distrib)
    moreover have "contents s ?nd ?bs"
      using cont fs(1) lk by (auto simp: contents_def less_mult_imp_div_less)
    moreover have "pointers_fit ?nd (unat z div 4096)" unfolding pointers_fit_def cp' zd c by simp
    ultimately show ?thesis
      using cp' c zt' fs(2) lk fsl zd z by (simp add: file_blocks_def snug_def file_ok_def)
  qed
  have sub: "file_blocks s ?nd \<subseteq> file_blocks s nd" using fs(3) lk unfolding fb fbs [THEN conjunct1] by simp
  have "kept E s' ?nd ?bs"
    unfolding kept_def repr_disk [OF dk] using E4 bm' d' nok' fbs sub Bok by blast
  moreover have "shed E s nd s' ?nd"
    unfolding shed_def repr_disk [OF dk]
  proof (intro conjI exI)
    show "insert (blk s nd ?K) ((\<lambda>i. unat (indirect_pointer_block nd ! i)) ` {c..<count_pointers nd}) \<subseteq>
        file_blocks s nd - file_blocks s ?nd"
      using fs(4) lk unfolding fb fbs [THEN conjunct1] by simp
  qed (rule fr sub fields)+
  ultimately show ?thesis using ev fbs by blast
qed

end

section \<open>The loop\<close>

text \<open>
  The length that a file of \<open>len\<close> bytes has after the loop for the length \<open>l\<close>: when a block or more is
  to be cut, and \<open>l\<close> is not below the start of the block before the last, the loop stops there,
  short of \<open>l\<close>.
\<close>

definition shrunk :: "nat \<Rightarrow> nat \<Rightarrow> nat" where
  "shrunk len l =
     (if len \<le> l then len
      else if 4096 \<le> len - l \<and> (len div 4096 - 1) * 4096 \<le> l then (len div 4096 - 1) * 4096
      else l)"

lemma shrunk_le: "shrunk len l \<le> len" and shrunk_same: "shrunk len len = len"
  and shrunk_zero: "shrunk len 0 = 0" and shrunk_upto: "l \<le> len \<Longrightarrow> shrunk len l \<le> l"
  by (auto simp: shrunk_def)

lemma shrunk_near: "l \<le> len \<Longrightarrow> len < l + 4096 \<Longrightarrow> shrunk len l = l"
  by (auto simp: shrunk_def)

lemma shrunk_aligned: "l \<le> len \<Longrightarrow> 4096 dvd len \<Longrightarrow> shrunk len l = l"
  by (auto simp: shrunk_def elim!: dvdE)

lemma shrunk_step:
  assumes "l < len" and "4096 \<le> len - l \<or> l = 0"
  shows "shrunk ((len div 4096 - 1) * 4096) l = shrunk len l"
proof -
  define q where "q = len div 4096 - 1"
  have "shrunk (q * 4096) l = (if q * 4096 \<le> l then q * 4096 else l)"
    using shrunk_aligned [of l "q * 4096"] by (auto simp: shrunk_def)
  moreover have "shrunk len l = (if q * 4096 \<le> l then q * 4096 else l)"
    using assms unfolding shrunk_def q_def [symmetric] by auto
  ultimately show ?thesis by (simp only: q_def)
qed

context bitarray_lib
begin

lemma cut_inside_block:
  assumes k: "kept E s nd bs" and sn: "snug nd" and l: "0 < l" "l < length bs" "length bs < l + 4096"
    and z: "unat z = l"
  shows "kept E s (nd\<lparr>file_size := z\<rparr>) (take l bs)" and "shed E s nd s (nd\<lparr>file_size := z\<rparr>)"
proof -
  let ?nd = "nd\<lparr>file_size := z\<rparr>"
  have Fok: "file_ok s nd bs" and Bok: "\<forall>b \<in> file_blocks s nd. 34 \<le> b \<and> b < 3000" and bm: "bitmap_ok s"
    using k by (simp_all add: kept_def)
  have c0: "count_pointers nd \<noteq> 0" using Fok l by (auto simp: file_ok_def split: if_splits)
  have len: "length bs = unat (file_size nd)" and so: "slots_ok s nd (file_slots nd)" and cont: "contents s nd bs"
    and zt: "zero_tail nd" and cn: "count_pointers nd = Suc (length bs div 4096 div 1024)"
    using Fok c0 sn by (simp_all add: file_ok_def snug_def)
  have M: "file_slots ?nd \<le> file_slots nd" using l(2) z len by (simp add: file_slots_def div_le_mono)
  have so': "slots_ok s ?nd (file_slots ?nd)"
    using so M by (auto simp: slots_ok_def data_block_num_def inj_on_def)
  have fb: "file_blocks s ?nd = slot_blocks s nd (file_slots ?nd)"
    using c0 by (simp add: file_blocks_def slot_blocks_def data_block_num_def)
  have sub: "file_blocks s ?nd \<subseteq> file_blocks s nd"
    using c0 slot_blocks_mono [OF M] unfolding fb by (simp add: file_blocks_def)
  have "length bs div 4096 = l div 4096 \<or> length bs div 4096 = Suc (l div 4096)"
    using l div_le_mono [of l "length bs" 4096] div_le_mono [of "length bs" "l + 4096" 4096] by auto
  then have "pointers_fit ?nd (l div 4096)" using cn by (auto simp: pointers_fit_def)
  moreover have "contents s ?nd (take l bs)" using cont by (simp add: contents_def data_block_num_def)
  moreover have "zero_tail ?nd" using zt by (simp add: zero_tail_def)
  ultimately have "file_ok s ?nd (take l bs)" using so' c0 l z by (simp add: file_ok_def)
  then show "kept E s ?nd (take l bs)" using k sub by (simp add: kept_def node_ok_def subset_eq)
  show "shed E s nd s ?nd" using freed_refl [OF bm, of E] sub by (auto simp: shed_def)
qed

lemma shrink_loop_spec:
  assumes "kept E s nd bs" and "snug nd" and "length bs < 2 ^ 31"
  shows "\<exists>nd' s'. shrink_loop E l nd s = Inr (nd', s') \<and> kept E s' nd' (take (shrunk (length bs) l) bs) \<and>
    shed E s nd s' nd'"
  using assms
proof (induction "length bs" arbitrary: s nd bs rule: less_induct)
  case less
  note k = less.prems(1)
  have len: "length bs = unat (file_size nd)" and bm: "bitmap_ok s" using k by (simp_all add: kept_def file_ok_def)
  have u: "uint (file_size nd) = int (length bs)" unfolding len by (rule uint_nat)
  then have sz: "sint (file_size nd) = int (length bs)" using less.prems(3) by (simp add: sint_cases)
  consider (stop) "length bs \<le> l" | (block) "l < length bs" "4096 \<le> length bs - l \<or> l = 0"
    | (tail) "l < length bs" "0 < l" "length bs < l + 4096" by linarith
  then show ?case
  proof cases
    case stop
    then have "shrink_loop E l nd s = Inr (nd, s)" by (subst shrink_loop.simps) (simp add: sz)
    then show ?thesis using stop k shed_refl [OF bm] by (simp add: shrunk_def)
  next
    case block
    let ?bs = "take ((length bs div 4096 - 1) * 4096) bs"
    have sh: "(length bs div 4096 - 1) * 4096 < length bs"
      using block div_times_less_eq_dividend [of "length bs" 4096] by (cases "length bs div 4096") auto
    have ne: "bs \<noteq> []" using block by auto
    obtain nd1 s1 where d: "deleteLastDataBlock E nd s = Inr (nd1, s1)" "kept E s1 nd1 ?bs" "snug nd1" "shed E s nd s1 nd1"
      using delete_last_spec [OF k less.prems(2) ne] by blast
    have L: "length ?bs = (length bs div 4096 - 1) * 4096" using sh by simp
    have b: "length ?bs < length bs" "length ?bs < 2 ^ 31" using sh less.prems(3) unfolding L by linarith+
    obtain nd2 s2 where r: "shrink_loop E l nd1 s1 = Inr (nd2, s2)"
        "kept E s2 nd2 (take (shrunk (length bs) l) ?bs)" "shed E s1 nd1 s2 nd2"
      using less.hyps [OF b(1) d(2,3) b(2)] unfolding L shrunk_step [OF block] by blast
    have "shrunk (length bs) l \<le> (length bs div 4096 - 1) * 4096"
      using shrunk_le [of "(length bs div 4096 - 1) * 4096" l] shrunk_step [OF block] by simp
    then have "kept E s2 nd2 (take (shrunk (length bs) l) bs)" using r(2) by (simp add: min_absorb1)
    moreover have "shrink_loop E l nd s = Inr (nd2, s2)"
      using block d(1) r(1) by (subst shrink_loop.simps) (auto simp: Let_def sz const_simps)
    ultimately show ?thesis using shed_trans [OF d(4) r(3)] by blast
  next
    case tail
    define c where "c = int (length bs) - int l"
    let ?z = "file_size nd - word_of_int c"
    have c: "0 < c" "c < 4294967296" using tail less.prems(3) by (simp_all add: c_def)
    then have "uint (word_of_int c :: u32) = c" by (simp add: uint_word_of_int)
    then have uz: "uint ?z = int l" using u tail by (simp add: uint_sub_if' c_def)
    then have "unat ?z = l" by (metis nat_int unat_eq_nat_uint)
    note cut = cut_inside_block [OF k less.prems(2) tail(2,1,3) this]
    have sz': "sint ?z = int l" using uz tail less.prems(3) by (simp add: sint_cases)
    have "shrink_loop E l nd s = shrink_loop E l (nd\<lparr>file_size := ?z\<rparr>) s"
      using tail by (subst shrink_loop.simps) (auto simp: Let_def sz const_simps c_def)
    also have "\<dots> = Inr (nd\<lparr>file_size := ?z\<rparr>, s)" by (subst shrink_loop.simps) (simp add: sz')
    finally show ?thesis using cut shrunk_near [of l "length bs"] tail by auto
  qed
qed

end

section \<open>Truncating\<close>

lemma store_kept:
  assumes "store_ok E s A Q" and "sizeof_ptr E = 4" and "A n = Some (File p bs)" and "named nd"
    and "inode_ok s nd (File p bs) (Q n)"
  shows "kept E s nd bs" and "Q n = file_blocks s nd"
  using assms store_okD(1,2,3) [OF assms(1)] by (auto simp: kept_def named_def)

text \<open>Only a file whose last data block is the last of a full pointer block can have a spare pointer block.\<close>

definition no_spare :: "bytes \<Rightarrow> bool" where
  "no_spare bs \<longleftrightarrow> length bs div 4096 mod 1024 \<noteq> 1023"

lemma kept_snug:
  assumes "kept E s nd bs" and "no_spare bs"
  shows "snug nd"
proof (cases "count_pointers nd = 0")
  case False
  then have "pointers_fit nd (length bs div 4096)" and "length bs = unat (file_size nd)"
    using assms(1) by (simp_all add: kept_def file_ok_def)
  then show ?thesis using assms(2)
    by (auto simp: snug_def pointers_fit_def no_spare_def div_Suc mod_Suc split: if_splits)
qed (simp add: snug_def)

context bitarray_lib
begin

lemma store_ok_shed:
  assumes st: "store_ok E s A Q" and A: "A n = Some (File p bs)" and nd: "named nd" "inode_ok s nd (File p bs) (Q n)"
    and sh: "shed E s nd s' nd'" and k: "kept E s' nd' bs'"
  shows "store_ok E (unmap_and_destroy_node nd' (2 + n) s') (A(n \<mapsto> File p bs')) (Q(n := file_blocks s nd'))"
    and "file_blocks s nd' \<subseteq> Q n" and "free_data E s \<subseteq> free_data E s'"
    and "\<forall>k < 34. used E s' k = used E s k"
proof -
  let ?R = "file_blocks s nd'"
  note sD = store_okD [OF st] and nD = store_nodeD [OF st A]
  obtain B where B: "B \<subseteq> file_blocks s nd - file_blocks s' nd'" "freed E s s' B" and sub: "file_blocks s' nd' \<subseteq> file_blocks s nd"
    and rec: "nd'\<lparr>indirect_pointer_block := indirect_pointer_block nd, file_size := file_size nd\<rparr> = nd"
    using sh unfolding shed_def by blast
  have dk: "disk s' = disk s" and tk: "tick s' = tick s" and bm: "bitmap_ok s'" using B(2) by (simp_all add: freed_def)
  note rp = repr_disk [OF dk]
  have Q: "Q n = file_blocks s nd" using nd(2) by simp
  show RQ: "?R \<subseteq> Q n" using sub unfolding Q rp .
  have BQ: "B \<subseteq> Q n - ?R" using B(1) unfolding Q rp .
  have nok: "node_ok nd'" and fok: "file_ok s nd' bs'" using k by (simp_all add: kept_def rp)
  have fn: "file_name nd' = file_name nd" "state nd' = state nd" "parent_block nd' = parent_block nd"
    using arg_cong [OF rec, of file_name] arg_cong [OF rec, of state] arg_cong [OF rec, of parent_block] by simp_all
  have nm: "named nd'" using nd(1) nok fn by (simp add: named_def)
  have ino: "inode_ok s nd' (File p bs') ?R" using nd(2) fn fok by simp
  have "store_ok E (unmap_and_destroy_node nd' (2 + n) s) (A(n \<mapsto> File p bs')) (Q(n := ?R))"
    using RQ sD(3,4) by (intro store_ok_write [OF st nD(1,2) sD(1,2), where B = "{}"] nm ino) blast+
  moreover have "freed E (unmap_and_destroy_node nd' (2 + n) s) (unmap_and_destroy_node nd' (2 + n) s') B"
    using B(2) dk by (simp add: freed_def unmap_and_destroy_node_def put_node_def)
  ultimately show "store_ok E (unmap_and_destroy_node nd' (2 + n) s') (A(n \<mapsto> File p bs')) (Q(n := ?R))"
  proof (rule store_ok_freed)
    have "Q m \<inter> B = {}" if "m \<noteq> n" for m using sD(4) [OF that] BQ by blast
    moreover have "?R \<inter> B = {}" using BQ by blast
    ultimately show "\<forall>m. (Q(n := ?R)) m \<inter> B = {}" by simp
    have "m < 32" if "(A(n \<mapsto> File p bs')) m \<noteq> None" for m
      using that store_nodeD(1) [OF st] nD(1) by (auto split: if_splits)
    moreover have "\<forall>b \<in> B. 34 \<le> b" using BQ sD(3) by blast
    ultimately show "\<forall>m. (A(n \<mapsto> File p bs')) m \<noteq> None \<longrightarrow> 2 + m \<notin> B" by fastforce
  qed
  have B34: "B \<subseteq> {34..<3000}" using BQ sD(3) by fastforce
  then show "free_data E s \<subseteq> free_data E s'" using freed_free_data [OF B(2)] by blast
  show "\<forall>k < 34. used E s' k = used E s k" using B(2) B34 by (auto simp: freed_def)
qed

end

context commons_lib
begin

lemma truncate_shrinks:
  assumes st: "store_ok E s A Q" and ptr: "sizeof_ptr E = 4" and v: "is_valid_path E path"
    and w: "walk A (tokens slash path) 0 = Some n" and A: "A n = Some (File p bs)"
    and len: "length bs < 2 ^ 31" "l \<le> length bs" and sp: "no_spare bs"
  shows "\<exists>s' R. sac_truncate E path (int l) s = Inr (0, s') \<and>
    store_ok E s' (A(n \<mapsto> File p (take (shrunk (length bs) l) bs))) (Q(n := R)) \<and> R \<subseteq> Q n \<and>
    free_data E s \<subseteq> free_data E s' \<and> (\<forall>k < 34. used E s' k = used E s k)"
proof -
  obtain e s1 nd where o: "search_path E path s = Inr (e, s1)" "is_valid_entry e" "node_num e = of_nat n"
      "read_node E (of_nat n) s1 = Inr (nd, 2 + n, s1\<lparr>tick := Suc (tick s1)\<rparr>)" "named nd"
      "inode_ok s1 nd (File p bs) (Q n)" "store_ok E s1 A Q" "bitmap s1 = bitmap s"
    using open_path [OF st w A] by blast
  let ?t = "s1\<lparr>tick := Suc (tick s1)\<rparr>"
  have stt: "store_ok E ?t A Q" and inot: "inode_ok ?t nd (File p bs) (Q n)" using o(6,7) by simp_all
  note k = store_kept(1) [OF stt ptr A o(5) inot]
  obtain nd' s2 where r: "shrink_loop E l nd ?t = Inr (nd', s2)"
      "kept E s2 nd' (take (shrunk (length bs) l) bs)" "shed E ?t nd s2 nd'"
    using shrink_loop_spec [OF k kept_snug [OF k sp] len(1)] by blast
  have "length bs = unat (file_size nd)" and s1: "state nd = 1" using o(6) by (simp_all add: file_ok_def)
  then have "uint (file_size nd) = int (length bs)" by (metis uint_nat)
  then have sz: "sint (file_size nd) = int (length bs)" using len(1) by (simp add: sint_cases)
  have "sac_truncate E path (int l) s = Inr (0, unmap_and_destroy_node nd' (2 + n) s2)"
    using v o(1-4) r(1) len(2) s1 by (simp add: sac_truncate_def sz)
  moreover note store_ok_shed [OF stt A o(5) inot r(3,2)]
  moreover have "free_data E ?t = free_data E s" and "used E ?t = used E s"
    using o(8) by (simp_all add: free_data_def used_def fun_eq_iff)
  ultimately show ?thesis by auto
qed

lemma truncate_grows:
  assumes st: "store_ok E s A Q" and ptr: "sizeof_ptr E = 4" and path: "folder_ok pre" "component_ok nm"
    and w: "walk A (tokens slash pre) 0 = Some m" and D: "A m = Some (Dir q es)"
    and k: "map_of es nm = Some k" and A: "A (unat k) = Some (File p bs)"
    and len: "length bs < l" "l < 2 ^ 31"
    and free: "write_need (length bs) (l - length bs) \<le> card (free_data E s)"
  shows "\<exists>s' R. sac_truncate E (child_path pre nm) (int l) s = Inr (0, s') \<and>
    store_ok E s' (A(unat k \<mapsto> File p (bs @ replicate (l - length bs) 65))) (Q(unat k := R)) \<and>
    (\<forall>k < 34. used E s' k = used E s k) \<and>
    card (free_data E s) \<le> card (free_data E s') + write_need (length bs) (l - length bs)"
proof -
  note w' = walk_child [OF path(2) w D k]
  note v = valid_child_path [OF path(2,1)]
  obtain e s1 nd where o: "search_path E (child_path pre nm) s = Inr (e, s1)" "is_valid_entry e"
      "node_num e = of_nat (unat k)"
      "read_node E (of_nat (unat k)) s1 = Inr (nd, 2 + unat k, s1\<lparr>tick := Suc (tick s1)\<rparr>)" "named nd"
      "inode_ok s1 nd (File p bs) (Q (unat k))" "store_ok E s1 A Q" "bitmap s1 = bitmap s"
    using open_path [OF st w' A] by blast
  let ?t = "s1\<lparr>tick := Suc (tick s1)\<rparr>" and ?n = "l - length bs"
  have stt: "store_ok E ?t A Q" using o(7) by simp
  have kk: "k = of_nat (unat k)" by simp
  have "unat k < 32" using store_nodeD(1) [OF st A] .
  then have sk: "sint k = int (unat k)" using sint_small [of "unat k"] by simp
  have lb: "length bs = unat (file_size nd)" and sd: "state nd = 1" using o(6) by (simp_all add: file_ok_def)
  then have "uint (file_size nd) = int (length bs)" by (metis uint_nat)
  then have sz: "sint (file_size nd) = int (length bs)" using len by (simp add: sint_cases)
  obtain s2 where s2: "sac_open E (child_path pre nm) 0 ?t = Inr (int (unat k), s2)" "store_ok E s2 A Q"
      "bitmap s2 = bitmap ?t"
    using open_existing [OF stt path w D k, of 0] unfolding sk by blast
  have u: "used E s2 = used E s" "free_data E s2 = free_data E s"
    using s2(3) o(8) by (simp_all add: free_data_def used_def fun_eq_iff)
  obtain R s3 where s3: "sac_write E (int (unat k)) (replicate ?n 65) ?n (int (length bs)) s2 = Inr (int ?n, s3)"
      "store_ok E s3 (A(unat k \<mapsto> File p (memput bs (length bs) (take ?n (replicate ?n 65))))) (Q(unat k := R))"
      "\<forall>k < 34. used E s3 k = used E s2 k"
      "card (free_data E s2) \<le> card (free_data E s3) + write_need (length bs) ?n"
    using write_file [OF s2(2) ptr A, of "length bs" ?n "replicate ?n 65"] len free unfolding u by auto
  have m: "memput bs (length bs) (take ?n (replicate ?n 65)) = bs @ replicate ?n 65" by (simp add: memput_def)
  have n: "nat (int l - int (length bs)) = ?n" by simp
  have "sac_truncate E (child_path pre nm) (int l) s = Inr (0, s3)"
    using v o(1-4) s2(1) s3(1) len sd by (simp add: sac_truncate_def sz n)
  then show ?thesis using s3(2-4) unfolding m u by blast
qed

lemma truncate_missing:
  assumes st: "store_ok E s A Q" and v: "is_valid_path E path"
    and w: "walks_dirs A (tokens slash path) 0" "walk A (tokens slash path) 0 = None"
  shows "\<exists>s'. sac_truncate E path l s = Inr (- 1, s') \<and> store_ok E s' A Q"
  using search_missing [OF st w] v by (auto simp: sac_truncate_def)

lemma truncate_directory:
  assumes st: "store_ok E s A Q" and v: "is_valid_path E path"
    and w: "walk A (tokens slash path) 0 = Some n" and A: "A n = Some (Dir p es)"
  shows "\<exists>s'. sac_truncate E path l s = Inr (- 1, s') \<and> store_ok E s' A Q"
proof -
  obtain e s1 nd where o: "search_path E path s = Inr (e, s1)" "is_valid_entry e" "node_num e = of_nat n"
      "read_node E (of_nat n) s1 = Inr (nd, 2 + n, s1\<lparr>tick := Suc (tick s1)\<rparr>)" "named nd"
      "nview nd = nview (node_at s1 n)" "inode_ok s1 nd (Dir p es) (Q n)" "store_ok E s1 A Q"
    using open_path [OF st w A] by blast
  have "state nd \<noteq> 1" using o(7) by simp
  then have "sac_truncate E path l s = Inr (- 1, unmap_and_destroy_node nd (2 + n) (s1\<lparr>tick := Suc (tick s1)\<rparr>))"
    using v o(1-4) by (simp add: sac_truncate_def)
  then show ?thesis using close_node [OF o(8) A o(5,6)] by blast
qed

end

end
