(* ===== verification/Tree.thy ===== *)
theory Tree
  imports Rename_Spec Trunc_Spec
begin

text \<open>
  The shape of the abstract file system: what makes it a tree, and that adding a leaf, taking
  one away and replacing the contents of a file keep it so.
\<close>

section \<open>Trees\<close>

definition entry_in :: "afs \<Rightarrow> nat \<Rightarrow> cstr \<Rightarrow> nat \<Rightarrow> bool" where
  "entry_in A n nm m \<longleftrightarrow> (\<exists>p es w. A n = Some (Dir p es) \<and> (nm, w) \<in> set es \<and> unat w = m)"

text \<open>
  The root is a directory; the nodes fit in the table; in a directory no name and no node is
  listed twice; an entry leads to a node whose parent is that directory; every node is found by
  a walk from the root.
\<close>

definition tree_ok :: "afs \<Rightarrow> bool" where
  "tree_ok A \<longleftrightarrow>
     (\<exists>p es. A 0 = Some (Dir p es)) \<and> (\<forall>n. A n \<noteq> None \<longrightarrow> n < 32) \<and>
     (\<forall>n p es. A n = Some (Dir p es) \<longrightarrow> distinct (map fst es) \<and> distinct (map snd es)) \<and>
     (\<forall>n nm m. entry_in A n nm m \<longrightarrow> m \<noteq> 0 \<and> (\<exists>i. A m = Some i \<and> par i = of_nat (2 + n))) \<and>
     (\<forall>m. A m \<noteq> None \<longrightarrow> (\<exists>ps. walk A ps 0 = Some m))"

lemma tree_okD:
  assumes "tree_ok A"
  shows "\<exists>p es. A 0 = Some (Dir p es)" and "A n \<noteq> None \<Longrightarrow> n < 32"
    and "A n = Some (Dir p es) \<Longrightarrow> distinct (map fst es) \<and> distinct (map snd es)"
    and "entry_in A n nm m \<Longrightarrow> m \<noteq> 0 \<and> (\<exists>i. A m = Some i \<and> par i = of_nat (2 + n))"
    and "A m \<noteq> None \<Longrightarrow> \<exists>ps. walk A ps 0 = Some m"
  using assms unfolding tree_ok_def by blast+

lemma parent_inj: "a < 32 \<Longrightarrow> b < 32 \<Longrightarrow> (of_nat (2 + a) :: u32) = of_nat (2 + b) \<Longrightarrow> a = b"
  by (simp add: word_unat_eq_iff unat_of_nat_small del: of_nat_add)

lemma entry_child:
  assumes "tree_ok A" and "A m = Some (Dir p es)" and "map_of es nm = Some k"
  shows "unat k \<noteq> 0 \<and> (\<exists>i. A (unat k) = Some i \<and> par i = of_nat (2 + m))"
proof (rule tree_okD(4) [OF assms(1)])
  show "entry_in A m nm (unat k)" using assms(2,3) by (auto simp: entry_in_def dest: map_of_SomeD)
qed

text \<open>A node has one entry.\<close>

lemma entry_unique:
  assumes tr: "tree_ok A" and a: "entry_in A a x k" and b: "entry_in A b y k"
  shows "a = b \<and> x = y"
proof -
  obtain i where "A k = Some i" "par i = of_nat (2 + a)" using tree_okD(4) [OF tr a] by blast
  moreover obtain j where "A k = Some j" "par j = of_nat (2 + b)" using tree_okD(4) [OF tr b] by blast
  ultimately have "(of_nat (2 + a) :: u32) = of_nat (2 + b)" by simp
  moreover have "a < 32" "b < 32" using a b tree_okD(2) [OF tr] by (auto simp: entry_in_def)
  ultimately have ab: "a = b" using parent_inj by blast
  obtain p es v w where es: "A a = Some (Dir p es)" "(x, v) \<in> set es" "(y, w) \<in> set es" "unat v = unat w"
    using a b unfolding entry_in_def ab by fastforce
  then have "v = w" by (simp add: word_unat_eq_iff)
  moreover have "inj_on snd (set es)" using tree_okD(3) [OF tr es(1)] by (simp add: distinct_map)
  ultimately have "x = y" using inj_onD [of snd "set es" "(x, v)" "(y, w)"] es(2,3) by simp
  with ab show ?thesis by simp
qed

fun leaf :: "inode \<Rightarrow> bool" where
  "leaf (Dir p es) = (es = [])"
| "leaf (File p bs) = True"

lemma walk_leaf: "A k = Some i \<Longrightarrow> leaf i \<Longrightarrow> walk A ps k = Some j \<Longrightarrow> ps = [] \<and> j = k"
  by (cases ps; cases i) (auto split: option.splits)

section \<open>Adding a leaf\<close>

definition add_leaf :: "nat \<Rightarrow> cstr \<Rightarrow> nat \<Rightarrow> inode \<Rightarrow> afs \<Rightarrow> afs" where
  "add_leaf m nm n i A =
     (case A m of Some (Dir p es) \<Rightarrow> A(n \<mapsto> i, m \<mapsto> Dir p (es @ [(nm, of_nat n)])) | _ \<Rightarrow> A)"

lemma map_of_snoc: "map_of (es @ [(x, v)]) y = (case map_of es y of None \<Rightarrow> if y = x then Some v else None | w \<Rightarrow> w)"
  by (auto simp: map_add_def split: option.splits)

lemma walk_add:
  assumes "A m = Some (Dir p es)" and "A n = None"
  shows "walk A ps a = Some j \<Longrightarrow> walk (A(n \<mapsto> i, m \<mapsto> Dir p (es @ [(nm, w)]))) ps a = Some j"
proof (induction ps arbitrary: a)
  case (Cons x ps)
  then obtain q fs v where s: "A a = Some (Dir q fs)" "map_of fs x = Some v" "walk A ps (unat v) = Some j"
    by (auto split: option.splits inode.splits)
  with assms Cons.IH [OF s(3)] show ?case by (auto simp: map_of_snoc)
qed simp

lemma tree_add_leaf:
  assumes tr: "tree_ok A" and A: "A m = Some (Dir p es)" and n: "A n = None" "n < 32"
    and nm: "nm \<notin> fst ` set es" and i: "leaf i" "par i = of_nat (2 + m)"
  shows "tree_ok (add_leaf m nm n i A)"
proof -
  let ?B = "A(n \<mapsto> i, m \<mapsto> Dir p (es @ [(nm, of_nat n)]))"
  have mn: "m \<noteq> n" using A n(1) by auto
  have n0: "n \<noteq> 0" using n(1) tree_okD(1) [OF tr] by (metis option.distinct(1))
  have u: "unat (of_nat n :: u32) = n" using n(2) by (intro unat_of_nat_small) simp
  have old: "w \<noteq> of_nat n" if "(x, w) \<in> set es" for x w
  proof
    assume "w = of_nat n"
    then have "entry_in A m x n" using that A u by (auto simp: entry_in_def)
    from tree_okD(4) [OF tr this] n(1) show False by simp
  qed
  have ent: "entry_in ?B a x b \<Longrightarrow> entry_in A a x b \<or> a = m \<and> b = n" for a x b
    using A i(1) u by (cases i) (auto simp: entry_in_def split: if_splits)
  have "tree_ok ?B"
    unfolding tree_ok_def
  proof (intro conjI allI impI)
    show "\<exists>p es. ?B 0 = Some (Dir p es)" using tree_okD(1) [OF tr] n0 by auto
    show "k < 32" if "?B k \<noteq> None" for k
      using that n(2) tree_okD(2) [OF tr] A by (auto split: if_splits)
    fix a q fs assume a: "?B a = Some (Dir q fs)"
    consider "a = m" | "a \<noteq> m" "a = n" | "a \<noteq> m" "a \<noteq> n" by blast
    then have "distinct (map fst fs) \<and> distinct (map snd fs)"
    proof cases
      case 1
      have "of_nat n \<notin> snd ` set es" using old by fastforce
      then show ?thesis using 1 a mn tree_okD(3) [OF tr A] nm by auto
    next
      case 2
      then show ?thesis using a i(1) by simp
    next
      case 3
      then show ?thesis using a tree_okD(3) [OF tr] by simp
    qed
    then show "distinct (map fst fs)" and "distinct (map snd fs)" by blast+
  next
    fix a x b assume e: "entry_in ?B a x b"
    then consider "entry_in A a x b" | "a = m" "b = n" using ent by blast
    then have "b \<noteq> 0 \<and> (\<exists>i. ?B b = Some i \<and> par i = of_nat (2 + a))"
    proof cases
      case 1
      from tree_okD(4) [OF tr this] show ?thesis using A n(1) mn by (auto split: if_splits)
    next
      case 2
      then show ?thesis using n0 mn i(2) by auto
    qed
    then show "b \<noteq> 0" and "\<exists>i. ?B b = Some i \<and> par i = of_nat (2 + a)" by blast+
  next
    fix k assume k: "?B k \<noteq> None"
    obtain ps where ps: "walk A ps 0 = Some m" using tree_okD(5) [OF tr] A by blast
    show "\<exists>ps. walk ?B ps 0 = Some k"
    proof (cases "k = n")
      case True
      have "walk ?B (ps @ [nm]) 0 = Some n"
        using walk_add [OF A n(1) ps] nm u
        by (simp add: walk_append map_of_snoc map_of_eq_None_iff [THEN iffD2] del: map_of_append)
      with True show ?thesis by blast
    next
      case False
      then have "A k \<noteq> None" using k A by (auto split: if_splits)
      then show ?thesis using tree_okD(5) [OF tr] walk_add [OF A n(1)] by blast
    qed
  qed
  then show ?thesis using A by (simp add: add_leaf_def)
qed

section \<open>Taking a leaf away\<close>

definition drop_leaf :: "nat \<Rightarrow> cstr \<Rightarrow> nat \<Rightarrow> afs \<Rightarrow> afs" where
  "drop_leaf m nm k A =
     (case A m of Some (Dir p es) \<Rightarrow> A(k := None, m \<mapsto> Dir p (del_entry nm es)) | _ \<Rightarrow> A)"

lemma del_entry_filter: "distinct (map fst es) \<Longrightarrow> del_entry nm es = filter (\<lambda>e. fst e \<noteq> nm) es"
  by (induction es) (auto intro!: filter_True [symmetric] simp: rev_image_eqI)

lemma map_of_del:
  assumes "distinct (map fst es)"
  shows "map_of (del_entry nm es) x = (if x = nm then None else map_of es x)"
  unfolding del_entry_filter [OF assms] by (induction es) auto

lemma leaf_not_parent:
  assumes "A m = Some (Dir p es)" and "map_of es nm = Some w" and "A (unat w) = Some i" and "leaf i"
  shows "m \<noteq> unat w"
  using assms by auto

lemma walk_drop:
  assumes tr: "tree_ok A" and A: "A m = Some (Dir p es)" and w: "map_of es nm = Some w"
    and i: "A (unat w) = Some i" "leaf i" and j: "j \<noteq> unat w"
  shows "a \<noteq> unat w \<Longrightarrow> walk A ps a = Some j \<Longrightarrow>
    walk (A(unat w := None, m \<mapsto> Dir p (del_entry nm es))) ps a = Some j"
proof (induction ps arbitrary: a)
  case (Cons x ps)
  then obtain q fs v where s: "A a = Some (Dir q fs)" "map_of fs x = Some v" "walk A ps (unat v) = Some j"
    by (auto split: option.splits inode.splits)
  have v: "unat v \<noteq> unat w"
  proof
    assume "unat v = unat w"
    then have "walk A ps (unat w) = Some j" using s(3) by simp
    from walk_leaf [of A "unat w", OF i this] j show False by simp
  qed
  note IH = Cons.IH [OF v s(3)]
  show ?case
  proof (cases "a = m")
    case True
    then have fs: "fs = es" and q: "q = p" using s(1) A by simp_all
    have "x \<noteq> nm" using s(2) w v fs by auto
    then show ?thesis
      using True IH s(2) fs map_of_del [of es nm x] tree_okD(3) [OF tr A] by simp
  next
    case False
    then show ?thesis using IH s Cons.prems(1) by simp
  qed
qed simp

lemma tree_drop_leaf:
  assumes tr: "tree_ok A" and A: "A m = Some (Dir p es)" and w: "map_of es nm = Some w"
    and i: "A (unat w) = Some i" "leaf i"
  shows "tree_ok (drop_leaf m nm (unat w) A)"
proof -
  let ?B = "A(unat w := None, m \<mapsto> Dir p (del_entry nm es))"
  note mw = leaf_not_parent [OF A w i]
  have w0: "unat w \<noteq> 0" using entry_child [OF tr A w] by blast
  have ds: "distinct (map fst es)" "distinct (map snd es)" using tree_okD(3) [OF tr A] by simp_all
  note del = del_entry_filter [OF ds(1), of nm]
  have e: "entry_in A m nm (unat w)" using A w by (auto simp: entry_in_def dest: map_of_SomeD)
  have ent: "entry_in ?B a x b \<Longrightarrow> entry_in A a x b \<and> \<not> (a = m \<and> x = nm)" for a x b
    using A mw del by (auto simp: entry_in_def split: if_splits)
  have "tree_ok ?B"
    unfolding tree_ok_def
  proof (intro conjI allI impI)
    show "\<exists>p es. ?B 0 = Some (Dir p es)" using tree_okD(1) [OF tr] w0 by auto
    show "k < 32" if "?B k \<noteq> None" for k
      using that tree_okD(2) [OF tr] A by (auto split: if_splits)
    show "distinct (map fst fs)" and "distinct (map snd fs)" if "?B a = Some (Dir q fs)" for a q fs
      using that ds tree_okD(3) [OF tr, of a] by (auto simp: del distinct_map_filter split: if_splits)
  next
    fix a x b assume "entry_in ?B a x b"
    from ent [OF this] have b: "entry_in A a x b" "\<not> (a = m \<and> x = nm)" by blast+
    have "b \<noteq> unat w" using entry_unique [OF tr b(1)] e b(2) by blast
    then show "b \<noteq> 0" and "\<exists>i. ?B b = Some i \<and> par i = of_nat (2 + a)"
      using tree_okD(4) [OF tr b(1)] A by (auto split: if_splits)
  next
    fix k assume k: "?B k \<noteq> None"
    then have "A k \<noteq> None" and "k \<noteq> unat w" using A mw by (auto split: if_splits)
    then show "\<exists>ps. walk ?B ps 0 = Some k"
      using tree_okD(5) [OF tr] walk_drop [OF tr A w i, of k 0] w0 by metis
  qed
  then show ?thesis using A by (simp add: drop_leaf_def)
qed

section \<open>Replacing the contents of a file\<close>

lemma walk_file:
  assumes "A n = Some (File p bs)"
  shows "walk (A(n \<mapsto> File q cs)) ps a = walk A ps a"
  using assms by (induction ps arbitrary: a) (auto split: option.splits inode.splits)

lemma tree_file:
  assumes tr: "tree_ok A" and A: "A n = Some (File p bs)"
  shows "tree_ok (A(n \<mapsto> File p cs))"
proof -
  have ent: "entry_in (A(n \<mapsto> File p cs)) a x b = entry_in A a x b" for a x b
    using A by (auto simp: entry_in_def)
  show ?thesis
    unfolding tree_ok_def ent walk_file [where A = A and n = n, OF A]
  proof (intro conjI allI impI)
    show "\<exists>q es. (A(n \<mapsto> File p cs)) 0 = Some (Dir q es)" using tree_okD(1) [OF tr] A by (cases "n = 0") auto
    show "\<exists>i. (A(n \<mapsto> File p cs)) b = Some i \<and> par i = of_nat (2 + a)" if "entry_in A a x b" for a x b
      using tree_okD(4) [OF tr that] A by (cases "b = n") auto
  qed (use tree_okD(2-5) [OF tr] A in \<open>auto split: if_splits\<close>)
qed

section \<open>Moving a subtree\<close>

text \<open>A node is not its own entry, and a directory has room while a node of the table is free.\<close>

lemma entry_not_self:
  assumes tr: "tree_ok A" and e: "entry_in A k nm k"
  shows False
proof -
  have k0: "k \<noteq> 0" and "A k \<noteq> None" using tree_okD(4) [OF tr e] by auto
  then have "\<exists>ps. walk A ps 0 = Some k" using tree_okD(5) [OF tr] by blast
  then obtain ps where ps: "walk A ps 0 = Some k" "\<And>qs. length qs < length ps \<Longrightarrow> walk A qs 0 \<noteq> Some k"
    using ex_has_least_nat [of "\<lambda>ps. walk A ps 0 = Some k" _ length] by (metis not_le)
  show False
  proof (cases ps rule: rev_cases)
    case Nil
    then show False using ps(1) k0 by simp
  next
    case (snoc qs x)
    then obtain a p es w where a: "walk A qs 0 = Some a" "A a = Some (Dir p es)" "map_of es x = Some w" "unat w = k"
      using ps(1) by (auto simp: walk_append split: option.splits inode.splits)
    then have "entry_in A a x k" by (auto simp: entry_in_def dest: map_of_SomeD)
    then have "a = k" using entry_unique [OF tr e] by blast
    then show False using ps(2) [of qs] a(1) snoc by simp
  qed
qed

lemma dir_nodes:
  assumes tr: "tree_ok A" and A: "A m = Some (Dir p es)"
  shows "length es = card (snd ` set es)" and "unat ` snd ` set es \<subseteq> {1..<32}"
proof -
  have "distinct (map snd es)" using tree_okD(3) [OF tr A] by simp
  from distinct_card [OF this] show "length es = card (snd ` set es)" by simp
  have "unat w \<noteq> 0 \<and> unat w < 32" if "(x, w) \<in> set es" for x w
  proof -
    have "entry_in A m x (unat w)" using A that by (auto simp: entry_in_def)
    from tree_okD(4) [OF tr this] show ?thesis using tree_okD(2) [OF tr] by auto
  qed
  then show "unat ` snd ` set es \<subseteq> {1..<32}" by (auto simp: Suc_le_eq)
qed

lemma nodes_bound:
  assumes tr: "tree_ok A" and A: "A m = Some (Dir p es)" and N: "unat ` snd ` set es \<subseteq> N" "finite N"
  shows "length es \<le> card N"
proof -
  have "inj_on unat (snd ` set es)" by (auto simp: inj_on_def word_unat_eq_iff)
  then have "length es = card (unat ` snd ` set es)" using dir_nodes(1) [OF tr A] by (simp add: card_image)
  then show ?thesis using card_mono [OF N(2,1)] by simp
qed

lemma dir_bound:
  assumes tr: "tree_ok A" and A: "A m = Some (Dir p es)"
  shows "length es \<le> 31"
  using nodes_bound [OF tr A dir_nodes(2) [OF tr A]] by simp

lemma dir_bound_free:
  assumes tr: "tree_ok A" and A: "A m = Some (Dir p es)" and n: "n < 32" "n \<noteq> 0" "n \<notin> unat ` snd ` set es"
  shows "length es < 31"
proof -
  have "unat ` snd ` set es \<subseteq> {1..<32} - {n}" using dir_nodes(2) [OF tr A] n(3) by blast
  from nodes_bound [OF tr A this] have "length es \<le> card ({1..<32} - {n})" by simp
  also have "\<dots> = 30" using n(1,2) by (simp add: card_Diff_singleton)
  finally show ?thesis by simp
qed

lemma free_node_room:
  assumes tr: "tree_ok A" and A: "A m = Some (Dir p es)" and n: "A n = None" "n < 32"
  shows "length es < 31"
proof (rule dir_bound_free [OF tr A n(2)])
  show "n \<noteq> 0" using n(1) tree_okD(1) [OF tr] by (metis option.distinct(1))
  show "n \<notin> unat ` snd ` set es"
  proof
    assume "n \<in> unat ` snd ` set es"
    then obtain x w where "(x, w) \<in> set es" "unat w = n" by auto
    then have "entry_in A m x n" using A by (auto simp: entry_in_def)
    then show False using tree_okD(4) [OF tr] n(1) by (metis option.distinct(1))
  qed
qed

text \<open>
  \<open>movable\<close>: the entry \<open>(nm, k)\<close> of directory \<open>m\<close> can go to directory \<open>m'\<close> as \<open>nm'\<close>: once it is
  gone that has the entries \<open>fs\<close>, none of that name, and it is not below the node that is moved.
\<close>

definition below :: "afs \<Rightarrow> nat \<Rightarrow> nat \<Rightarrow> bool" where
  "below A k j \<longleftrightarrow> (\<exists>ps. walk A ps k = Some j)"

lemma below_refl [simp]: "below A k k"
  unfolding below_def by (rule exI [of _ "[]"]) simp

definition movable :: "afs \<Rightarrow> nat \<Rightarrow> u32 \<Rightarrow> entries \<Rightarrow> cstr \<Rightarrow> u32 \<Rightarrow> nat \<Rightarrow> u32 \<Rightarrow> entries \<Rightarrow> cstr \<Rightarrow> bool" where
  "movable A m p es nm k m' p' fs nm' \<longleftrightarrow> tree_ok A \<and> A m = Some (Dir p es) \<and> map_of es nm = Some k \<and>
     delete_from nm m A m' = Some (Dir p' fs) \<and> nm' \<notin> fst ` set fs \<and> \<not> below A (unat k) m'"

lemma movableD:
  assumes "movable A m p es nm k m' p' fs nm'"
  shows "tree_ok A" and "A m = Some (Dir p es)" and "map_of es nm = Some k"
    and "delete_from nm m A m' = Some (Dir p' fs)" and "nm' \<notin> fst ` set fs" and "\<not> below A (unat k) m'"
    and "distinct (map fst es)" and "distinct (map snd es)"
    and "entry_in A m nm (unat k)" and "m \<noteq> unat k" and "m' \<noteq> unat k"
    and "m' = m \<Longrightarrow> p' = p \<and> fs = del_entry nm es" and "m' \<noteq> m \<Longrightarrow> A m' = Some (Dir p' fs)"
proof -
  show m: "tree_ok A" "A m = Some (Dir p es)" "map_of es nm = Some k" "delete_from nm m A m' = Some (Dir p' fs)"
      "nm' \<notin> fst ` set fs" "\<not> below A (unat k) m'"
    using assms by (simp_all add: movable_def)
  show "distinct (map fst es)" "distinct (map snd es)" using tree_okD(3) [OF m(1,2)] by simp_all
  show e: "entry_in A m nm (unat k)" using m(2,3) by (auto simp: entry_in_def dest: map_of_SomeD)
  show "m \<noteq> unat k" using entry_not_self [OF m(1), of m nm] e by auto
  show "m' \<noteq> unat k" using m(6) by auto
  show "m' = m \<Longrightarrow> p' = p \<and> fs = del_entry nm es" and "m' \<noteq> m \<Longrightarrow> A m' = Some (Dir p' fs)"
    using m(2,4) by (auto simp: delete_from_def)
qed

text \<open>What is at each node after the move.\<close>

lemma move_at:
  assumes mv: "movable A m p es nm k m' p' fs nm'"
  shows "move nm m nm' m' k A = (\<lambda>a. if a = unat k then map_option (with_par (of_nat (2 + m'))) (A a)
     else if a = m' then Some (Dir p' (fs @ [(nm', k)]))
     else if a = m then Some (Dir p (del_entry nm es)) else A a)"
proof -
  have D: "delete_from nm m A = A(m \<mapsto> Dir p (del_entry nm es))"
    using movableD(2) [OF mv] by (simp add: delete_from_def)
  with movableD(4) [OF mv] have "(A(m \<mapsto> Dir p (del_entry nm es))) m' = Some (Dir p' fs)" by simp
  then show ?thesis using movableD(10,11) [OF mv] by (intro ext) (simp add: move_def D add_to_def)
qed

lemma move_dom:
  assumes mv: "movable A m p es nm k m' p' fs nm'"
  shows "move nm m nm' m' k A a = None \<longleftrightarrow> A a = None"
  unfolding move_at [OF mv] using movableD(2,13) [OF mv] by auto

text \<open>A directory after the move: an old one, the one below the new parent, the target or the source.\<close>

lemma move_dir:
  assumes mv: "movable A m p es nm k m' p' fs nm'" and d: "move nm m nm' m' k A a = Some (Dir q gs)"
  obtains (target) "a = m'" and "gs = fs @ [(nm', k)]"
    | (source) "a = m" and "gs = del_entry nm es"
    | (other) r where "a \<noteq> m" and "A a = Some (Dir r gs)"
proof (cases "a = unat k")
  case True
  then have "map_option (with_par (of_nat (2 + m'))) (A a) = Some (Dir q gs)" using d move_at [OF mv] by simp
  then obtain i where "A a = Some i" "with_par (of_nat (2 + m')) i = Dir q gs" by blast
  then show ?thesis using other True movableD(10) [OF mv] by (cases i) auto
next
  case False
  then show ?thesis using d that unfolding move_at [OF mv] by (auto split: if_splits)
qed

lemma target_entry:
  assumes mv: "movable A m p es nm k m' p' fs nm'" and x: "(x, w) \<in> set fs"
  shows "entry_in A m' x (unat w) \<and> \<not> (m' = m \<and> x = nm)"
proof (cases "m' = m")
  case True
  then show ?thesis
    using x movableD(2,7,12) [OF mv] by (auto simp: del_entry_filter entry_in_def)
next
  case False
  then show ?thesis using x movableD(13) [OF mv] by (auto simp: entry_in_def)
qed

lemma target_names:
  assumes mv: "movable A m p es nm k m' p' fs nm'"
  shows "distinct (map fst fs)" and "distinct (map snd fs)" and "k \<notin> snd ` set fs"
proof -
  note m = movableD [OF mv]
  note del = del_entry_filter [OF m(7), of nm]
  show "distinct (map fst fs)" and "distinct (map snd fs)"
    using m(7,8,12,13) tree_okD(3) [OF m(1), of m'] by (cases "m' = m"; auto simp: del distinct_map_filter)+
  show "k \<notin> snd ` set fs"
  proof
    assume "k \<in> snd ` set fs"
    then obtain x where "(x, k) \<in> set fs" by auto
    from target_entry [OF mv this] show False using entry_unique [OF m(1) _ m(9)] by blast
  qed
qed

lemma entry_move:
  assumes mv: "movable A m p es nm k m' p' fs nm'" and e: "entry_in (move nm m nm' m' k A) a x b"
  shows "entry_in A a x b \<and> b \<noteq> unat k \<or> a = m' \<and> x = nm' \<and> b = unat k"
proof -
  note m = movableD [OF mv]
  note one = entry_unique [OF m(1) _ m(9)]
  obtain q gs w where d: "move nm m nm' m' k A a = Some (Dir q gs)" and w: "(x, w) \<in> set gs" "unat w = b"
    using e by (auto simp: entry_in_def)
  from mv d have "entry_in A a x b \<and> \<not> (a = m \<and> x = nm) \<or> a = m' \<and> x = nm' \<and> b = unat k"
  proof (cases rule: move_dir)
    case target
    then have "(x, w) \<in> set fs \<or> x = nm' \<and> b = unat k" using w by auto
    then show ?thesis
      using target(1) w(2) target_entry [OF mv, of x w] by auto
  next
    case source
    then show ?thesis using w m(2) del_entry_filter [OF m(7), of nm] by (auto simp: entry_in_def)
  next
    case (other r)
    then show ?thesis using w by (auto simp: entry_in_def)
  qed
  then show ?thesis using one by blast
qed

text \<open>A walk is kept, or there is a shorter one to the same node from the node that is moved.\<close>

lemma step_move:
  assumes mv: "movable A m p es nm k m' p' fs nm'"
    and a: "A a = Some (Dir q gs)" "map_of gs x = Some v" "\<not> (a = m \<and> x = nm)"
  shows "\<exists>q' gs'. move nm m nm' m' k A a = Some (Dir q' gs') \<and> map_of gs' x = Some v"
proof -
  note m = movableD [OF mv]
  have s: "map_of (del_entry nm es) x = Some v" if "a = m"
    using that a m(2) map_of_del [OF m(7)] by auto
  have t: "map_of (fs @ [(nm', k)]) x = Some v" if "a = m'"
    using that a s m(12,13) unfolding map_of_snoc by (cases "m' = m") auto
  show ?thesis
  proof (cases "a = unat k")
    case True
    then show ?thesis unfolding move_at [OF mv] using a(1,2) by simp
  next
    case False
    then show ?thesis unfolding move_at [OF mv] using a(1,2) s t by (simp del: map_of_append)
  qed
qed

lemma walk_move:
  assumes mv: "movable A m p es nm k m' p' fs nm'"
  shows "walk A ps a = Some j \<Longrightarrow> walk (move nm m nm' m' k A) ps a = Some j \<or>
    (\<exists>qs. length qs < length ps \<and> walk A qs (unat k) = Some j)"
proof (induction ps arbitrary: a)
  case (Cons x ps)
  then obtain q gs v where s: "A a = Some (Dir q gs)" "map_of gs x = Some v" "walk A ps (unat v) = Some j"
    by (auto split: option.splits inode.splits)
  show ?case
  proof (cases "a = m \<and> x = nm")
    case True
    then have "v = k" using s(1,2) movableD(2,3) [OF mv] by simp
    then show ?thesis using s(3) by (intro disjI2 exI [of _ ps]) simp
  next
    case False
    then show ?thesis using Cons.IH [OF s(3)] step_move [OF mv s(1,2)] by (fastforce intro: less_SucI)
  qed
qed simp

lemma reach_move:
  assumes mv: "movable A m p es nm k m' p' fs nm'" and j: "A j \<noteq> None"
  shows "\<exists>ps. walk (move nm m nm' m' k A) ps 0 = Some j"
proof -
  note m = movableD [OF mv]
  let ?B = "move nm m nm' m' k A"
  obtain ps where ps: "walk A ps 0 = Some j" using tree_okD(5) [OF m(1) j] by blast
  have "A m' \<noteq> None" using m(2,13) by auto
  then obtain rs where "walk A rs 0 = Some m'" using tree_okD(5) [OF m(1)] by blast
  from walk_move [OF mv this] have rs: "walk ?B rs 0 = Some m'" using m(6) by (auto simp: below_def)
  show ?thesis
  proof (cases "below A (unat k) j")
    case True
    then obtain qs where qs: "walk A qs (unat k) = Some j" "\<And>us. walk A us (unat k) = Some j \<Longrightarrow> length qs \<le> length us"
      unfolding below_def using ex_has_least_nat [of "\<lambda>qs. walk A qs (unat k) = Some j" _ length] by metis
    have "walk ?B qs (unat k) = Some j" using walk_move [OF mv qs(1)] qs(2) by (metis not_le)
    moreover have "?B m' = Some (Dir p' (fs @ [(nm', k)]))" unfolding move_at [OF mv] using m(11) by simp
    moreover have "map_of fs nm' = None" using m(5) by (simp add: map_of_eq_None_iff)
    ultimately have "walk ?B (rs @ nm' # qs) 0 = Some j"
      using rs by (simp add: walk_append map_of_snoc del: map_of_append)
    then show ?thesis by blast
  next
    case False
    then show ?thesis using walk_move [OF mv ps] by (auto simp: below_def)
  qed
qed

lemma tree_move:
  assumes mv: "movable A m p es nm k m' p' fs nm'"
  shows "tree_ok (move nm m nm' m' k A)"
  unfolding tree_ok_def
proof (intro conjI allI impI)
  note m = movableD [OF mv]
  let ?B = "move nm m nm' m' k A"
  have k0: "unat k \<noteq> 0" using entry_child [OF m(1-3)] by blast
  show "\<exists>p es. ?B 0 = Some (Dir p es)" unfolding move_at [OF mv] using k0 tree_okD(1) [OF m(1)] by auto
  show "n < 32" if "?B n \<noteq> None" for n using that tree_okD(2) [OF m(1)] by (simp add: move_dom [OF mv])
  have "distinct (map fst gs) \<and> distinct (map snd gs)" if d: "?B a = Some (Dir q gs)" for a q gs
    using mv d
  proof (cases rule: move_dir)
    case target
    then show ?thesis using target_names(1-3) [OF mv] m(5) by simp
  next
    case source
    then show ?thesis using m(7,8) by (simp add: del_entry_filter distinct_map_filter)
  next
    case (other r)
    then show ?thesis using tree_okD(3) [OF m(1)] by blast
  qed
  then show "distinct (map fst gs)" and "distinct (map snd gs)" if "?B a = Some (Dir q gs)" for a q gs
    using that by blast+
  have "b \<noteq> 0 \<and> (\<exists>i. ?B b = Some i \<and> par i = of_nat (2 + a))" if e: "entry_in ?B a x b" for a x b
    using entry_move [OF mv e]
  proof
    assume b: "entry_in A a x b \<and> b \<noteq> unat k"
    then obtain i where "b \<noteq> 0" "A b = Some i" "par i = of_nat (2 + a)" using tree_okD(4) [OF m(1)] by blast
    then show ?thesis unfolding move_at [OF mv] using b m(2,12,13) by (cases "m' = m") auto
  next
    assume b: "a = m' \<and> x = nm' \<and> b = unat k"
    obtain i where "A (unat k) = Some i" using entry_child [OF m(1-3)] by blast
    then show ?thesis unfolding move_at [OF mv] using b k0 by (cases i) auto
  qed
  then show "b \<noteq> 0" and "\<exists>i. ?B b = Some i \<and> par i = of_nat (2 + a)" if "entry_in ?B a x b" for a x b
    using that by blast+
  show "\<exists>ps. walk ?B ps 0 = Some j" if "?B j \<noteq> None" for j
    using that by (intro reach_move [OF mv]) (simp add: move_dom [OF mv])
qed

lemma moved_room:
  assumes mv: "movable A m p es nm k m' p' fs nm'"
  shows "length fs < 31"
proof (cases "m' = m")
  case True
  note m = movableD [OF mv]
  obtain i where i: "A (unat k) = Some i" using entry_child [OF m(1-3)] by blast
  have "length (del_entry nm es) < length es"
    using m(3,7) map_of_SomeD [OF m(3)] by (auto simp: del_entry_filter intro: length_filter_less)
  moreover have "length es \<le> 31" using dir_bound [OF m(1,2)] .
  ultimately show ?thesis using m(12) True by simp
next
  case False
  note m = movableD [OF mv]
  show ?thesis
  proof (rule dir_bound_free [OF m(1) m(13) [OF False]])
    show "unat k < 32" and "unat k \<noteq> 0" using entry_child [OF m(1-3)] tree_okD(2) [OF m(1)] by auto
    show "unat k \<notin> unat ` snd ` set fs" using target_names(3) [OF mv] unfolding image_iff word_unat_eq_iff by blast
  qed
qed

text \<open>A rename of a name that is not there leaves an entry for the root.\<close>

lemma moved_root_entry:
  assumes "store_ok E s A Q" and "A m = Some (Dir p es)" and "A m' = Some (Dir p' es')"
  shows "entry_in (move [] m nm' m' 0 A) m' nm' 0"
proof -
  have "add_to nm' 0 m' A = A(m' \<mapsto> Dir p' (es' @ [(nm', 0)]))" using assms(3) by (simp add: add_to_def)
  then show ?thesis
    unfolding entry_in_def move_def no_empty_name [OF assms(1,2)] by (auto simp: Let_def)
qed

end
