(* ===== verification/Refinement.thy ===== *)
theory Refinement
  imports Tree Format
begin

text \<open>
  The file system as a whole against its specification: commands, what each does to the abstract
  tree and what it returns, the states that a formatted disk reaches, and the simulation of the
  specification by the code.
\<close>

section \<open>Commands\<close>

datatype command =
    Mkdir cstr cstr
  | Create cstr cstr
  | Write nat nat bytes
  | Remove cstr cstr
  | Rmdir cstr cstr
  | Rename cstr cstr cstr cstr
  | Truncate cstr cstr nat

fun run :: "env \<Rightarrow> t_dir_entry list_ops \<Rightarrow> command \<Rightarrow> fs \<Rightarrow> (error + (int \<times> fs)) option" where
  "run E L (Mkdir pre nm) s = Some (sac_mkdir E (child_path pre nm) 0 s)"
| "run E L (Create pre nm) s = Some (sac_open E (child_path pre nm) 0 s)"
| "run E L (Write n off data) s = Some (sac_write E (int n) data (length data) (int off) s)"
| "run E L (Remove pre nm) s = Some (sac_remove E (child_path pre nm) s)"
| "run E L (Rmdir pre nm) s = sac_rmdir E L (child_path pre nm) s"
| "run E L (Rename pre nm pre' nm') s = Some (sac_rename E (child_path pre nm) (child_path pre' nm') s)"
| "run E L (Truncate pre nm l) s = Some (sac_truncate E (child_path pre nm) (int l) s)"

section \<open>Specification\<close>

definition dir_at :: "afs \<Rightarrow> cstr \<Rightarrow> (nat \<times> u32 \<times> entries) option" where
  "dir_at A pre =
     (case walk A (tokens slash pre) 0 of
        Some m \<Rightarrow> (case A m of Some (Dir p es) \<Rightarrow> Some (m, p, es) | _ \<Rightarrow> None)
      | None \<Rightarrow> None)"

lemma dir_atE:
  assumes "dir_at A pre = Some (m, p, es)"
  obtains "walk A (tokens slash pre) 0 = Some m" and "A m = Some (Dir p es)"
  using assms by (auto simp: dir_at_def split: option.splits inode.splits)

text \<open>The least node of the table that is free, 32 when there is none.\<close>

definition first_free :: "env \<Rightarrow> fs \<Rightarrow> nat" where
  "first_free E s = length (takeWhile (\<lambda>n. used E s (2 + n)) [0..<32])"

text \<open>
  What the code makes of a file cut or extended to \<open>l\<close> bytes: it adds the letter A, and may cut too much.
\<close>

definition truncated :: "nat \<Rightarrow> bytes \<Rightarrow> bytes" where
  "truncated l bs = (if length bs < l then bs @ replicate (l - length bs) 65 else take (shrunk (length bs) l) bs)"

text \<open>The result of a command and the tree that it leaves, from the tree before and the least free node.\<close>

fun effect :: "nat \<Rightarrow> command \<Rightarrow> afs \<Rightarrow> int \<times> afs" where
  "effect n (Mkdir pre nm) A =
     (case dir_at A pre of
        None \<Rightarrow> (- 1, A)
      | Some (m, p, es) \<Rightarrow>
          if nm \<in> fst ` set es then (- 1, A) else (0, add_leaf m nm n (Dir (of_nat (2 + m)) []) A))"
| "effect n (Create pre nm) A =
     (case dir_at A pre of
        None \<Rightarrow> (- 1, A)
      | Some (m, p, es) \<Rightarrow>
          (case map_of es nm of
             Some k \<Rightarrow> (int (unat k), A)
           | None \<Rightarrow> (int n, add_leaf m nm n (File (of_nat (2 + m)) []) A)))"
| "effect n (Write k off data) A =
     (case A k of
        Some (File p bs) \<Rightarrow> (int (length data), A(k \<mapsto> File p (memput (padded off bs) off data)))
      | _ \<Rightarrow> (- 1, A))"
| "effect n (Remove pre nm) A =
     (case dir_at A pre of
        None \<Rightarrow> (- 1, A)
      | Some (m, p, es) \<Rightarrow>
          (case map_of es nm of
             None \<Rightarrow> (- 1, A)
           | Some k \<Rightarrow>
               (case A (unat k) of
                  Some (File q bs) \<Rightarrow> (0, drop_leaf m nm (unat k) A)
                | _ \<Rightarrow> (- 1, A))))"
| "effect n (Rmdir pre nm) A =
     (case dir_at A pre of
        None \<Rightarrow> (- 1, A)
      | Some (m, p, es) \<Rightarrow>
          (case map_of es nm of
             None \<Rightarrow> (- 1, A)
           | Some k \<Rightarrow>
               (case A (unat k) of
                  Some (Dir q fs) \<Rightarrow> if fs = [] then (0, drop_leaf m nm (unat k) A) else (- 2, A)
                | _ \<Rightarrow> (- 1, A))))"
| "effect n (Rename pre nm pre' nm') A =
     (case (dir_at A pre, dir_at A pre') of
        (Some (m, p, es), Some (m', p', es')) \<Rightarrow>
          (case map_of es nm of
             None \<Rightarrow> (- 1, A)
           | Some k \<Rightarrow>
               (case A (unat k) of None \<Rightarrow> (- 1, A) | Some i \<Rightarrow> (0, move nm m nm' m' k A)))
      | _ \<Rightarrow> (- 1, A))"
| "effect n (Truncate pre nm l) A =
     (case dir_at A pre of
        None \<Rightarrow> (- 1, A)
      | Some (m, p, es) \<Rightarrow>
          (case map_of es nm of
             None \<Rightarrow> (- 1, A)
           | Some k \<Rightarrow>
               (case A (unat k) of
                  Some (File q bs) \<Rightarrow> (0, A(unat k \<mapsto> File q (truncated l bs)))
                | _ \<Rightarrow> (- 1, A))))"

text \<open>
  When a command is covered: its paths are made of good names and look for nothing inside a file,
  there is a node and the blocks for what it adds, what is renamed exists, does not go below itself
  and gets a name that is not taken, an entry that is taken out of a directory is its last one, a write
  starts inside the file or in its first block, and a file that is made shorter has no spare pointer block.
\<close>

definition lookable :: "afs \<Rightarrow> cstr \<Rightarrow> cstr \<Rightarrow> bool" where
  "lookable A pre nm \<longleftrightarrow>
     folder_ok pre \<and> component_ok nm \<and> walks_dirs A (tokens slash (child_path pre nm)) 0"

definition room_in :: "env \<Rightarrow> fs \<Rightarrow> entries \<Rightarrow> bool" where
  "room_in E s es \<longleftrightarrow> first_free E s < 32 \<and> (es = [] \<longrightarrow> 2 \<le> card (free_data E s))"

fun covered :: "env \<Rightarrow> fs \<Rightarrow> afs \<Rightarrow> command \<Rightarrow> bool" where
  "covered E s A (Mkdir pre nm) \<longleftrightarrow> lookable A pre nm \<and>
     (\<forall>m p es. dir_at A pre = Some (m, p, es) \<and> nm \<notin> fst ` set es \<longrightarrow> room_in E s es)"
| "covered E s A (Create pre nm) \<longleftrightarrow> lookable A pre nm \<and>
     (\<forall>m p es. dir_at A pre = Some (m, p, es) \<and> nm \<notin> fst ` set es \<longrightarrow> room_in E s es)"
| "covered E s A (Write n off data) \<longleftrightarrow>
     (\<exists>p bs. A n = Some (File p bs) \<and> fillable off (length bs) \<and> length bs < 2 ^ 31 \<and>
        off + length data < 2 ^ 31 \<and> write_need off (length data) \<le> card (free_data E s))"
| "covered E s A (Remove pre nm) \<longleftrightarrow> lookable A pre nm \<and>
     (\<forall>m p es k q bs. dir_at A pre = Some (m, p, es) \<and> map_of es nm = Some k \<and> A (unat k) = Some (File q bs) \<longrightarrow>
        is_last nm es)"
| "covered E s A (Rmdir pre nm) \<longleftrightarrow> lookable A pre nm \<and>
     (\<forall>m p es k q. dir_at A pre = Some (m, p, es) \<and> map_of es nm = Some k \<and> A (unat k) = Some (Dir q []) \<longrightarrow>
        is_last nm es)"
| "covered E s A (Rename pre nm pre' nm') \<longleftrightarrow> lookable A pre nm \<and> lookable A pre' nm' \<and>
     (\<forall>m p es m' p' es'. dir_at A pre = Some (m, p, es) \<and> dir_at A pre' = Some (m', p', es') \<longrightarrow>
        (\<exists>k. map_of es nm = Some k \<and> \<not> below A (unat k) m') \<and> is_last nm es \<and>
        (m' = m \<and> nm' = nm \<or> nm' \<notin> fst ` set es') \<and> 2 \<le> card (free_data E s))"
| "covered E s A (Truncate pre nm l) \<longleftrightarrow> lookable A pre nm \<and>
     (\<forall>n p bs. walk A (tokens slash (child_path pre nm)) 0 = Some n \<and> A n = Some (File p bs) \<longrightarrow>
        length bs < 2 ^ 31 \<and> l < 2 ^ 31 \<and>
        (if l \<le> length bs then no_spare bs
         else write_need (length bs) (l - length bs) \<le> card (free_data E s)))"

text \<open>A path that is looked at leads to an entry of a directory, to none there, or has no directory.\<close>

lemma lookable_cases:
  assumes "lookable A pre nm"
  obtains (entry) m p es k where "dir_at A pre = Some (m, p, es)" and "map_of es nm = Some k"
      and "walk A (tokens slash (child_path pre nm)) 0 = Some (unat k)"
    | (no_entry) m p es where "dir_at A pre = Some (m, p, es)" and "nm \<notin> fst ` set es" and "map_of es nm = None"
      and "walk A (tokens slash (child_path pre nm)) 0 = None"
    | (no_dir) "dir_at A pre = None" and "walks_dirs A (tokens slash pre) 0"
      and "walk A (tokens slash pre) 0 = None" and "walk A (tokens slash (child_path pre nm)) 0 = None"
proof -
  have t: "tokens slash (child_path pre nm) = tokens slash pre @ [nm]"
    using assms by (simp add: lookable_def tokens_child)
  have w: "walks_dirs A (tokens slash pre @ [nm]) 0" using assms by (simp add: lookable_def t)
  show thesis
  proof (cases "walk A (tokens slash pre) 0")
    case None
    then show ?thesis using w no_dir by (simp add: t walk_append walks_dirs_append dir_at_def)
  next
    case (Some m)
    then obtain p es where d: "A m = Some (Dir p es)"
      using w by (auto simp: walks_dirs_append split: option.splits inode.splits)
    show ?thesis
    proof (cases "map_of es nm")
      case None
      moreover have "nm \<notin> fst ` set es" using None by (simp add: map_of_eq_None_iff)
      ultimately show ?thesis using Some d no_entry [of m p es] by (simp add: t walk_append dir_at_def)
    next
      case (Some k)
      then show ?thesis using \<open>walk A (tokens slash pre) 0 = Some m\<close> d entry [of m p es k]
        by (simp add: t walk_append dir_at_def)
    qed
  qed
qed

section \<open>The specification keeps the tree\<close>

lemma takeWhile_upt:
  assumes "length (takeWhile P [0..<N]) < N"
  shows "\<not> P (length (takeWhile P [0..<N]))" and "k < length (takeWhile P [0..<N]) \<Longrightarrow> P k"
proof -
  show "\<not> P (length (takeWhile P [0..<N]))" using nth_length_takeWhile [of P "[0..<N]"] assms by simp
  assume k: "k < length (takeWhile P [0..<N])"
  then have "takeWhile P [0..<N] ! k = k" using assms by (simp add: takeWhile_nth)
  then show "P k" using set_takeWhileD [OF nth_mem [OF k]] by simp
qed

lemma first_free_free: "first_free E s < 32 \<Longrightarrow> free_node E s (first_free E s)"
  using takeWhile_upt [of "\<lambda>n. used E s (2 + n)" 32] by (simp add: first_free_def free_node_def)

lemma first_free_room:
  assumes st: "store_ok E s A Q" and tr: "tree_ok A" and A: "A m = Some (Dir p es)" and n: "free_node E s n"
  shows "length es < 31"
proof (rule free_node_room [OF tr A])
  show "n < 32" using n by (simp add: free_node_def)
  then show "A n = None" using n by (intro store_ok_unused [OF st]) (simp_all add: free_node_def)
qed

lemma dir_at_eq: "walk A (tokens slash pre) 0 = Some m \<Longrightarrow> A m = Some (Dir p es) \<Longrightarrow> dir_at A pre = Some (m, p, es)"
  by (simp add: dir_at_def)

text \<open>The directory \<open>m'\<close> once the entry \<open>nm\<close> of \<open>m\<close> is gone.\<close>

lemma movable_ex:
  assumes tr: "tree_ok A" and A: "A m = Some (Dir p es)" and k: "map_of es nm = Some k"
    and A': "A m' = Some (Dir p' es')" and out: "\<not> below A (unat k) m'"
    and nm': "m' = m \<and> nm' = nm \<or> nm' \<notin> fst ` set es'"
  shows "\<exists>fs. movable A m p es nm k m' p' fs nm'"
proof -
  have ds: "distinct (map fst es)" using tree_okD(3) [OF tr A] by simp
  show ?thesis
  proof (cases "m' = m")
    case True
    then have "delete_from nm m A m' = Some (Dir p' (del_entry nm es))" using A A' by (simp add: delete_from_def)
    moreover have "nm' \<notin> fst ` set (del_entry nm es)" 
      using nm' A A' True unfolding del_entry_filter [OF ds] by auto
    ultimately show ?thesis using tr A k out by (auto simp: movable_def)
  next
    case False
    then have "delete_from nm m A m' = Some (Dir p' es')" using A A' by (simp add: delete_from_def)
    then show ?thesis using tr A k out nm' False by (auto simp: movable_def)
  qed
qed

lemma effect_tree:
  assumes st: "store_ok E s A Q" and tr: "tree_ok A" and c: "covered E s A c"
  shows "tree_ok (snd (effect (first_free E s) c A))"
proof -
  have new: "A (first_free E s) = None" if "first_free E s < 32"
    using store_ok_unused [OF st that] first_free_free [OF that] by (simp add: free_node_def)
  show ?thesis
  proof (cases c)
    case (Mkdir pre nm)
    show ?thesis
    proof (cases "dir_at A pre")
      case (Some d)
      then show ?thesis using Mkdir c tr new tree_add_leaf [OF tr, of "fst d"]
        by (cases d) (auto simp: room_in_def elim!: dir_atE)
    qed (use Mkdir tr in simp)
  next
    case (Create pre nm)
    show ?thesis
    proof (cases "dir_at A pre")
      case (Some d)
      then show ?thesis using Create c tr new tree_add_leaf [OF tr, of "fst d"]
        by (cases d) (auto simp: room_in_def map_of_eq_None_iff elim!: dir_atE split: option.splits)
    qed (use Create tr in simp)
  next
    case (Write n off data)
    then show ?thesis using c tree_file [OF tr] by auto
  next
    case (Remove pre nm)
    then show ?thesis using tr tree_drop_leaf [OF tr]
      by (fastforce elim!: dir_atE split: option.splits inode.splits)
  next
    case (Rmdir pre nm)
    then show ?thesis using tr tree_drop_leaf [OF tr]
      by (fastforce elim!: dir_atE split: option.splits inode.splits)
  next
    case (Truncate pre nm l)
    then show ?thesis using tr tree_file [OF tr] by (auto split: option.splits inode.splits)
  next
    case (Rename pre nm pre' nm')
    show ?thesis
    proof (cases "dir_at A pre = None \<or> dir_at A pre' = None")
      case False
      then obtain m p es m' p' es' where d: "dir_at A pre = Some (m, p, es)" "dir_at A pre' = Some (m', p', es')"
        by (cases "dir_at A pre"; cases "dir_at A pre'") auto
      then obtain k where k: "map_of es nm = Some k" "\<not> below A (unat k) m'" "m' = m \<and> nm' = nm \<or> nm' \<notin> fst ` set es'"
        using c Rename by auto
      have A: "A m = Some (Dir p es)" "A m' = Some (Dir p' es')" using d by (auto elim!: dir_atE)
      obtain i where "A (unat k) = Some i" using entry_child [OF tr A(1) k(1)] by blast
      moreover obtain fs where "movable A m p es nm k m' p' fs nm'" using movable_ex [OF tr A(1) k(1) A(2) k(2,3)] by blast
      ultimately show ?thesis using Rename d k(1) tree_move by simp
    qed (use Rename tr in \<open>auto split: option.splits\<close>)
  qed
qed

section \<open>The code refines the specification\<close>

text \<open>\<open>simulates E L s c A\<close>: the command returns what the specification says, and leaves a state of its tree.\<close>

definition simulates :: "env \<Rightarrow> t_dir_entry list_ops \<Rightarrow> fs \<Rightarrow> command \<Rightarrow> afs \<Rightarrow> bool" where
  "simulates E L s c A \<longleftrightarrow>
     (\<exists>s' Q. run E L c s = Some (Inr (fst (effect (first_free E s) c A), s')) \<and>
        store_ok E s' (snd (effect (first_free E s) c A)) Q)"

lemma simulatesI:
  "run E L c s = Some (Inr (r, s')) \<Longrightarrow> effect (first_free E s) c A = (r, A') \<Longrightarrow>
   store_ok E s' A' Q \<Longrightarrow> simulates E L s c A"
  by (auto simp: simulates_def)

lemma small_index: "unat (k :: u32) < 32 \<Longrightarrow> sint k = int (unat k)"
  using sint_small [of "unat k"] by simp

context commons_lib
begin

lemma lookable_no_dir:
  assumes "lookable A pre nm" and "dir_at A pre = None"
  shows "walk A (tokens slash pre) 0 = None"
  using assms(1) by (rule lookable_cases) (simp_all add: assms(2))

lemma lookable_folder: "lookable A pre nm \<Longrightarrow> folder_ok pre \<and> component_ok nm"
  and lookable_walk: "lookable A pre nm \<Longrightarrow> walks_dirs A (tokens slash (child_path pre nm)) 0"
  and lookable_valid: "lookable A pre nm \<Longrightarrow> is_valid_path E (child_path pre nm)"
  by (simp_all add: lookable_def valid_child_path)

lemma simulates_mkdir:
  assumes st: "store_ok E s A Q" and tr: "tree_ok A" and c: "covered E s A (Mkdir pre nm)"
  shows "simulates E L s (Mkdir pre nm) A"
proof -
  have l: "lookable A pre nm" using c by simp
  note p = lookable_folder [OF l, THEN conjunct1] lookable_folder [OF l, THEN conjunct2]
  from l show ?thesis
  proof (cases rule: lookable_cases)
    case (entry m p es k)
    then have "nm \<in> fst ` set es" by (metis map_of_eq_None_iff option.distinct(1))
    moreover from entry(1) obtain "walk A (tokens slash pre) 0 = Some m" and "A m = Some (Dir p es)" by (rule dir_atE)
    ultimately obtain s' where "sac_mkdir E (child_path pre nm) 0 s = Inr (- 1, s')" "store_ok E s' A Q"
      using mkdir_existing [OF st p] by blast
    with entry(1) \<open>nm \<in> fst ` set es\<close> show ?thesis by (intro simulatesI) simp_all
  next
    case (no_entry m p es)
    from no_entry(1) obtain w: "walk A (tokens slash pre) 0 = Some m" and A: "A m = Some (Dir p es)" by (rule dir_atE)
    let ?n = "first_free E s"
    have "room_in E s es" using c no_entry(1,2) by simp
    then have "free_node E s ?n" "es = [] \<longrightarrow> 2 \<le> card (free_data E s)"
      using first_free_free by (auto simp: room_in_def)
    moreover from this(1) have "length es < 31" by (rule first_free_room [OF st tr A])
    ultimately obtain s' R where "sac_mkdir E (child_path pre nm) 0 s = Inr (0, s')"
        "store_ok E s' (A(?n \<mapsto> Dir (of_nat (2 + m)) [], m \<mapsto> Dir p (es @ [(nm, of_nat ?n)]))) R"
      using mkdir_creates [OF st \<open>folder_ok pre\<close> \<open>component_ok nm\<close> w A no_entry(2)] by blast
    with no_entry(1,2) A show ?thesis by (intro simulatesI) (simp_all add: add_leaf_def)
  next
    case no_dir
    then obtain s' where "sac_mkdir E (child_path pre nm) 0 s = Inr (- 1, s')" "store_ok E s' A Q"
      using mkdir_no_folder [OF st p] by blast
    with no_dir(1) show ?thesis by (intro simulatesI) simp_all
  qed
qed

lemma simulates_create:
  assumes st: "store_ok E s A Q" and tr: "tree_ok A" and c: "covered E s A (Create pre nm)"
  shows "simulates E L s (Create pre nm) A"
proof -
  have l: "lookable A pre nm" using c by simp
  note p = lookable_folder [OF l, THEN conjunct1] lookable_folder [OF l, THEN conjunct2]
  from l show ?thesis
  proof (cases rule: lookable_cases)
    case (entry m q es k)
    from entry(1) obtain w: "walk A (tokens slash pre) 0 = Some m" and A: "A m = Some (Dir q es)" by (rule dir_atE)
    have "unat k < 32" using entry_child [OF tr A entry(2)] tree_okD(2) [OF tr] by auto
    then have "sint k = int (unat k)" by (rule small_index)
    moreover obtain s' where "sac_open E (child_path pre nm) 0 s = Inr (sint k, s')" "store_ok E s' A Q"
      using open_existing [OF st p w A entry(2)] by blast
    ultimately show ?thesis using entry(1,2) by (intro simulatesI) simp_all
  next
    case (no_entry m q es)
    from no_entry(1) obtain w: "walk A (tokens slash pre) 0 = Some m" and A: "A m = Some (Dir q es)" by (rule dir_atE)
    let ?n = "first_free E s"
    have "room_in E s es" using c no_entry(1,2) by simp
    then have "free_node E s ?n" "es = [] \<longrightarrow> 2 \<le> card (free_data E s)"
      using first_free_free by (auto simp: room_in_def)
    moreover from this(1) have "length es < 31" by (rule first_free_room [OF st tr A])
    ultimately obtain s' R where "sac_open E (child_path pre nm) 0 s = Inr (int ?n, s')"
        "store_ok E s' (A(?n \<mapsto> File (of_nat (2 + m)) [], m \<mapsto> Dir q (es @ [(nm, of_nat ?n)]))) R"
      using open_creates [OF st p w A no_entry(2)] by blast
    with no_entry(1,3) A show ?thesis by (intro simulatesI) (simp_all add: add_leaf_def)
  next
    case no_dir
    then obtain s' where "sac_open E (child_path pre nm) 0 s = Inr (- 1, s')" "store_ok E s' A Q"
      using open_no_folder [OF st p] by blast
    with no_dir(1) show ?thesis by (intro simulatesI) simp_all
  qed
qed

lemma simulates_write:
  assumes st: "store_ok E s A Q" and ptr: "sizeof_ptr E = 4" and c: "covered E s A (Write n off data)"
  shows "simulates E L s (Write n off data) A"
proof -
  obtain p bs where f: "A n = Some (File p bs)" "fillable off (length bs)" "length bs < 2 ^ 31"
      "off + length data < 2 ^ 31" "write_need off (length data) \<le> card (free_data E s)"
    using c by auto
  obtain R s' where "sac_write E (int n) data (length data) (int off) s = Inr (int (length data), s')"
      "store_ok E s' (A(n \<mapsto> File p (memput (padded off bs) off data))) (Q(n := R))"
    using write_padded [OF st ptr f(1-4) order_refl f(5)] by auto
  with f(1) show ?thesis by (intro simulatesI) simp_all
qed

text \<open>The commands on a path that leads nowhere: -1, and nothing changes.\<close>

lemma missing_effect:
  assumes "dir_at A pre = None \<or> dir_at A pre = Some (m, p, es) \<and> map_of es nm = None"
  shows "effect n (Remove pre nm) A = (- 1, A)" and "effect n (Rmdir pre nm) A = (- 1, A)"
    and "effect n (Truncate pre nm l) A = (- 1, A)"
  using assms by auto

lemma simulates_remove:
  assumes st: "store_ok E s A Q" and tr: "tree_ok A" and c: "covered E s A (Remove pre nm)"
  shows "simulates E L s (Remove pre nm) A"
proof -
  have l: "lookable A pre nm" using c by simp
  note p = lookable_folder [OF l, THEN conjunct1] lookable_folder [OF l, THEN conjunct2]
  note none = remove_missing [OF st lookable_valid [OF l] lookable_walk [OF l]]
  from l show ?thesis
  proof (cases rule: lookable_cases)
    case (entry m q es k)
    from entry(1) obtain w: "walk A (tokens slash pre) 0 = Some m" and A: "A m = Some (Dir q es)" by (rule dir_atE)
    obtain i where i: "A (unat k) = Some i" "par i = of_nat (2 + m)" using entry_child [OF tr A entry(2)] by blast
    show ?thesis
    proof (cases i)
      case (File r bs)
      then have F: "A (unat k) = Some (File (of_nat (2 + m)) bs)" using i by simp
      have last: "is_last nm es" using c entry(1,2) F by auto
      obtain s' R where "sac_remove E (child_path pre nm) s = Inr (0, s')"
          "store_ok E s' (A(unat k := None, m \<mapsto> Dir q (del_entry nm es))) (Q(unat k := {}, m := R))"
        using remove_file [OF last st p w A entry(2) F] by blast
      with entry(1,2) A F show ?thesis by (intro simulatesI) (simp_all add: drop_leaf_def)
    next
      case (Dir r fs)
      then have N: "A (unat k) = Some (Dir r fs)" using i(1) by simp
      obtain s' where "sac_remove E (child_path pre nm) s = Inr (- 1, s')" "store_ok E s' A Q"
        using remove_directory [OF st lookable_valid [OF l] entry(3) N] by blast
      with entry(1,2) N show ?thesis by (intro simulatesI) simp_all
    qed
  next
    case (no_entry m q es)
    with none obtain s' where "sac_remove E (child_path pre nm) s = Inr (- 1, s')" "store_ok E s' A Q" by blast
    with no_entry(1,3) show ?thesis by (intro simulatesI) simp_all
  next
    case no_dir
    with none obtain s' where "sac_remove E (child_path pre nm) s = Inr (- 1, s')" "store_ok E s' A Q" by blast
    with no_dir(1) show ?thesis by (intro simulatesI) simp_all
  qed
qed

lemma simulates_rmdir:
  assumes lists: "list_lib L" and st: "store_ok E s A Q" and tr: "tree_ok A"
    and c: "covered E s A (Rmdir pre nm)"
  shows "simulates E L s (Rmdir pre nm) A"
proof -
  have l: "lookable A pre nm" using c by simp
  note p = lookable_folder [OF l, THEN conjunct1] lookable_folder [OF l, THEN conjunct2]
  note none = rmdir_missing [OF st p lookable_walk [OF l]]
  from l show ?thesis
  proof (cases rule: lookable_cases)
    case (entry m q es k)
    from entry(1) obtain w: "walk A (tokens slash pre) 0 = Some m" and A: "A m = Some (Dir q es)" by (rule dir_atE)
    obtain i where i: "A (unat k) = Some i" "par i = of_nat (2 + m)" using entry_child [OF tr A entry(2)] by blast
    show ?thesis
    proof (cases "i = Dir (par i) []")
      case True
      then have N: "A (unat k) = Some (Dir (of_nat (2 + m)) [])" using i by simp
      have last: "is_last nm es" using c entry(1,2) N by auto
      have "m \<noteq> unat k" using leaf_not_parent [OF A entry(2) N] by simp
      then obtain s' R where "sac_rmdir E L (child_path pre nm) s = Some (Inr (0, s'))"
          "store_ok E s' (A(unat k := None, m \<mapsto> Dir q (del_entry nm es))) (Q(m := R))"
        using rmdir_empty [OF last lists st p w A entry(2) N] by blast
      with entry(1,2) A N show ?thesis by (intro simulatesI) (simp_all add: drop_leaf_def)
    next
      case False
      then obtain s' where "sac_rmdir E L (child_path pre nm) s =
          Some (Inr (case i of Dir _ _ \<Rightarrow> - 2 | File _ _ \<Rightarrow> - 1, s'))" "store_ok E s' A Q"
        using rmdir_refuses [OF st p w A entry(2) i(1)] by blast
      moreover have "effect (first_free E s) (Rmdir pre nm) A = (case i of Dir _ _ \<Rightarrow> - 2 | File _ _ \<Rightarrow> - 1, A)"
        using entry(1,2) i(1) False by (cases i) simp_all
      ultimately show ?thesis by (intro simulatesI) simp_all
    qed
  next
    case (no_entry m q es)
    with none obtain s' where "sac_rmdir E L (child_path pre nm) s = Some (Inr (- 1, s'))" "store_ok E s' A Q"
      by blast
    with no_entry(1,3) show ?thesis by (intro simulatesI) simp_all
  next
    case no_dir
    with none obtain s' where "sac_rmdir E L (child_path pre nm) s = Some (Inr (- 1, s'))" "store_ok E s' A Q"
      by blast
    with no_dir(1) show ?thesis by (intro simulatesI) simp_all
  qed
qed

lemma simulates_truncate:
  assumes st: "store_ok E s A Q" and tr: "tree_ok A" and ptr: "sizeof_ptr E = 4"
    and c: "covered E s A (Truncate pre nm l)"
  shows "simulates E L s (Truncate pre nm l) A"
proof -
  have k: "lookable A pre nm" using c by simp
  note p = lookable_folder [OF k, THEN conjunct1] lookable_folder [OF k, THEN conjunct2]
  note none = truncate_missing [OF st lookable_valid [OF k] lookable_walk [OF k]]
  from k show ?thesis
  proof (cases rule: lookable_cases)
    case (entry m q es n)
    from entry(1) obtain w: "walk A (tokens slash pre) 0 = Some m" and A: "A m = Some (Dir q es)" by (rule dir_atE)
    obtain i where "A (unat n) = Some i" using entry_child [OF tr A entry(2)] by blast
    then show ?thesis
    proof (cases i)
      case (Dir r fs)
      with \<open>A (unat n) = Some i\<close> have N: "A (unat n) = Some (Dir r fs)" by simp
      obtain s' where "sac_truncate E (child_path pre nm) (int l) s = Inr (- 1, s')" "store_ok E s' A Q"
        using truncate_directory [OF st lookable_valid [OF k] entry(3) N] by blast
      with entry(1,2) N show ?thesis by (intro simulatesI) simp_all
    next
      case (File r bs)
      with \<open>A (unat n) = Some i\<close> have N: "A (unat n) = Some (File r bs)" by simp
      have b: "length bs < 2 ^ 31" "l < 2 ^ 31" "l \<le> length bs \<longrightarrow> no_spare bs"
          "\<not> l \<le> length bs \<longrightarrow> write_need (length bs) (l - length bs) \<le> card (free_data E s)"
        using c entry(3) N by auto
      have "\<exists>s' R. sac_truncate E (child_path pre nm) (int l) s = Inr (0, s') \<and>
          store_ok E s' (A(unat n \<mapsto> File r (truncated l bs))) (Q(unat n := R))"
      proof (cases "l \<le> length bs")
        case True
        then show ?thesis
          using truncate_shrinks [OF st ptr lookable_valid [OF k] entry(3) N b(1) True] b(3)
          by (simp add: truncated_def) blast
      next
        case False
        then show ?thesis
          using truncate_grows [OF st ptr p w A entry(2) N, of l] b by (simp add: truncated_def) blast
      qed
      with entry(1,2) N show ?thesis by (auto intro!: simulatesI)
    qed
  next
    case (no_entry m q es)
    with none obtain s' where "sac_truncate E (child_path pre nm) (int l) s = Inr (- 1, s')" "store_ok E s' A Q"
      by blast
    with no_entry(1,3) show ?thesis by (intro simulatesI) simp_all
  next
    case no_dir
    with none obtain s' where "sac_truncate E (child_path pre nm) (int l) s = Inr (- 1, s')" "store_ok E s' A Q"
      by blast
    with no_dir(1) show ?thesis by (intro simulatesI) simp_all
  qed
qed

lemma simulates_rename:
  assumes st: "store_ok E s A Q" and tr: "tree_ok A"
    and c: "covered E s A (Rename pre nm pre' nm')"
  shows "simulates E L s (Rename pre nm pre' nm') A"
proof -
  have l: "lookable A pre nm" "lookable A pre' nm'" using c by simp_all
  have p: "folder_ok pre" "component_ok nm" "folder_ok pre'" "component_ok nm'"
    using l by (simp_all add: lookable_def)
  show ?thesis
  proof (cases "dir_at A pre = None \<or> dir_at A pre' = None")
    case True
    have w: "walks_dirs A (tokens slash pre) 0" "walks_dirs A (tokens slash pre') 0"
      using l by (auto simp: lookable_def tokens_child walks_dirs_append)
    have no: "walk A (tokens slash pre) 0 = None \<or> walk A (tokens slash pre') 0 = None"
      using True lookable_no_dir [OF l(1)] lookable_no_dir [OF l(2)] by (elim disjE) simp_all
    obtain s' where "sac_rename E (child_path pre nm) (child_path pre' nm') s = Inr (- 1, s')" "store_ok E s' A Q"
      using rename_no_folder [OF st p w no] by blast
    with True show ?thesis by (intro simulatesI) (auto split: option.splits)
  next
    case False
    then obtain m q es m' q' es' where d: "dir_at A pre = Some (m, q, es)" "dir_at A pre' = Some (m', q', es')"
      by (cases "dir_at A pre"; cases "dir_at A pre'") auto
    with c obtain k where k: "map_of es nm = Some k" "\<not> below A (unat k) m'" "m' = m \<and> nm' = nm \<or> nm' \<notin> fst ` set es'"
      and r: "2 \<le> card (free_data E s)" and last: "is_last nm es" by auto
    from d(1) obtain w: "walk A (tokens slash pre) 0 = Some m" and A: "A m = Some (Dir q es)" by (rule dir_atE)
    from d(2) obtain w': "walk A (tokens slash pre') 0 = Some m'" and A': "A m' = Some (Dir q' es')" by (rule dir_atE)
    obtain fs where mv: "movable A m q es nm k m' q' fs nm'" using movable_ex [OF tr A k(1) A' k(2,3)] by blast
    obtain i where i: "A (unat k) = Some i" using entry_child [OF tr A k(1)] by blast
    then have K: "A (unat k) \<noteq> None" by simp
    have sp: "fs = [] \<longrightarrow> 2 \<le> card (free_data E s)" using r by simp
    obtain s' R where "sac_rename E (child_path pre nm) (child_path pre' nm') s = Inr (0, s')"
        "store_ok E s' (move nm m nm' m' k A) R"
      using rename_moves [OF last st p w A w' k(1) K movableD(4) [OF mv] moved_room [OF mv] sp] by blast
    with d k(1) i show ?thesis by (intro simulatesI) simp_all
  qed
qed

lemma run_refines:
  assumes "list_lib L" and "sizeof_ptr E = 4"
    and "store_ok E s A Q" and "tree_ok A" and "covered E s A c"
  shows "simulates E L s c A"
proof (cases c)
  case (Mkdir pre nm)
  with assms show ?thesis using simulates_mkdir by simp
next
  case (Create pre nm)
  with assms show ?thesis using simulates_create by simp
next
  case (Write n off data)
  with assms show ?thesis using simulates_write by blast
next
  case (Remove pre nm)
  with assms show ?thesis using simulates_remove by blast
next
  case (Rmdir pre nm)
  with assms show ?thesis using simulates_rmdir by blast
next
  case (Rename pre nm pre' nm')
  with assms show ?thesis using simulates_rename by blast
next
  case (Truncate pre nm l)
  with assms show ?thesis using simulates_truncate by blast
qed

end

section \<open>From a formatted disk\<close>

inductive reached :: "env \<Rightarrow> t_dir_entry list_ops \<Rightarrow> fs \<Rightarrow> afs \<Rightarrow> bool" for E L where
  format: "disk_ok s \<Longrightarrow> format_disk E s = Inr s' \<Longrightarrow> reached E L s' [0 \<mapsto> Dir 0 []]"
| command: "reached E L s A \<Longrightarrow> covered E s A c \<Longrightarrow> run E L c s = Some (Inr (r, s')) \<Longrightarrow>
    reached E L s' (snd (effect (first_free E s) c A))"

lemma tree_root: "tree_ok [0 \<mapsto> Dir 0 []]"
  unfolding tree_ok_def by (auto simp: entry_in_def intro: exI [of _ "[]"] split: if_splits)

context commons_lib
begin

lemma reached_ok:
  assumes "list_lib L" and "sizeof_ptr E = 4" and "reached E L s A"
  shows "(\<exists>Q. store_ok E s A Q) \<and> tree_ok A"
  using assms(3)
proof induction
  case (format s s')
  then obtain "store_ok E s' [0 \<mapsto> Dir 0 []] (\<lambda>_. {})" using format_represents [of s] by auto
  with tree_root show ?case by blast
next
  case (command s A c r s')
  then obtain Q where st: "store_ok E s A Q" and tr: "tree_ok A" by blast
  have "simulates E L s c A" by (rule run_refines [OF assms(1,2) st tr command.hyps(2)])
  then show ?case
    using command.hyps(3) effect_tree [OF st tr command.hyps(2)] by (auto simp: simulates_def)
qed

end

end
