(* ===== verification/Mount.thy ===== *)
theory Mount
  imports Session Refinement
begin

text \<open>
  The mounted file system as a whole: every call of FUSE that changes the disk goes through the
  client, the connection and the server, and does to the tree behind the connection what the
  specification of its operation says.
\<close>

section \<open>Calls of the mounted file system\<close>

text \<open>The requests of FUSE that make a command, and the reply for the result of its operation.\<close>

inductive asks :: "env \<Rightarrow> command \<Rightarrow> fuse_request \<Rightarrow> bool" for C where
  mkdir: "asks C (Mkdir pre nm) (Fuse_mkdir (child_path pre nm) mode)"
| create: "asks C (Create pre nm) (Fuse_create (child_path pre nm))"
| opened: "correct_path C (child_path pre nm) \<Longrightarrow> asks C (Create pre nm) (Fuse_open (child_path pre nm))"
| written: "asks C (Write n off data) (Fuse_write data (length data) (int off) (of_nat n))"
| unlink: "asks C (Remove pre nm) (Fuse_unlink (child_path pre nm))"
| rmdir: "asks C (Rmdir pre nm) (Fuse_rmdir (child_path pre nm))"
| rename: "asks C (Rename pre nm pre' nm') (Fuse_rename (child_path pre nm) (child_path pre' nm'))"
| truncate: "asks C (Truncate pre nm l) (Fuse_truncate (child_path pre nm) (int l))"

fun reply :: "command \<Rightarrow> int \<Rightarrow> fuse_reply" where
  "reply (Create pre nm) i = (if i < 0 then Handle (- EACCES) None else Handle 0 (Some (word_of_int i)))"
| "reply (Rmdir pre nm) i = Result (if i = - 2 then - ENOTEMPTY else i)"
| "reply c i = Result i"

text \<open>What the messages can carry: paths below 64 KB, and sizes and offsets of 31 bits.\<close>

fun carried :: "command \<Rightarrow> bool" where
  "carried (Mkdir pre nm) \<longleftrightarrow> cpath (child_path pre nm)"
| "carried (Create pre nm) \<longleftrightarrow> cpath (child_path pre nm)"
| "carried (Write n off data) \<longleftrightarrow> n < 32 \<and> off + length data < 2 ^ 31"
| "carried (Remove pre nm) \<longleftrightarrow> cpath (child_path pre nm)"
| "carried (Rmdir pre nm) \<longleftrightarrow> cpath (child_path pre nm) \<and> folder_ok pre"
| "carried (Rename pre nm pre' nm') \<longleftrightarrow> cpath (child_path pre nm) \<and> cpath (child_path pre' nm')"
| "carried (Truncate pre nm l) \<longleftrightarrow> cpath (child_path pre nm) \<and> l < 2 ^ 31"

definition off_ok :: "env \<Rightarrow> env \<Rightarrow> bool" where
  "off_ok C E \<longleftrightarrow> wire_ok C E \<and> sizeof_off_t E \<le> sizeof_off_t C \<and> sizeof_off_t C \<le> 8"

lemma sac_open_any_mode: "sac_open E path mode s = sac_open E path 0 s"
  by (simp add: sac_open_def)

text \<open>Each call runs the operation of its command on the state of the server.\<close>

lemma open_with_run:
  assumes p: "cpath p" and f: "to_int flags = flags" and i: "- (2 ^ 31) \<le> i" "i < 2 ^ 31"
    and r: "sac_open E p 0 (srv_fs (ticks 4 v)) = Inr (i, s')"
  shows "open_with C t (server_peer E L H False) p flags (Some v) =
    Inr (if i < 0 then - EACCES else 0, if i < 0 then None else Some (word_of_int i), Some ((ticks 4 v)\<lparr>srv_fs := s'\<rparr>))"
proof -
  have c: "is_cstr p" "path_fits p" using p by (simp_all add: cpath_def)
  have ex: "execute E L H False (call IDENTIFIER_OPEN [p @ [0], mode_bytes flags]) (ticks 4 v) =
      Some (on_fs (\<lambda>s. status_response (sac_open E p 0 s)) (ticks 4 v))"
    unfolding execute_path(1) [OF c(1)] status_calls by (subst sac_open_any_mode) rule
  have "simple_call C t (server_peer E L H False) IDENTIFIER_OPEN p [] flags 0 0 (Some v) =
      Inr (i, Some ((ticks 4 v)\<lparr>srv_fs := s'\<rparr>))"
  proof (rule open_msg.simple_called [where x = "(p, flags)" and f = "sac_open E p 0", unfolded prod.case])
    show "serialize_function C t IDENTIFIER_OPEN p [] flags 0 0 = serialize_open C t p flags"
      by (simp add: serialize_function_def f)
    show "log_function_call (call IDENTIFIER_OPEN [p @ [0], mode_bytes flags]) =
        Inr (''open'', [Log_s p, Log_d (sint (word_of_int flags :: u16))])"
      by (rule log_path(1) [OF c(1)])
  qed (fact c ex r i TrueI)+
  then show ?thesis by (simp add: open_with_def)
qed

lemma rmdir_run:
  assumes p: "cpath (child_path pre nm)" "folder_ok pre" and i: "- (2 ^ 31) \<le> i" "i < 2 ^ 31"
    and r: "sac_rmdir E L (child_path pre nm) (srv_fs (ticks 4 v)) = Some (Inr (i, s'))"
  shows "do_rmdir C t (server_peer E L H False) (child_path pre nm) (Some v) =
    Inr (if i = - 2 then - ENOTEMPTY else i, Some ((ticks 4 v)\<lparr>srv_fs := s'\<rparr>))"
proof -
  let ?p = "child_path pre nm"
  have c: "is_cstr ?p" "path_fits ?p" using p by (simp_all add: cpath_def)
  have "hd ?p = slash" using p(2) by (cases pre) (auto simp: folder_ok_def child_path_def)
  then have d: "?p \<noteq> lit ''.''" "?p \<noteq> lit ''..''" by (auto simp: lit_def slash_def)
  have "simple_call C t (server_peer E L H False) IDENTIFIER_RMDIR ?p [] 0 0 0 (Some v) =
      Inr (i, Some ((ticks 4 v)\<lparr>srv_fs := s'\<rparr>))"
    using c r i
    by (intro rmdir_msg.simple_called [where x = ?p and f = "\<lambda>_. Inr (i, s')"])
       (simp_all add: serialize_function_def log_path execute_path sac_rmdir_response_def)
  then show ?thesis using d by (simp add: do_rmdir_def)
qed

lemma log_truncate:
  assumes "is_cstr p" and "4 \<le> k"
  shows "log_function_call (call IDENTIFIER_TRUNCATE [p @ [0], off_bytes k n]) =
    Inr (''truncate'', [Log_s p, Log_d (int (unat (le_dec (take 4 (off_bytes k n)) :: u32)))])"
  using assms by (simp add: log_function_call_def Let_def call_args arg_count_def arg_bytes_def)

lemma request_run:
  assumes a: "asks C c rq" and c: "carried c" and w: "off_ok C E" and i: "- (2 ^ 31) \<le> i" "i < 2 ^ 31"
    and r: "run E L c (srv_fs (ticks 4 v)) = Some (Inr (i, s'))"
  shows "do_oper C uid gid t (server_peer E L H False) rq (Some v) =
    Inr (reply c i, Some ((ticks 4 v)\<lparr>srv_fs := s'\<rparr>))"
using a
proof cases
  case (mkdir pre nm mode)
  let ?p = "child_path pre nm"
  have "simple_call C t (server_peer E L H False) IDENTIFIER_MKDIR ?p [] mode 0 0 (Some v) =
      Inr (i, Some ((ticks 4 v)\<lparr>srv_fs := s'\<rparr>))"
    using c r i mkdir
    by (intro mkdir_msg.simple_called [where x = "(?p, to_int mode)" and f = "sac_mkdir E ?p 0"])
      (simp_all add: serialize_function_def cpath_def log_path execute_path status_calls)
  then show ?thesis using mkdir by (simp add: do_mkdir_def result_def)
next
  case (create pre nm)
  then show ?thesis using c r i open_with_run [of "child_path pre nm" 577 i E v s' C t L H]
    by (simp add: do_create_def to_int_def)
next
  case (opened pre nm)
  then show ?thesis using c r i open_with_run [of "child_path pre nm" 66 i E v s' C t L H]
    by (simp add: do_open_def to_int_def)
next
  case (written n off data)
  then show ?thesis using c r i w do_write_run [of C E n "length data" data off i v s' t L H]
    by (simp add: result_def off_ok_def)
next
  case (unlink pre nm)
  let ?p = "child_path pre nm"
  have "simple_call C t (server_peer E L H False) IDENTIFIER_REMOVE ?p [] 0 0 0 (Some v) =
      Inr (i, Some ((ticks 4 v)\<lparr>srv_fs := s'\<rparr>))"
    using c r i unlink
    by (intro remove_msg.simple_called [where x = ?p and f = "sac_remove E ?p"])
      (simp_all add: serialize_function_def cpath_def log_path execute_path status_calls)
  then show ?thesis using unlink by (simp add: do_remove_def result_def)
next
  case (rmdir pre nm)
  then show ?thesis using c r i rmdir_run [of pre nm i E L v s' C t H] by (simp add: result_def)
next
  case (rename pre nm pre' nm')
  let ?p = "child_path pre nm" and ?q = "child_path pre' nm'"
  have "simple_call C t (server_peer E L H False) IDENTIFIER_RENAME ?p ?q 0 0 0 (Some v) =
      Inr (i, Some ((ticks 4 v)\<lparr>srv_fs := s'\<rparr>))"
    using c r i rename
    by (intro rename_msg.simple_called [where x = "(?p, ?q)" and f = "sac_rename E ?p ?q"])
      (simp_all add: serialize_function_def cpath_def log_rename execute_rename status_calls)
  then show ?thesis using rename by (simp add: do_rename_def result_def)
next
  case (truncate pre nm l)
  let ?p = "child_path pre nm"
  have o: "to_off_t C (int l) = int l" "to_off_t E (int l) = int l" "0 < sizeof_off_t E" "4 \<le> sizeof_off_t E"
      "sizeof_off_t E \<le> 8"
    using c w truncate by (simp_all add: off_ok_def wire_ok_def to_off_t_small)
  have p: "is_cstr ?p" "path_fits ?p" using c truncate by (simp_all add: cpath_def)
  have ex: "execute E L H False (call IDENTIFIER_TRUNCATE [?p @ [0], off_bytes (sizeof_off_t E) (int l)]) (ticks 4 v) =
      Some (on_fs (\<lambda>s. status_response (sac_truncate E ?p (int l) s)) (ticks 4 v))"
    unfolding execute_truncate [OF p(1) o(3,5)] status_calls o(2) ..
  have rr: "sac_truncate E ?p (int l) (srv_fs (ticks 4 v)) = Inr (i, s')" using r truncate by simp
  have ln: "path_fits ?p \<and> sizeof_off_t C \<le> 8" and off: "sizeof_off_t E \<le> sizeof_off_t C"
    using p w by (simp_all add: off_ok_def)
  have "simple_call C t (server_peer E L H False) IDENTIFIER_TRUNCATE ?p [] (int l) 0 0 (Some v) =
      Inr (i, Some ((ticks 4 v)\<lparr>srv_fs := s'\<rparr>))"
  proof (rule truncate_msg.simple_called [where x = "(?p, int l)" and f = "sac_truncate E ?p (int l)", unfolded prod.case])
    show "serialize_function C t IDENTIFIER_TRUNCATE ?p [] (int l) 0 0 = serialize_truncate C t ?p (int l)"
      by (simp add: serialize_function_def o(1))
  qed (fact ln off log_truncate [OF p(1) o(4)] ex rr i)+
  then show ?thesis using truncate by (simp add: do_truncate_def result_def)
qed

section \<open>The mounted file system refines the specification\<close>

lemma ticks_view [simp]:
  "first_free E (srv_fs (ticks k v)) = first_free E (srv_fs v)"
  "covered E (srv_fs (ticks k v)) A c = covered E (srv_fs v) A c"
proof -
  show f: "first_free E (srv_fs (ticks k v)) = first_free E (srv_fs v)"
    by (simp add: first_free_def ticks_def used_def)
  show "covered E (srv_fs (ticks k v)) A c = covered E (srv_fs v) A c"
    by (cases c) (simp_all add: f room_in_def)
qed

lemma effect_range:
  assumes st: "store_ok E s A Q" and tr: "tree_ok A" and c: "covered E s A c" and k: "carried c"
  shows "- 2 \<le> fst (effect (first_free E s) c A)" and "fst (effect (first_free E s) c A) < 2 ^ 31"
proof -
  have f: "first_free E s \<le> 32" using length_takeWhile_le [of _ "[0..<32]"] by (simp add: first_free_def)
  have u: "unat w < 32" if "dir_at A pre = Some (m, p, es)" "map_of es nm = Some w" for pre m p es nm w
    using entry_child [OF tr _ that(2)] tree_okD(2) [OF tr] that(1) by (auto elim!: dir_atE)
  have "- 2 \<le> fst (effect (first_free E s) c A) \<and> fst (effect (first_free E s) c A) < 2 ^ 31"
  proof (cases c)
    case (Create pre nm)
    show ?thesis
    proof (cases "dir_at A pre")
      case (Some d)
      obtain m p es where d: "dir_at A pre = Some (m, p, es)" using Some by (cases d) auto
      show ?thesis
      proof (cases "map_of es nm")
        case (Some w)
        have "- 2 \<le> int (unat w)" "int (unat w) < 2147483648" using u [OF d Some] by linarith+
        then show ?thesis using Create d Some by simp
      qed (use Create d f in simp)
    qed (use Create in simp)
  next
    case (Write n off data)
    then show ?thesis using k by (auto split: option.splits inode.splits)
  qed (auto split: option.splits inode.splits)
  then show "- 2 \<le> fst (effect (first_free E s) c A)" and "fst (effect (first_free E s) c A) < 2 ^ 31" by simp_all
qed

context commons_lib
begin

lemma fuse_refines:
  assumes libs: "list_lib L" "sizeof_ptr E = 4" and w: "off_ok C E"
    and st: "store_ok E (srv_fs v) A Q" and tr: "tree_ok A"
    and c: "covered E (srv_fs v) A c" "carried c" and a: "asks C c rq"
  shows "\<exists>v' Q'. do_oper C uid gid t (server_peer E L H False) rq (Some v) =
      Inr (reply c (fst (effect (first_free E (srv_fs v)) c A)), Some v') \<and>
    store_ok E (srv_fs v') (snd (effect (first_free E (srv_fs v)) c A)) Q'"
proof -
  let ?e = "effect (first_free E (srv_fs v)) c A"
  have st4: "store_ok E (srv_fs (ticks 4 v)) A Q" and c4: "covered E (srv_fs (ticks 4 v)) A c"
    using st c(1) by simp_all
  obtain s' Q' where r: "run E L c (srv_fs (ticks 4 v)) = Some (Inr (fst ?e, s'))" "store_ok E s' (snd ?e) Q'"
    using run_refines [OF libs st4 tr c4] by (auto simp: simulates_def)
  have i: "- (2 ^ 31) \<le> fst ?e" "fst ?e < 2 ^ 31" using effect_range [OF st tr c] by simp_all
  have "srv_fs ((ticks 4 v)\<lparr>srv_fs := s'\<rparr>) = s'" by simp
  with request_run [OF a c(2) w i r(1), of uid gid t H] r(2) show ?thesis by metis
qed

end

section \<open>Requests that change nothing\<close>

text \<open>Closing: \<open>sac_close\<close> takes the number of a node for a block of the node table.\<close>

lemma do_release_run:
  assumes n: "n < 32" and p: "correct_path C path"
  shows "do_release C t (server_peer E L H False) path (of_nat n) (Some v) = Inr (if 2 \<le> n then 1 else 0, Some (ticks 4 v))"
proof -
  have f: "fh_int (of_nat n) = int n" using n by (intro fh_small) simp
  have m: "int n mod 65536 = int n" using n by simp
  have ex: "execute E L H False (call IDENTIFIER_CLOSE [fd_bytes (int n)]) (ticks 4 v) =
      Some (on_fs (\<lambda>s. status_response (Inr (sac_close (int n), s))) (ticks 4 v))"
    unfolding execute_descriptor m by (simp add: sac_close_response_def [abs_def] status_response_def)
  have i: "sac_close (int n) = (if 2 \<le> n then 1 else 0)" using n by (simp add: sac_close_def const_simps)
  have "simple_call C t (server_peer E L H False) IDENTIFIER_CLOSE [] [] (int n) 0 0 (Some v) =
      Inr (sac_close (int n), Some ((ticks 4 v)\<lparr>srv_fs := srv_fs (ticks 4 v)\<rparr>))"
  proof (rule close_msg.simple_called [OF _ TrueI TrueI log_descriptor(1) ex])
    show "serialize_function C t IDENTIFIER_CLOSE [] [] (int n) 0 0 = serialize_close C t (int n)"
      using n small_ints(1) [of "int n"] by (simp add: serialize_function_def)
  qed (simp_all add: i)
  then show ?thesis using p by (simp add: do_release_def f i)
qed

text \<open>
  What the requests that read ask of the tree, and what they are answered. A path that the client
  hides (\<open>correct_path\<close> fails) is answered by the client alone. A read of a file without bytes is
  not here: its answer depends on whether the file has a block, which the tree does not show.
\<close>

fun askable :: "env \<Rightarrow> env \<Rightarrow> afs \<Rightarrow> fuse_request \<Rightarrow> bool" where
  "askable C E A (Fuse_getattr path) \<longleftrightarrow> \<not> correct_path C path \<or> cpath path \<and> is_valid_path E path \<and>
     walks_dirs A (tokens slash path) 0 \<and> (\<forall>t. slack E t)"
| "askable C E A (Fuse_open path) \<longleftrightarrow> \<not> correct_path C path"
| "askable C E A (Fuse_readdir path) \<longleftrightarrow> cpath path \<and> is_valid_path E path \<and> walks_dirs A (tokens slash path) 0"
| "askable C E A (Fuse_read path buffer count off fh) \<longleftrightarrow> \<not> correct_path C path \<or>
     count \<le> length buffer \<and> count < 2 ^ 31 \<and> 0 \<le> off \<and> off < 2 ^ 31 \<and>
     (\<exists>p bs. A (unat fh) = Some (File p bs) \<and> bs \<noteq> [] \<and> length bs < 2 ^ 31)"
| "askable C E A (Fuse_release path fh) \<longleftrightarrow> \<not> correct_path C path \<or> unat fh < 32"
| "askable C E A r \<longleftrightarrow> r = Fuse_flush \<or> r = Fuse_opendir \<or> r = Fuse_access"

fun answers :: "env \<Rightarrow> afs \<Rightarrow> fuse_request \<Rightarrow> fuse_reply \<Rightarrow> bool" where
  "answers C A (Fuse_getattr path) r \<longleftrightarrow> (if \<not> correct_path C path then r = Attributes 0 None else
     case walk A (tokens slash path) 0 of
        None \<Rightarrow> r = Attributes (- ENOENT) None
      | Some m \<Rightarrow> \<exists>i a. A m = Some i \<and> r = Attributes 0 (Some a) \<and>
          cs_mode a = (if is_dir i then 0x41FF else 0x81FF) \<and> cs_ino a = of_nat m \<and> unat (cs_size a) = size_of i)"
| "answers C A (Fuse_open path) r \<longleftrightarrow> r = Handle 0 None"
| "answers C A (Fuse_readdir path) r \<longleftrightarrow>
     (let dots = [lit ''.'', lit ''..''] in
      case walk A (tokens slash path) 0 of
        None \<Rightarrow> r = Names (- ENOENT) dots
      | Some m \<Rightarrow>
          (case A m of
             Some (Dir p es) \<Rightarrow> r = Names 0 (dots @ map fst es)
           | _ \<Rightarrow> r = Names (- ENOENT) dots))"
| "answers C A (Fuse_read path buffer count off fh) r \<longleftrightarrow> (if \<not> correct_path C path then r = Data 0 buffer else
     case A (unat fh) of
        Some (File p bs) \<Rightarrow>
          r = Data (int (min count (length bs - nat off))) (memput buffer 0 (take count (drop (nat off) bs)))
      | _ \<Rightarrow> False)"
| "answers C A (Fuse_release path fh) r \<longleftrightarrow> r = Result (if correct_path C path \<and> 2 \<le> unat fh then 1 else 0)"
| "answers C A q r \<longleftrightarrow> r = Result 0"

lemma walk_live: "walk A ps n = Some m \<Longrightarrow> A n \<noteq> None \<Longrightarrow> \<forall>a x k. entry_in A a x k \<longrightarrow> A k \<noteq> None \<Longrightarrow> A m \<noteq> None"
proof (induction ps arbitrary: n)
  case (Cons p ps)
  then obtain q es k where e: "A n = Some (Dir q es)" "map_of es p = Some k" "walk A ps (unat k) = Some m"
    by (auto split: option.splits inode.splits)
  have "entry_in A n p (unat k)" using e(1,2) by (auto simp: entry_in_def dest: map_of_SomeD)
  then show ?case using Cons.IH [OF e(3)] Cons.prems(3) by blast
qed simp

lemma tree_walk_live:
  assumes "tree_ok A" and "walk A ps 0 = Some m"
  obtains i where "A m = Some i"
proof -
  have "A 0 \<noteq> None" using tree_okD(1) [OF assms(1)] by auto
  moreover have "\<forall>a x k. entry_in A a x k \<longrightarrow> A k \<noteq> None" using tree_okD(4) [OF assms(1)] by blast
  ultimately show thesis using walk_live [OF assms(2)] that by blast
qed

context commons_lib
begin

lemma getattr_answered:
  assumes st: "store_ok E (srv_fs v) A Q" and tr: "tree_ok A" and q: "askable C E A (Fuse_getattr path)"
  shows "\<exists>r v'. do_oper C uid gid t (server_peer E L H False) (Fuse_getattr path) (Some v) = Inr (r, Some v') \<and>
    answers C A (Fuse_getattr path) r \<and> store_ok E (srv_fs v') A Q"
proof (cases "correct_path C path")
  case False
  then show ?thesis using st by (simp add: do_getattr_def)
next
  case True
  then have p: "cpath path" "is_valid_path E path" "correct_path C path" "walks_dirs A (tokens slash path) 0"
      "slack E (tick (srv_fs v) + 3)"
    using q by simp_all
  show ?thesis
  proof (cases "walk A (tokens slash path) 0")
    case None
    obtain v' where "do_getattr C uid gid t (server_peer E L H False) path (Some v) = Inr (- ENOENT, None, Some v')"
        "store_ok E (srv_fs v') A Q"
      using do_getattr_missing [OF st p(1-4) None p(5)] by blast
    then show ?thesis using None True by simp
  next
    case (Some m)
    obtain i where i: "A m = Some i" using tree_walk_live [OF tr Some] .
    obtain v' a where "do_getattr C uid gid t (server_peer E L H False) path (Some v) = Inr (0, Some a, Some v')"
        "cs_mode a = (if is_dir i then 0x41FF else 0x81FF)" "cs_ino a = of_nat m" "unat (cs_size a) = size_of i"
        "store_ok E (srv_fs v') A Q"
      using do_getattr_found [OF st p(1-3) Some i p(5)] by blast
    then show ?thesis using Some i True by simp
  qed
qed

lemma readdir_answered:
  assumes st: "store_ok E (srv_fs v) A Q" and tr: "tree_ok A" and q: "askable C E A (Fuse_readdir path)"
  shows "\<exists>r v'. do_oper C uid gid t (server_peer E L H False) (Fuse_readdir path) (Some v) = Inr (r, Some v') \<and>
    answers C A (Fuse_readdir path) r \<and> store_ok E (srv_fs v') A Q"
proof -
  have p: "cpath path" "is_valid_path E path" "walks_dirs A (tokens slash path) 0" using q by simp_all
  have none: ?thesis if "case walk A (tokens slash path) 0 of None \<Rightarrow> \<exists>i. A 0 = Some i
      | Some m \<Rightarrow> \<exists>q bs. A m = Some (File q bs)"
  proof -
    note no = that
    obtain v' where "do_readdir C t (server_peer E L H False) path (Some v) =
        Inr (- ENOENT, [lit ''.'', lit ''..''], Some v')" "store_ok E (srv_fs v') A Q"
      using do_readdir_none [OF st p no] by blast
    then show ?thesis using no by (auto split: option.splits)
  qed
  show ?thesis
  proof (cases "walk A (tokens slash path) 0")
    case None
    then show ?thesis using none tree_okD(1) [OF tr] by auto
  next
    case (Some m)
    obtain i where i: "A m = Some i" using tree_walk_live [OF tr Some] .
    show ?thesis
    proof (cases i)
      case (Dir p' es)
      then have A: "A m = Some (Dir p' es)" using i by simp
      obtain v' where "do_readdir C t (server_peer E L H False) path (Some v) =
          Inr (0, [lit ''.'', lit ''..''] @ map fst es, Some v')" "store_ok E (srv_fs v') A Q"
        using do_readdir_lists [OF st p(1,2) Some A] by blast
      then show ?thesis using Some A by simp
    next
      case (File p' bs)
      then show ?thesis using none Some i by simp
    qed
  qed
qed

lemma read_answered:
  assumes ptr: "sizeof_ptr E = 4" and off: "off_ok C E" and st: "store_ok E (srv_fs v) A Q"
    and q: "askable C E A (Fuse_read path buffer count off fh)"
  shows "\<exists>r v'. do_oper C uid gid t (server_peer E L H False) (Fuse_read path buffer count off fh) (Some v) =
      Inr (r, Some v') \<and>
    answers C A (Fuse_read path buffer count off fh) r \<and> store_ok E (srv_fs v') A Q"
proof (cases "correct_path C path")
  case False
  then show ?thesis using st by (simp add: do_read_def)
next
  case True
  then obtain p bs where r: "A (unat fh) = Some (File p bs)" "0 \<le> off" "off < 2 ^ 31" "bs \<noteq> []" "length bs < 2 ^ 31"
    and c: "count \<le> length buffer" "count < 2 ^ 31"
    using q by auto
  have w: "wire_ok C E" using off by (simp add: off_ok_def)
  have n: "nat off < 2 ^ 31" and o: "int (nat off) = off" using r(2,3) by simp_all
  have h: "of_nat (unat fh) = fh" by simp
  obtain v' where "do_read C t (server_peer E L H False) path buffer count off fh (Some v) =
      Inr (int (min count (length bs - nat off)), memput buffer 0 (take count (drop (nat off) bs)), Some v')"
      "store_ok E (srv_fs v') A Q"
    using do_read_file [OF st ptr w r(1) True r(4) n r(5) c(2,1), of t L H] unfolding o h by blast
  then show ?thesis using r(1) True by simp
qed

lemma release_answered:
  assumes st: "store_ok E (srv_fs v) A Q" and q: "askable C E A (Fuse_release path fh)"
  shows "\<exists>r v'. do_oper C uid gid t (server_peer E L H False) (Fuse_release path fh) (Some v) = Inr (r, Some v') \<and>
    answers C A (Fuse_release path fh) r \<and> store_ok E (srv_fs v') A Q"
proof (cases "correct_path C path")
  case False
  then show ?thesis using st by (simp add: do_release_def result_def)
next
  case True
  then have "do_release C t (server_peer E L H False) path (of_nat (unat fh)) (Some v) =
      Inr (if 2 \<le> unat fh then 1 else 0, Some (ticks 4 v))"
    using q by (intro do_release_run) simp_all
  then show ?thesis using st True by (simp add: result_def)
qed

lemma query_answered:
  assumes "sizeof_ptr E = 4" and "off_ok C E" and "store_ok E (srv_fs v) A Q" and "tree_ok A" and "askable C E A q"
  shows "\<exists>r v'. do_oper C uid gid t (server_peer E L H False) q (Some v) = Inr (r, Some v') \<and>
    answers C A q r \<and> store_ok E (srv_fs v') A Q"
proof (cases q)
  case (Fuse_getattr path)
  with assms show ?thesis using getattr_answered by blast
next
  case (Fuse_readdir path)
  with assms show ?thesis using readdir_answered by blast
next
  case (Fuse_read path buffer count off fh)
  with assms show ?thesis using read_answered by blast
next
  case (Fuse_release path fh)
  with assms show ?thesis using release_answered by blast
next
  case (Fuse_open path)
  with assms show ?thesis by (simp add: do_open_def)
qed (use assms in \<open>simp_all add: do_flush_def do_opendir_def do_access_def\<close>)

end

section \<open>From a formatted disk\<close>

text \<open>
  The states of a server that was started on a formatted disk, after any covered requests of the
  mounted file system, and the tree that the specification gives for those that change it.
\<close>

inductive mounted ::
    "env \<Rightarrow> env \<Rightarrow> t_dir_entry list_ops \<Rightarrow> 'h host \<Rightarrow> 'h srv option \<Rightarrow> afs \<Rightarrow> bool" for C E L H where
  start: "disk_ok s \<Longrightarrow> format_disk E s = Inr (srv_fs v) \<Longrightarrow> mounted C E L H (Some v) [0 \<mapsto> Dir 0 []]"
| call: "mounted C E L H (Some v) A \<Longrightarrow> covered E (srv_fs v) A c \<Longrightarrow> carried c \<Longrightarrow> asks C c rq \<Longrightarrow>
    do_oper C uid gid t (server_peer E L H False) rq (Some v) = Inr (r, w) \<Longrightarrow>
    mounted C E L H w (snd (effect (first_free E (srv_fs v)) c A))"
| query: "mounted C E L H (Some v) A \<Longrightarrow> askable C E A q \<Longrightarrow>
    do_oper C uid gid t (server_peer E L H False) q (Some v) = Inr (r, w) \<Longrightarrow> mounted C E L H w A"

context commons_lib
begin

lemma mounted_ok:
  assumes libs: "list_lib L" "sizeof_ptr E = 4" and off: "off_ok C E" and m: "mounted C E L H w A"
  shows "\<exists>v Q. w = Some v \<and> store_ok E (srv_fs v) A Q \<and> tree_ok A"
  using m
proof induction
  case (start s v)
  then have "store_ok E (srv_fs v) [0 \<mapsto> Dir 0 []] (\<lambda>_. {})" using format_represents [of s] by auto
  with tree_root show ?case by blast
next
  case (call v A c rq uid gid t r w)
  then obtain Q where st: "store_ok E (srv_fs v) A Q" and tr: "tree_ok A" by blast
  show ?case
    using fuse_refines [OF libs off st tr call.hyps(2,3,4), of uid gid t H] call.hyps(5)
      effect_tree [OF st tr call.hyps(2)] by auto
next
  case (query v A q uid gid t r w)
  then show ?case using query_answered [OF libs(2) off, of v A _ q uid gid t L H] by fastforce
qed

end

end
