(* ===== verification/Passthrough.thy ===== *)
theory Passthrough
  imports Mount
begin

text \<open>
  The server in its Linux mode: a request of FUSE becomes one call of the host on the same path
  below the base directory, and the status of that call is the reply. What the client answers alone,
  and what becomes of a read that the host refuses, are at the end.
\<close>

section \<open>What a request asks of the host\<close>

text \<open>
  The call of the host for a request, with what the messages can carry of it: the status and the
  state of the host afterwards. A directory is made with the mode 0777 whatever is asked for.
\<close>

inductive host_does :: "env \<Rightarrow> 'h host \<Rightarrow> fuse_request \<Rightarrow> 'h \<Rightarrow> int \<Rightarrow> 'h \<Rightarrow> bool" for C H where
  mkdir: "cpath p \<Longrightarrow> host_mkdir H (BASE_PATH @ p) h = (i, h') \<Longrightarrow> host_does C H (Fuse_mkdir p mode) h i h'"
| create: "cpath p \<Longrightarrow> host_open H (BASE_PATH @ p) 577 h = (i, h') \<Longrightarrow> host_does C H (Fuse_create p) h i h'"
| opened: "cpath p \<Longrightarrow> correct_path C p \<Longrightarrow> host_open H (BASE_PATH @ p) 66 h = (i, h') \<Longrightarrow>
    host_does C H (Fuse_open p) h i h'"
| written: "n < 32768 \<Longrightarrow> off + length data < 2 ^ 31 \<Longrightarrow> host_write H (int n) data (int off) h = (i, h') \<Longrightarrow>
    host_does C H (Fuse_write data (length data) (int off) (of_nat n)) h i h'"
| unlink: "cpath p \<Longrightarrow> host_remove H (BASE_PATH @ p) h = (i, h') \<Longrightarrow> host_does C H (Fuse_unlink p) h i h'"
| rmdir: "cpath p \<Longrightarrow> p \<noteq> lit ''.'' \<Longrightarrow> p \<noteq> lit ''..'' \<Longrightarrow> host_rmdir H (BASE_PATH @ p) h = (i, h') \<Longrightarrow>
    host_does C H (Fuse_rmdir p) h i h'"
| rename: "cpath p \<Longrightarrow> cpath q \<Longrightarrow> host_rename H (BASE_PATH @ p) (BASE_PATH @ q) h = (i, h') \<Longrightarrow>
    host_does C H (Fuse_rename p q) h i h'"
| truncate: "cpath p \<Longrightarrow> l < 2 ^ 31 \<Longrightarrow> host_truncate H (BASE_PATH @ p) (int l) h = (i, h') \<Longrightarrow>
    host_does C H (Fuse_truncate p (int l)) h i h'"
| release: "n < 32768 \<Longrightarrow> correct_path C p \<Longrightarrow> host_close H (int n) h = (i, h') \<Longrightarrow>
    host_does C H (Fuse_release p (of_nat n)) h i h'"

text \<open>The reply: a descriptor for the two that open a file, the status for the rest, -2 as ENOTEMPTY.\<close>

fun status_reply :: "fuse_request \<Rightarrow> int \<Rightarrow> fuse_reply" where
  "status_reply (Fuse_create p) i = (if i < 0 then Handle (- EACCES) None else Handle 0 (Some (word_of_int i)))"
| "status_reply (Fuse_open p) i = (if i < 0 then Handle (- EACCES) None else Handle 0 (Some (word_of_int i)))"
| "status_reply (Fuse_rmdir p) i = Result (if i = - 2 then - ENOTEMPTY else i)"
| "status_reply rq i = Result i"

section \<open>Executing in Linux mode\<close>

lemma on_host_status:
  "f (srv_host w) = (i, h') \<Longrightarrow> on_host (\<lambda>h. local_status (f h)) w = Inr (create_default_package i, w\<lparr>srv_host := h'\<rparr>)"
  by (simp add: on_host_def local_status_def)

lemma host_ticks [simp]: "srv_host (ticks n v) = srv_host v"
  by (simp add: ticks_def)

lemmas local_calls = local_open_def [abs_def] local_close_def [abs_def] local_remove_def [abs_def]
  local_mkdir_def [abs_def] local_rmdir_def [abs_def] local_rename_def [abs_def] local_truncate_def [abs_def]

context string_lib
begin

lemma execute_linux:
  assumes "is_cstr p"
  shows "host_open H (BASE_PATH @ p) (sint (word_of_int m :: u16)) (srv_host w) = (i, h') \<Longrightarrow>
      execute E L H True (call IDENTIFIER_OPEN [p @ [0], mode_bytes m]) w =
        Some (Inr (create_default_package i, w\<lparr>srv_host := h'\<rparr>))"
    and "host_remove H (BASE_PATH @ p) (srv_host w) = (i, h') \<Longrightarrow>
      execute E L H True (call IDENTIFIER_REMOVE [p @ [0]]) w =
        Some (Inr (create_default_package i, w\<lparr>srv_host := h'\<rparr>))"
    and "host_mkdir H (BASE_PATH @ p) (srv_host w) = (i, h') \<Longrightarrow>
      execute E L H True (call IDENTIFIER_MKDIR [p @ [0], b]) w =
        Some (Inr (create_default_package i, w\<lparr>srv_host := h'\<rparr>))"
    and "host_rmdir H (BASE_PATH @ p) (srv_host w) = (i, h') \<Longrightarrow>
      execute E L H True (call IDENTIFIER_RMDIR [p @ [0]]) w =
        Some (Inr (create_default_package i, w\<lparr>srv_host := h'\<rparr>))"
    and "is_cstr q \<Longrightarrow> host_rename H (BASE_PATH @ p) (BASE_PATH @ q) (srv_host w) = (i, h') \<Longrightarrow>
      execute E L H True (call IDENTIFIER_RENAME [p @ [0], q @ [0]]) w =
        Some (Inr (create_default_package i, w\<lparr>srv_host := h'\<rparr>))"
    and "0 < sizeof_off_t E \<Longrightarrow> sizeof_off_t E \<le> 8 \<Longrightarrow>
      host_truncate H (BASE_PATH @ p) (to_off_t E n) (srv_host w) = (i, h') \<Longrightarrow>
      execute E L H True (call IDENTIFIER_TRUNCATE [p @ [0], off_bytes (sizeof_off_t E) n]) w =
        Some (Inr (create_default_package i, w\<lparr>srv_host := h'\<rparr>))"
  using assms by (simp_all add: execute_def Let_def call_args local_calls real_path on_host_status)

lemma execute_linux_fd:
  "host_close H (fd mod 65536) (srv_host w) = (i, h') \<Longrightarrow>
    execute E L H True (call IDENTIFIER_CLOSE [fd_bytes fd]) w =
      Some (Inr (create_default_package i, w\<lparr>srv_host := h'\<rparr>))"
  "n mod 4294967296 \<le> length b \<Longrightarrow>
   host_write H (fd mod 65536) (take (n mod 4294967296) b) (to_off_t E (off mod 4294967296)) (srv_host w) = (i, h') \<Longrightarrow>
    execute E L H True (call IDENTIFIER_WRITE [fd_bytes fd, b, count_bytes n, offset_bytes off]) w =
      Some (Inr (create_default_package i, w\<lparr>srv_host := h'\<rparr>))"
  by (simp_all add: execute_def Let_def call_args local_calls local_write_def on_host_def local_status_def)

section \<open>Every request is the call of the host\<close>

text \<open>A request for one path, and what it logs.\<close>

lemma linux_open:
  assumes p: "cpath p" and f: "to_int flags = flags" "sint (word_of_int flags :: u16) = flags"
    and i: "- (2 ^ 31) \<le> i" "i < 2 ^ 31"
    and h: "host_open H (BASE_PATH @ p) flags (srv_host v) = (i, h')"
  shows "open_with C t (server_peer E L H True) p flags (Some v) =
    Inr (if i < 0 then - EACCES else 0, if i < 0 then None else Some (word_of_int i), Some ((ticks 4 v)\<lparr>srv_host := h'\<rparr>))"
proof -
  have c: "is_cstr p" "path_fits p" using p by (simp_all add: cpath_def)
  have "host_open H (BASE_PATH @ p) (sint (word_of_int flags :: u16)) (srv_host (ticks 4 v)) = (i, h')"
    unfolding f(2) using h by (simp add: ticks_def)
  note ex = execute_linux(1) [OF c(1) this]
  have "simple_call C t (server_peer E L H True) IDENTIFIER_OPEN p [] flags 0 0 (Some v) =
      Inr (i, Some ((ticks 4 v)\<lparr>srv_host := h'\<rparr>))"
  proof (rule open_msg.status_called [where x = "(p, flags)", unfolded prod.case])
    show "serialize_function C t IDENTIFIER_OPEN p [] flags 0 0 = serialize_open C t p flags"
      by (simp add: serialize_function_def f(1))
    show "log_function_call (call IDENTIFIER_OPEN [p @ [0], mode_bytes flags]) =
        Inr (''open'', [Log_s p, Log_d (sint (word_of_int flags :: u16))])"
      by (rule log_path(1) [OF c(1)])
  qed (fact c ex i TrueI)+
  then show ?thesis by (simp add: open_with_def)
qed

lemma linux_path:
  assumes p: "cpath p" and i: "- (2 ^ 31) \<le> i" "i < 2 ^ 31"
  shows "host_mkdir H (BASE_PATH @ p) (srv_host v) = (i, h') \<Longrightarrow>
      simple_call C t (server_peer E L H True) IDENTIFIER_MKDIR p [] mode 0 0 (Some v) =
        Inr (i, Some ((ticks 4 v)\<lparr>srv_host := h'\<rparr>))"
    and "host_remove H (BASE_PATH @ p) (srv_host v) = (i, h') \<Longrightarrow>
      simple_call C t (server_peer E L H True) IDENTIFIER_REMOVE p [] 0 0 0 (Some v) =
        Inr (i, Some ((ticks 4 v)\<lparr>srv_host := h'\<rparr>))"
    and "host_rmdir H (BASE_PATH @ p) (srv_host v) = (i, h') \<Longrightarrow>
      simple_call C t (server_peer E L H True) IDENTIFIER_RMDIR p [] 0 0 0 (Some v) =
        Inr (i, Some ((ticks 4 v)\<lparr>srv_host := h'\<rparr>))"
    and "cpath q \<Longrightarrow> host_rename H (BASE_PATH @ p) (BASE_PATH @ q) (srv_host v) = (i, h') \<Longrightarrow>
      simple_call C t (server_peer E L H True) IDENTIFIER_RENAME p q 0 0 0 (Some v) =
        Inr (i, Some ((ticks 4 v)\<lparr>srv_host := h'\<rparr>))"
proof -
  have c: "is_cstr p" "path_fits p" using p by (simp_all add: cpath_def)
  show "simple_call C t (server_peer E L H True) IDENTIFIER_MKDIR p [] mode 0 0 (Some v) =
        Inr (i, Some ((ticks 4 v)\<lparr>srv_host := h'\<rparr>))"
    if "host_mkdir H (BASE_PATH @ p) (srv_host v) = (i, h')"
    using c i that
    by (intro mkdir_msg.status_called [where x = "(p, to_int mode)"])
      (simp_all add: serialize_function_def log_path execute_linux)
  show "simple_call C t (server_peer E L H True) IDENTIFIER_REMOVE p [] 0 0 0 (Some v) =
        Inr (i, Some ((ticks 4 v)\<lparr>srv_host := h'\<rparr>))"
    if "host_remove H (BASE_PATH @ p) (srv_host v) = (i, h')"
    using c i that
    by (intro remove_msg.status_called [where x = p])
      (simp_all add: serialize_function_def log_path execute_linux)
  show "simple_call C t (server_peer E L H True) IDENTIFIER_RMDIR p [] 0 0 0 (Some v) =
        Inr (i, Some ((ticks 4 v)\<lparr>srv_host := h'\<rparr>))"
    if "host_rmdir H (BASE_PATH @ p) (srv_host v) = (i, h')"
    using c i that
    by (intro rmdir_msg.status_called [where x = p])
      (simp_all add: serialize_function_def log_path execute_linux)
  show "simple_call C t (server_peer E L H True) IDENTIFIER_RENAME p q 0 0 0 (Some v) =
        Inr (i, Some ((ticks 4 v)\<lparr>srv_host := h'\<rparr>))"
    if "cpath q" "host_rename H (BASE_PATH @ p) (BASE_PATH @ q) (srv_host v) = (i, h')"
    using c i that
    by (intro rename_msg.status_called [where x = "(p, q)"])
      (simp_all add: serialize_function_def cpath_def log_rename execute_linux)
qed

lemma linux_truncate:
  assumes p: "cpath p" and w: "off_ok C E" and l: "l < 2 ^ 31" and i: "- (2 ^ 31) \<le> i" "i < 2 ^ 31"
    and h: "host_truncate H (BASE_PATH @ p) (int l) (srv_host v) = (i, h')"
  shows "simple_call C t (server_peer E L H True) IDENTIFIER_TRUNCATE p [] (int l) 0 0 (Some v) =
    Inr (i, Some ((ticks 4 v)\<lparr>srv_host := h'\<rparr>))"
proof -
  have o: "to_off_t C (int l) = int l" "to_off_t E (int l) = int l" "0 < sizeof_off_t E" "4 \<le> sizeof_off_t E"
      "sizeof_off_t E \<le> 8"
    using w l by (simp_all add: off_ok_def wire_ok_def to_off_t_small)
  have c: "is_cstr p" "path_fits p" using p by (simp_all add: cpath_def)
  have h4: "host_truncate H (BASE_PATH @ p) (to_off_t E (int l)) (srv_host (ticks 4 v)) = (i, h')"
    unfolding o(2) using h by simp
  note ex = execute_linux(6) [OF c(1) o(3,5) h4]
  have ln: "path_fits p \<and> sizeof_off_t C \<le> 8" and off: "sizeof_off_t E \<le> sizeof_off_t C"
    using c w by (simp_all add: off_ok_def)
  show ?thesis
  proof (rule truncate_msg.status_called [where x = "(p, int l)", unfolded prod.case])
    show "serialize_function C t IDENTIFIER_TRUNCATE p [] (int l) 0 0 = serialize_truncate C t p (int l)"
      by (simp add: serialize_function_def o(1))
    show "log_function_call (call IDENTIFIER_TRUNCATE [p @ [0], off_bytes (sizeof_off_t E) (int l)]) =
        Inr (''truncate'', [Log_s p, Log_d (int (unat (le_dec (take 4 (off_bytes (sizeof_off_t E) (int l))) :: u32)))])"
      by (rule log_truncate [OF c(1) o(4)])
  qed (fact ln off ex i)+
qed

lemma linux_write:
  assumes n: "n < 32768" and w: "wire_ok C E" and l: "off + length data < 2 ^ 31" and i: "- (2 ^ 31) \<le> i" "i < 2 ^ 31"
    and h: "host_write H (int n) data (int off) (srv_host v) = (i, h')"
  shows "do_write C t (server_peer E L H True) data (length data) (int off) (of_nat n) (Some v) =
    Inr (i, Some ((ticks 4 v)\<lparr>srv_host := h'\<rparr>))"
proof -
  let ?c = "length data"
  have c: "int ?c < 2 ^ 31" "int off < 2 ^ 31" "?c + 10 < 2 ^ 32" using l by simp_all
  have ser: "serialize_function C t IDENTIFIER_WRITE data [] (fh_int (of_nat n)) (int ?c) (int off) =
      (\<lambda>(fd, buffer, count, offset). serialize_write C t fd buffer count offset) (int n, data, ?c, int off)"
    using n c w small_ints(1) [of "int n"] small_ints(2) [of ?c C E] small_ints(3) [of "int off" C E]
    by (simp add: serialize_function_def fh_small)
  have md: "int n mod 65536 = int n" "?c mod 4294967296 = ?c" "int off mod 4294967296 = int off"
      "to_off_t E (int off) = int off"
    using n c small_ints(3) [of "int off" C E] w by simp_all
  have "host_write H (int n mod 65536) (take (?c mod 4294967296) (take ?c data))
      (to_off_t E (int off mod 4294967296)) (srv_host (ticks 4 v)) = (i, h')"
    unfolding md using h by simp
  from execute_linux_fd(2) [OF _ this, of L]
  have ex: "execute E L H True (call IDENTIFIER_WRITE [fd_bytes (int n), take ?c data, count_bytes ?c, offset_bytes (int off)])
      (ticks 4 v) = Some (Inr (create_default_package i, (ticks 4 v)\<lparr>srv_host := h'\<rparr>))"
    unfolding md by simp
  have sent: "sizeof_size_t C = 4 \<and> ?c \<le> length data \<and> ?c + 10 < 2 ^ 32"
    using c w by (simp add: wire_ok_def)
  show ?thesis
    unfolding do_write_def
    by (rule write_msg.status_called [OF ser, unfolded prod.case, OF sent TrueI log_descriptor(2) ex i])
qed

lemma linux_release:
  assumes n: "n < 32768" and p: "correct_path C path" and i: "- (2 ^ 31) \<le> i" "i < 2 ^ 31"
    and h: "host_close H (int n) (srv_host v) = (i, h')"
  shows "do_release C t (server_peer E L H True) path (of_nat n) (Some v) = Inr (i, Some ((ticks 4 v)\<lparr>srv_host := h'\<rparr>))"
proof -
  have f: "fh_int (of_nat n) = int n" using n by (intro fh_small) simp
  have "host_close H (int n mod 65536) (srv_host (ticks 4 v)) = (i, h')" using n h by simp
  note ex = execute_linux_fd(1) [OF this, of L]
  have "simple_call C t (server_peer E L H True) IDENTIFIER_CLOSE [] [] (int n) 0 0 (Some v) =
      Inr (i, Some ((ticks 4 v)\<lparr>srv_host := h'\<rparr>))"
  proof (rule close_msg.status_called [OF _ TrueI TrueI log_descriptor(1) ex i])
    show "serialize_function C t IDENTIFIER_CLOSE [] [] (int n) 0 0 = serialize_close C t (int n)"
      using n small_ints(1) [of "int n"] by (simp add: serialize_function_def)
  qed
  then show ?thesis using p by (simp add: do_release_def f)
qed

lemma linux_run:
  assumes d: "host_does C H rq (srv_host v) i h'" and w: "off_ok C E" and i: "- (2 ^ 31) \<le> i" "i < 2 ^ 31"
  shows "do_oper C uid gid t (server_peer E L H True) rq (Some v) =
    Inr (status_reply rq i, Some ((ticks 4 v)\<lparr>srv_host := h'\<rparr>))"
  using d
proof cases
  case (mkdir p mode)
  from linux_path(1) [OF this(2) i this(3)] show ?thesis unfolding mkdir(1) by (simp add: do_mkdir_def result_def)
next
  case (create p)
  then show ?thesis using linux_open [of p 577, OF _ _ _ i create(3)] by (simp add: do_create_def to_int_def)
next
  case (opened p)
  then show ?thesis using linux_open [of p 66, OF _ _ _ i opened(4)] by (simp add: do_open_def to_int_def)
next
  case (written n off data)
  then show ?thesis using linux_write [OF written(2) _ written(3) i written(4)] w by (simp add: result_def off_ok_def)
next
  case (unlink p)
  from linux_path(2) [OF this(2) i this(3)] show ?thesis unfolding unlink(1) by (simp add: do_remove_def result_def)
next
  case (rmdir p)
  from linux_path(3) [OF this(2) i this(5)] rmdir(3,4) show ?thesis
    unfolding rmdir(1) by (simp add: do_rmdir_def result_def)
next
  case (rename p q)
  from linux_path(4) [OF this(2) i this(3,4)] show ?thesis unfolding rename(1) by (simp add: do_rename_def result_def)
next
  case (truncate p l)
  from linux_truncate [OF this(2) w this(3) i this(4)] show ?thesis
    unfolding truncate(1) by (simp add: do_truncate_def result_def)
next
  case (release n p)
  from linux_release [OF this(2,3) i this(4)] show ?thesis unfolding release(1) by (simp add: result_def)
qed

end

section \<open>Requests that read\<close>

text \<open>What the client makes of the host's \<open>struct stat\<close>: sizes and numbers in the widths of the message.\<close>

definition client_attributes :: "env \<Rightarrow> nat \<Rightarrow> nat \<Rightarrow> host_stat \<Rightarrow> client_stat" where
  "client_attributes C uid gid st =
     \<lparr>cs_mode = (if S_ISDIR (hs_mode st) then 0x41FF else 0x81FF), cs_nlink = (if S_ISDIR (hs_mode st) then 2 else 1),
      cs_uid = uid, cs_gid = gid, cs_ino = of_nat (hs_ino st), cs_size = word_of_int (hs_size st),
      cs_mtime = to_time_t C (word_of_int (hs_mtime st)), cs_ctime = to_time_t C (word_of_int (hs_ctime st)),
      cs_atime = to_time_t C (word_of_int (hs_mtime st))\<rparr>"

text \<open>
  The call of the host behind a request that reads, when it succeeds or, for \<open>stat\<close>, fails (a failed
  \<open>opendir\<close> stops the server, a failed \<open>read\<close> the client), and the answer. The names of the host come after the two
  that the client adds.
\<close>

inductive host_reads :: "env \<Rightarrow> env \<Rightarrow> nat \<Rightarrow> nat \<Rightarrow> 'h host \<Rightarrow> fuse_request \<Rightarrow> 'h \<Rightarrow> fuse_reply \<Rightarrow> 'h \<Rightarrow> bool"
  for C E uid gid H where
  attributes: "cpath p \<Longrightarrow> correct_path C p \<Longrightarrow> \<forall>t. slack E t \<Longrightarrow>
    host_stat_of H (BASE_PATH @ p) h = (0, st, h') \<Longrightarrow>
    host_reads C E uid gid H (Fuse_getattr p) h (Attributes 0 (Some (client_attributes C uid gid st))) h'"
| missing: "cpath p \<Longrightarrow> correct_path C p \<Longrightarrow> \<forall>t. slack E t \<Longrightarrow>
    host_stat_of H (BASE_PATH @ p) h = (- 1, st, h') \<Longrightarrow>
    host_reads C E uid gid H (Fuse_getattr p) h (Attributes (- ENOENT) None) h'"
| listing: "cpath p \<Longrightarrow> host_readdir H (BASE_PATH @ p) h = (Some names, h') \<Longrightarrow> \<forall>nm \<in> set names. cpath nm \<Longrightarrow>
    length (names_bytes names) < 2 ^ 32 \<Longrightarrow>
    host_reads C E uid gid H (Fuse_readdir p) h (Names 0 ([lit ''.'', lit ''..''] @ names)) h'"
| contents: "n < 32768 \<Longrightarrow> correct_path C p \<Longrightarrow> count < 2 ^ 31 \<Longrightarrow> count \<le> length buffer \<Longrightarrow> off < 2 ^ 31 \<Longrightarrow>
    host_read H (int n) count (int off) h = (int (length bs), bs, h') \<Longrightarrow> length bs \<le> count \<Longrightarrow>
    host_reads C E uid gid H (Fuse_read p buffer count (int off) (of_nat n)) h
      (Data (int (length bs)) (memput buffer 0 bs)) h'"

lemma host_stat_bytes_eq:
  "host_stat_bytes st = stat_bytes \<lparr>st_mode = hs_mode st, st_ino = of_nat (hs_ino st),
     st_size = word_of_int (hs_size st), st_mtime = word_of_int (hs_mtime st), st_ctime = word_of_int (hs_ctime st)\<rparr>"
proof -
  have "(ucast (of_nat (hs_ino st) :: u32) :: u16) = of_nat (hs_ino st)"
    by (simp add: unsigned_of_nat word_of_nat_eq_iff)
  then show ?thesis by (simp add: host_stat_bytes_def stat_bytes_def)
qed

lemma host_stat_read:
  "fill_stat_from_buffer E uid gid t (host_stat_bytes st) = Inr (client_attributes E uid gid st)"
proof -
  have "(ucast (of_nat (hs_ino st) :: u32) :: u16) = of_nat (hs_ino st)"
    by (simp add: unsigned_of_nat word_of_nat_eq_iff)
  then show ?thesis by (simp add: host_stat_bytes_eq stat_bytes_read client_attributes_def)
qed

lemma execute_linux_read:
  "execute E L H True (call IDENTIFIER_READ [fd_bytes fd, count_bytes n, offset_bytes off]) w =
    Some (on_host (local_read E (tick (srv_fs w)) H (fd mod 65536) (n mod 4294967296)
      (to_off_t E (off mod 4294967296))) w)"
  by (simp add: execute_def Let_def call_args)

lemma linux_contents:
  assumes w: "wire_ok C E" and n: "n < 32768" and p: "correct_path C path"
    and c: "count < 2 ^ 31" "count \<le> length buffer" and off: "off < 2 ^ 31"
    and h: "host_read H (int n) count (int off) (srv_host v) = (int (length bs), bs, h')" and bs: "length bs \<le> count"
  shows "do_read C t (server_peer E L H True) path buffer count (int off) (of_nat n) (Some v) =
    Inr (int (length bs), memput buffer 0 bs, Some ((ticks 4 v)\<lparr>srv_host := h'\<rparr>))"
proof -
  let ?d = "memput (malloc E (tick (srv_fs (ticks 4 v))) count) 0 bs" and ?v = "(ticks 4 v)\<lparr>srv_host := h'\<rparr>"
  let ?resp = "\<lparr>message_id = 0, pkg_size = of_nat (length bs), pkg_data = ?d\<rparr> :: t_package"
  have i: "int n < 2 ^ 31" "int count < 2 ^ 31" "int off < 2 ^ 31" "length bs < 2 ^ 32" using n c off bs by simp_all
  have md: "int n mod 65536 = int n" "count mod 4294967296 = count" "int off mod 4294967296 = int off"
      "to_off_t E (int off) = int off"
    using n c i small_ints(3) [of "int off" C E] w by simp_all
  have dl: "length ?d = count" "take (length bs) ?d = bs"
    using bs by (simp_all add: length_memput) (simp add: memput_def)
  have sz: "unat (of_nat (length bs) :: u32) = length bs" using i(4) by (intro unat_of_nat_small) simp
  have ex: "execute E L H True (call IDENTIFIER_READ [fd_bytes (int n), count_bytes count, offset_bytes (int off)])
      (ticks 4 v) = Some (Inr (?resp, ?v))"
    unfolding execute_linux_read md using h by (simp add: local_read_def on_host_def)
  have call: "send_function C t (server_peer E L H True) IDENTIFIER_READ [] [] (fh_int (of_nat n)) (int count) (int off) (Some v) =
      Inr (trim ?resp, Some ?v)"
  proof (rule read_called [OF _ TrueI TrueI log_descriptor(3) ex])
    show "serialize_function C t IDENTIFIER_READ [] [] (fh_int (of_nat n)) (int count) (int off) =
        serialize_read C t (int n) count (int off)"
      using n c i w small_ints(1) [of "int n"] small_ints(2) [of count C E] small_ints(3) [of "int off" C E]
      by (simp add: serialize_function_def fh_small)
  qed (simp add: sz dl(1) bs)
  have tr: "trim ?resp = \<lparr>message_id = 0, pkg_size = of_nat (length bs), pkg_data = bs\<rparr>"
    using sz dl(2) by (simp add: trim_def)
  have "sint (of_nat (length bs) :: u32) = int (length bs)"
    using bs c(1) int_word_sint [of "int (length bs)", where 'a = 32] by simp
  then show ?thesis
    unfolding do_read_def call tr using p sz bs c(2) by (simp add: mem_write_in)
qed

context string_lib
begin

lemma execute_linux_query:
  assumes "is_cstr p"
  shows "execute E L H True (call IDENTIFIER_STAT [p @ [0], b]) w = Some (on_host (local_stat E H p) w)"
    and "execute E L H True (call IDENTIFIER_READDIR [p @ [0]]) w =
      Some (on_host (local_readdir E (tick (srv_fs w)) H p) w)"
  using assms by (simp_all add: execute_def Let_def call_args)

lemma linux_getattr:
  assumes p: "cpath p" "correct_path C p" and sl: "slack E (tick (srv_fs v) + 3)"
    and h: "host_stat_of H (BASE_PATH @ p) (srv_host v) = (i, st, h')" and i: "i = 0 \<or> i = - 1"
  shows "do_getattr C uid gid t (server_peer E L H True) p (Some v) =
    Inr (if i = 0 then 0 else - ENOENT, if i = 0 then Some (client_attributes C uid gid st) else None,
      Some ((ticks 4 v)\<lparr>srv_host := h'\<rparr>))"
proof -
  let ?resp = "if i = 0 then (create_default_package i)\<lparr>pkg_size := 24, pkg_data := host_stat_bytes st\<rparr>
    else create_default_package i"
  let ?v = "(ticks 4 v)\<lparr>srv_host := h'\<rparr>"
  have "on_host (local_stat E H p) (ticks 4 v) = Inr (?resp, ?v)"
    using h i by (auto simp: on_host_def local_stat_def real_path)
  moreover have "complete ?resp" using i by (auto simp: complete_def host_stat_bytes_def create_default_package_def)
  ultimately have c: "send_function C t (server_peer E L H True) IDENTIFIER_STAT p [] 0 0 0 (Some v) = Inr (?resp, Some ?v)"
    using p sl
    by (intro stat_msg.called [where x = p])
      (simp_all add: serialize_function_def cpath_def log_path execute_linux_query slack_def)
  have "result_of ?resp = result_of (create_default_package i)" by (simp add: result_of_def create_default_package_def)
  then have "result_of ?resp = i" using result_default [of i] i by auto
  then show ?thesis using c p(2) i by (auto simp: do_getattr_def host_stat_read)
qed

lemma linux_listing:
  assumes p: "cpath p" and h: "host_readdir H (BASE_PATH @ p) (srv_host v) = (Some ns, h')"
    and ns: "\<forall>nm \<in> set ns. cpath nm" "length (names_bytes ns) < 2 ^ 32"
  shows "do_readdir C t (server_peer E L H True) p (Some v) =
    Inr (0, [lit ''.'', lit ''..''] @ ns, Some ((ticks 4 v)\<lparr>srv_host := h'\<rparr>))"
proof -
  let ?resp = "\<lparr>message_id = 0, pkg_size = of_nat (length (names_bytes ns)), pkg_data = names_bytes ns\<rparr>"
  let ?v = "(ticks 4 v)\<lparr>srv_host := h'\<rparr>"
  have n: "unat (of_nat (length (names_bytes ns)) :: u32) = length (names_bytes ns)"
    using ns(2) by (intro unat_of_nat_small) simp
  have "append_entries E (tick (srv_fs (ticks 4 v))) (create_default_package 0) (map Some ns) = Inr ?resp"
    using append_entries_spec [of ns "[]" "create_default_package 0" 0 E "tick (srv_fs (ticks 4 v))"] ns
    by (simp add: create_default_package_def cpath_def)
  then have "on_host (local_readdir E (tick (srv_fs (ticks 4 v))) H p) (ticks 4 v) = Inr (?resp, ?v)"
    using h by (simp add: on_host_def local_readdir_def real_path)
  moreover have "complete ?resp" using n by (simp add: complete_def)
  ultimately have c: "send_function C t (server_peer E L H True) IDENTIFIER_READDIR p [] 0 0 0 (Some v) = Inr (?resp, Some ?v)"
    using p
    by (intro readdir_msg.called [where x = p])
      (simp_all add: serialize_function_def cpath_def log_path execute_linux_query)
  have "read_names C (t + 2) (names_bytes ns) (length (names_bytes ns)) 0 = Inr ns"
    using read_names_spec [OF ns(1), of "length (names_bytes ns)" "[]" C "t + 2"] by simp
  then show ?thesis using c n by (simp add: do_readdir_def)
qed

lemma linux_query:
  assumes d: "host_reads C E uid gid H rq (srv_host v) r h'" and w: "off_ok C E"
  shows "do_oper C uid gid t (server_peer E L H True) rq (Some v) = Inr (r, Some ((ticks 4 v)\<lparr>srv_host := h'\<rparr>))"
  using d
proof cases
  case (attributes p st)
  then show ?thesis using linux_getattr [OF attributes(3,4) _ attributes(6)] by simp
next
  case (missing p st)
  then show ?thesis using linux_getattr [OF missing(3,4) _ missing(6)] by simp
next
  case (listing p names)
  then show ?thesis using linux_listing [OF listing(3,4,5,6)] by simp
next
  case (contents n p count buffer off bs)
  then show ?thesis
    using linux_contents [OF _ contents(3-7) contents(8,9)] w by (simp add: off_ok_def)
qed

end

section \<open>Requests that the client answers alone\<close>

text \<open>
  Flush, opendir and access, and what is asked of a path that the client hides: no message is sent,
  and the server, in either mode, is not touched.
\<close>

inductive client_only :: "env \<Rightarrow> fuse_request \<Rightarrow> fuse_reply \<Rightarrow> bool" for C where
  flush: "client_only C Fuse_flush (Result 0)"
| opendir: "client_only C Fuse_opendir (Result 0)"
| access: "client_only C Fuse_access (Result 0)"
| hidden_getattr: "\<not> correct_path C p \<Longrightarrow> client_only C (Fuse_getattr p) (Attributes 0 None)"
| hidden_open: "\<not> correct_path C p \<Longrightarrow> client_only C (Fuse_open p) (Handle 0 None)"
| hidden_read: "\<not> correct_path C p \<Longrightarrow> client_only C (Fuse_read p buffer count off fh) (Data 0 buffer)"
| hidden_release: "\<not> correct_path C p \<Longrightarrow> client_only C (Fuse_release p fh) (Result 0)"

lemma client_only_run: "client_only C rq r \<Longrightarrow> do_oper C uid gid t P rq w = Inr (r, w)"
  by (induction rule: client_only.induct)
     (simp_all add: do_flush_def do_opendir_def do_access_def do_getattr_def do_open_def do_read_def do_release_def
       result_def)

section \<open>A read that fails\<close>

text \<open>
  The -1 of a failed \<open>read\<close> is stored as the size of the answer, 4294967295 bytes, of a buffer that
  has as many as were asked for. The server does not notice; the client copies as many bytes to the
  caller's buffer.
\<close>

lemma minus_one_word: "(- 1 :: u32) = 4294967295"
  by (simp add: word_unat_eq_iff unsigned_minus_1_eq_mask mask_eq_exp_minus_1)

lemma linux_read_answer:
  assumes w: "wire_ok C E" and n: "n < 32768" and c: "count < 2 ^ 31" and off: "off < 2 ^ 31"
    and h: "host_read H (int n) count (int off) (srv_host v) = (- 1, bs, h')"
  shows "\<exists>p d. serialize_read C t (int n) count (int off) = Inr p \<and>
    attend_connection E L H True (hello @ send_package C p @ rest) v =
      Some (Inr (le_enc 8 (0 :: u64) @ le_enc 4 (4294967295 :: u32) @ d, (ticks 4 v)\<lparr>srv_host := h'\<rparr>))"
proof -
  let ?x = "(int n, count, int off)"
  have md: "int n mod 65536 = int n" "count mod 4294967296 = count" "int off mod 4294967296 = int off"
      "to_off_t E (int off) = int off"
    using n c off small_ints(3) [of "int off" C E] w by simp_all
  obtain p where p: "serialize_read C t (int n) count (int off) = Inr p"
    using read_msg.delivered [where E = C and x = ?x and E' = E and t = t and t' = 0 and rest = "[]"] by auto
  have ser: "(\<lambda>(fd, count, offset). serialize_read C t fd count offset) ?x = Inr p" using p by simp
  let ?f = "call IDENTIFIER_READ [fd_bytes (int n), count_bytes count, offset_bytes (int off)]"
  let ?resp = "\<lparr>message_id = 0, pkg_size = - 1,
      pkg_data = memput (malloc E (tick (srv_fs (ticks 4 v))) count) 0 bs\<rparr> :: t_package"
  have ex: "execute E L H True ?f (ticks 4 v) = Some (Inr (?resp, (ticks 4 v)\<lparr>srv_host := h'\<rparr>))"
    unfolding execute_linux_read md using h by (simp add: local_read_def on_host_def)
  have "attend_connection E L H True (hello @ send_package C p @ rest) v = answer E (execute E L H True ?f (ticks 4 v))"
    using read_msg.attended [OF TrueI ser refl TrueI, unfolded prod.case, OF log_descriptor(3)] .
  also have "\<dots> = Some (Inr (send_package E ?resp, (ticks 4 v)\<lparr>srv_host := h'\<rparr>))"
    unfolding ex answer_def by simp
  also have "send_package E ?resp = le_enc 8 (0 :: u64) @ le_enc 4 (4294967295 :: u32) @
      (if (0 :: u32) < - 1 then send_bytes E (pkg_data ?resp) (unat (pkg_size ?resp)) else [])"
    unfolding send_package_def by (simp add: minus_one_word)
  finally show ?thesis using p by blast
qed

lemma receive_header:
  "message_id (fst (receive_package E t (le_enc 8 i @ le_enc 4 n @ d))) = i"
  "pkg_size (fst (receive_package E t (le_enc 8 i @ le_enc 4 n @ d))) = n"
  "length (pkg_data (fst (receive_package E t (le_enc 8 i @ le_enc 4 n @ d)))) = unat n"
proof -
  have "recv (map (uninit E t) [0..<8]) (le_enc 8 i @ le_enc 4 n @ d) = (le_enc 8 i, le_enc 4 n @ d)"
    and "recv (map (uninit E t) [8..<12]) (le_enc 4 n @ d) = (le_enc 4 n, d)"
    by (simp_all add: recv_all)
  note r = receive_package_def this Let_def prod.case u32le.decode [OF TrueI] u64le.decode [OF TrueI]
  show "message_id (fst (receive_package E t (le_enc 8 i @ le_enc 4 n @ d))) = i"
    and "pkg_size (fst (receive_package E t (le_enc 8 i @ le_enc 4 n @ d))) = n"
    and "length (pkg_data (fst (receive_package E t (le_enc 8 i @ le_enc 4 n @ d)))) = unat n"
    unfolding r by (auto simp: recv_def malloc_def length_memput)
qed

lemma linux_read_overrun:
  assumes w: "wire_ok C E" and n: "n < 32768" and c: "count < 2 ^ 31" and off: "off < 2 ^ 31"
    and h: "host_read H (int n) count (int off) (srv_host v) = (- 1, bs, h')"
    and path: "correct_path C path" and buf: "length buffer < 2 ^ 31"
  shows "do_read C t (server_peer E L H True) path buffer count (int off) (of_nat n) (Some v) = Inl Overrun"
proof -
  obtain p d where p: "serialize_read C t (int n) count (int off) = Inr p"
      "attend_connection E L H True (hello @ send_package C p @ []) v =
        Some (Inr (le_enc 8 (0 :: u64) @ le_enc 4 (4294967295 :: u32) @ d, (ticks 4 v)\<lparr>srv_host := h'\<rparr>))"
    using linux_read_answer [OF w n c off h] by blast
  have ser: "serialize_function C t IDENTIFIER_READ [] [] (fh_int (of_nat n)) (int count) (int off) = Inr p"
    using n c off w small_ints(1) [of "int n"] small_ints(2) [of count C E] small_ints(3) [of "int off" C E] p(1)
    by (simp add: serialize_function_def fh_small)
  let ?r = "fst (receive_package C (Suc t) (le_enc 8 (0 :: u64) @ le_enc 4 (4294967295 :: u32) @ d))"
  have call: "send_function C t (server_peer E L H True) IDENTIFIER_READ [] [] (fh_int (of_nat n)) (int count) (int off)
      (Some v) = Inr (?r, Some ((ticks 4 v)\<lparr>srv_host := h'\<rparr>))"
    using ser p(2) by (simp add: send_function_def server_peer_def send_handshake_spec)
  have l: "length (take (unat (pkg_size ?r)) (pkg_data ?r)) = 4294967295" by (simp add: receive_header)
  have "length buffer < 0 + length (take (unat (pkg_size ?r)) (pkg_data ?r))" unfolding l using buf by simp
  then have "mem_write buffer 0 (take (unat (pkg_size ?r)) (pkg_data ?r)) = Inl Overrun" by (rule mem_write_out)
  then show ?thesis using path by (simp add: do_read_def call)
qed

end
