(* ===== verification/Alloc_Threads.thy ===== *)
theory Alloc_Threads
  imports Bitmap
begin

text \<open>
  \<open>_get_free_block\<close> in several threads: each connection has its own, and nothing locks the bitmap.
  A thread tests one bit in a step, and sets the bit it has found in a later one. Alone, a thread
  does what \<open>get_free_block\<close> says; two threads can be given the same block.
\<close>

section \<open>The step relation\<close>

text \<open>
  Where a thread is in \<open>_get_free_block\<close>: about to test a bit, past the loop with the index of a free
  bit, returned with a block, or in \<open>exit\<close> (or faulted past the end of the array).
\<close>

datatype alloc_pc = Searching nat | Found nat | Returned nat | Stopped

record alloc_state =
  bits :: t_bitarray
  pc :: "nat \<Rightarrow> alloc_pc"

definition goto :: "nat \<Rightarrow> alloc_pc \<Rightarrow> alloc_state \<Rightarrow> alloc_state" where
  "goto i p x = x\<lparr>pc := (pc x)(i := p)\<rparr>"

inductive alloc_step :: "env \<Rightarrow> nat \<Rightarrow> nat \<Rightarrow> alloc_state \<Rightarrow> alloc_state \<Rightarrow> bool" for E to where
  used_bit: "pc x i = Searching b \<Longrightarrow> b < 8 * ba_size (bits x) \<Longrightarrow> bitarray_test_bit E (bits x) b \<Longrightarrow>
    alloc_step E to i x (goto i (Searching (Suc b)) x)"
| free_bit: "pc x i = Searching b \<Longrightarrow> b < 8 * ba_size (bits x) \<Longrightarrow> \<not> bitarray_test_bit E (bits x) b \<Longrightarrow>
    alloc_step E to i x (goto i (Found b) x)"
| past_end: "pc x i = Searching b \<Longrightarrow> 8 * ba_size (bits x) \<le> b \<Longrightarrow>
    alloc_step E to i x (goto i Stopped x)"
| none_left: "pc x i = Found b \<Longrightarrow> to \<le> b \<Longrightarrow> alloc_step E to i x (goto i Stopped x)"
| take: "pc x i = Found b \<Longrightarrow> b < to \<Longrightarrow>
    alloc_step E to i x ((goto i (Returned b) x)\<lparr>bits := bitarray_set_bit E (bits x) b\<rparr>)"

inductive_cases alloc_stepE: "alloc_step E to i x y"

text \<open>The steps of one thread, and those of all.\<close>

abbreviation alone :: "env \<Rightarrow> nat \<Rightarrow> nat \<Rightarrow> alloc_state \<Rightarrow> alloc_state \<Rightarrow> bool" where
  "alone E to i \<equiv> (alloc_step E to i)\<^sup>*\<^sup>*"

definition together :: "env \<Rightarrow> nat \<Rightarrow> alloc_state \<Rightarrow> alloc_state \<Rightarrow> bool" where
  "together E to = (\<lambda>x y. \<exists>i. alloc_step E to i x y)\<^sup>*\<^sup>*"

lemma goto_simps [simp]:
  "pc (goto i p x) = (pc x)(i := p)" "bits (goto i p x) = bits x" "goto i p (goto i q x) = goto i p x"
  by (simp_all add: goto_def)

lemma alone_together: "alone E to i x y \<Longrightarrow> together E to x y"
  unfolding together_def by (rule rtranclp_mono [THEN predicate2D]) auto

section \<open>One thread alone\<close>

definition start_alloc :: "fs \<Rightarrow> nat \<Rightarrow> alloc_state" where
  "start_alloc s from_block_num = \<lparr>bits = bitmap s, pc = (\<lambda>_. Searching from_block_num)\<rparr>"

lemma search_alone:
  assumes "next_free E s b = Inr j" and "bits x = bitmap s" and "pc x i = Searching b"
  shows "alone E to i x (goto i (Found j) x)"
  using assms
proof (induction E s b arbitrary: x rule: next_free.induct)
  case (1 E s b)
  have b: "b < 8 * ba_size (bits x)"
    using "1.prems"(1,2) by (subst (asm) next_free.simps) (simp add: block_is_free_def split: if_splits)
  then have f: "block_is_free E b s = Inr (\<not> bitarray_test_bit E (bitmap s) b)"
    using "1.prems"(2) by (simp add: block_is_free_def)
  show ?case
  proof (cases "bitarray_test_bit E (bitmap s) b")
    case True
    then have n: "next_free E s (Suc b) = Inr j" using "1.prems"(1) f by (subst (asm) next_free.simps) simp
    let ?y = "goto i (Searching (Suc b)) x"
    have "alloc_step E to i x ?y" using "1.prems" b True by (intro alloc_step.used_bit) simp_all
    moreover have "alone E to i ?y (goto i (Found j) ?y)"
      using f True n "1.prems"(2) by (intro "1.IH" [of False]) simp_all
    ultimately show ?thesis by (simp add: converse_rtranclp_into_rtranclp)
  next
    case False
    then have "j = b" using "1.prems"(1) f by (subst (asm) next_free.simps) simp
    then show ?thesis using "1.prems" b False by (intro r_into_rtranclp alloc_step.free_bit) simp_all
  qed
qed

text \<open>What \<open>get_free_block\<close> returns is what the steps of the thread give.\<close>

lemma get_free_alone:
  assumes g: "get_free_block E from_b to s = Inr (w, s')" and x: "bits x = bitmap s" "pc x i = Searching from_b"
    and ok: "bitmap_ok s" and to: "to \<le> TOTAL_BLOCKS"
  shows "\<exists>y. alone E to i x y \<and> pc y i = Returned (unat w) \<and> bits y = bitmap s'"
proof -
  obtain j where j: "next_free E s from_b = Inr j" "j < to" "w = of_nat j"
      "s' = s\<lparr>bitmap := bitarray_set_bit E (bitmap s) j\<rparr>"
    using g by (auto simp: get_free_block_def set_block_def bindE_eq_Inr split: if_splits)
  have w: "unat w = j" using j(2,3) to by (simp add: const_simps unat_of_nat)
  let ?y = "goto i (Found j) x" and ?z = "(goto i (Returned j) (goto i (Found j) x))\<lparr>bits := bitarray_set_bit E (bits x) j\<rparr>"
  have "alone E to i x ?y" by (rule search_alone [OF j(1) x])
  moreover have "alloc_step E to i ?y ?z" using j(2) alloc_step.take [of ?y i j to E] by simp
  ultimately have "alone E to i x ?z" by (rule rtranclp.rtrancl_into_rtrancl)
  moreover have "pc ?z i = Returned (unat w)" and "bits ?z = bitmap s'" using w j(4) x(1) by simp_all
  ultimately show ?thesis by blast
qed

section \<open>Two threads\<close>

text \<open>Both find the same bit before either has set it.\<close>

lemma same_block_twice:
  assumes n: "next_free E s from_b = Inr j" and j: "j < to" and i: "i \<noteq> k"
  shows "\<exists>y. together E to (start_alloc s from_b) y \<and> pc y i = Returned j \<and> pc y k = Returned j"
proof -
  let ?x = "start_alloc s from_b"
  let ?a = "goto i (Found j) ?x"
  let ?b = "goto k (Found j) ?a"
  have x: "bits ?x = bitmap s" "pc ?x i = Searching from_b" by (simp_all add: start_alloc_def)
  have a: "bits ?a = bitmap s" "pc ?a k = Searching from_b" using i by (simp_all add: start_alloc_def)
  let ?c = "(goto i (Returned j) ?b)\<lparr>bits := bitarray_set_bit E (bits ?b) j\<rparr>"
  let ?d = "(goto k (Returned j) ?c)\<lparr>bits := bitarray_set_bit E (bits ?c) j\<rparr>"
  have "together E to ?x ?a" by (rule alone_together [OF search_alone [OF n x]])
  moreover have "together E to ?a ?b" by (rule alone_together [OF search_alone [OF n a]])
  moreover have "alloc_step E to i ?b ?c" using i j by (intro alloc_step.take) simp_all
  then have "together E to ?b ?c" by (intro alone_together r_into_rtranclp)
  moreover have "alloc_step E to k ?c ?d" using i j by (intro alloc_step.take) simp_all
  then have "together E to ?c ?d" by (intro alone_together r_into_rtranclp)
  ultimately have "together E to ?x ?d" unfolding together_def by (meson rtranclp_trans)
  moreover have "pc ?d i = Returned j" "pc ?d k = Returned j" using i by simp_all
  ultimately show ?thesis by blast
qed

lemma get_free_twice:
  assumes g: "get_free_block E from_b to s = Inr (w, s')" and to: "to \<le> TOTAL_BLOCKS" and i: "i \<noteq> k"
  shows "\<exists>y. together E to (start_alloc s from_b) y \<and> pc y i = Returned (unat w) \<and> pc y k = Returned (unat w)"
proof -
  obtain j where j: "next_free E s from_b = Inr j" "j < to" "w = of_nat j"
    using g by (auto simp: get_free_block_def bindE_eq_Inr split: if_splits)
  have "unat w = j" using j(2,3) to by (simp add: const_simps unat_of_nat)
  then show ?thesis using same_block_twice [OF j(1,2) i] by simp
qed

section \<open>One thread at a time\<close>

text \<open>
  Runs in which at most one thread is between the test that found its bit and the store that sets it.
  Then the bit is still free when it is set, and no block is given twice.
\<close>

definition one_inside :: "alloc_state \<Rightarrow> bool" where
  "one_inside x \<longleftrightarrow> (\<forall>i k b c. pc x i = Found b \<and> pc x k = Found c \<longrightarrow> i = k)"

definition in_turn :: "env \<Rightarrow> nat \<Rightarrow> alloc_state \<Rightarrow> alloc_state \<Rightarrow> bool" where
  "in_turn E to = (\<lambda>x y. (\<exists>i. alloc_step E to i x y) \<and> one_inside y)\<^sup>*\<^sup>*"

definition given :: "env \<Rightarrow> alloc_state \<Rightarrow> bool" where
  "given E x \<longleftrightarrow> ba_ok (bits x) \<and>
     (\<forall>i b. pc x i = Found b \<longrightarrow> b < 8 * ba_size (bits x) \<and> \<not> bitarray_test_bit E (bits x) b) \<and>
     (\<forall>i b. pc x i = Returned b \<longrightarrow> b < 8 * ba_size (bits x) \<and> bitarray_test_bit E (bits x) b) \<and>
     (\<forall>i k b. pc x i = Returned b \<and> pc x k = Returned b \<longrightarrow> i = k)"

lemma given_start: "bitmap_ok s \<Longrightarrow> given E (start_alloc s from_b)"
  by (simp add: given_def start_alloc_def bitmap_ok_def)

context bitarray_lib
begin

lemma given_step:
  assumes g: "given E x" and st: "alloc_step E to i x y" and one: "one_inside x"
  shows "given E y"
  using st
proof cases
  case (take b)
  have x: "ba_ok (bits x)" and b: "b < 8 * ba_size (bits x)" and free: "\<not> bitarray_test_bit E (bits x) b"
    using g take(2) by (auto simp: given_def)
  have sz: "ba_ok (bits y)" "ba_size (bits y) = ba_size (bits x)"
    using ok_set [OF x b] size_set [OF x b] take(1) by simp_all
  have t: "bitarray_test_bit E (bits y) c \<longleftrightarrow> c = b \<or> bitarray_test_bit E (bits x) c" if "c < 8 * ba_size (bits x)" for c
    using test_set [OF x b that] take(1) by simp
  have other: "pc y k = (if k = i then Returned b else pc x k)" for k using take(1) by simp
  have nf: "pc x k \<noteq> Found c" if "k \<noteq> i" for k c using one take(2) that unfolding one_inside_def by blast
  show ?thesis
    unfolding given_def
  proof (intro conjI allI impI)
    show "ba_ok (bits y)" by (rule sz(1))
  next
    fix k c assume "pc y k = Found c"
    then show "c < 8 * ba_size (bits y)" and "\<not> bitarray_test_bit E (bits y) c"
      using nf by (auto simp: other split: if_splits)
  next
    fix k c assume k: "pc y k = Returned c"
    then have c: "c < 8 * ba_size (bits x)" and "c = b \<or> bitarray_test_bit E (bits x) c"
      using g b by (auto simp: other given_def split: if_splits)
    then show "c < 8 * ba_size (bits y)" and "bitarray_test_bit E (bits y) c" using t [OF c] sz(2) by simp_all
  next
    fix k l c assume kl: "pc y k = Returned c \<and> pc y l = Returned c"
    have "pc x m \<noteq> Returned b" for m using g free by (auto simp: given_def)
    then show "k = l" using kl g by (auto simp: other given_def split: if_splits)
  qed
qed (use g in \<open>auto simp: given_def split: if_splits\<close>)

lemma given_to_one:
  assumes ok: "bitmap_ok s" and run: "in_turn E to (start_alloc s from_b) y"
    and ret: "pc y i = Returned b" "pc y k = Returned b"
  shows "i = k"
proof -
  have "given E y \<and> one_inside y"
    using run unfolding in_turn_def
  proof (induction rule: rtranclp_induct)
    case base
    then show ?case using given_start [OF ok] by (simp add: one_inside_def start_alloc_def)
  next
    case (step y z)
    then show ?case using given_step by blast
  qed
  with ret show ?thesis by (auto simp: given_def)
qed

end

end
