(* ===== verification/Hole.thy ===== *)
theory Hole
  imports Write_Spec
begin

text \<open>
  A hole past the first block: the loop that fills it ends with the block the file ends in, sets the
  size to the end of that block, and then adds a data block by the new size: not the next one, which
  is left with the number that was in the pointer block.
\<close>

lemma div_next:
  fixes a :: nat
  assumes "a div 4096 = q"
  shows "a mod 4096 + 4096 * q = a" and "a < 4096 * Suc q"
  using assms mod_less_divisor [of 4096 a] div_mult_mod_eq [of a 4096] by auto

lemma one_pointer_block:
  assumes "pointers_fit nd q" and "Suc q < 1024"
  shows "count_pointers nd = 1"
  using assms by (auto simp: pointers_fit_def)

context bitarray_lib
begin

lemma null_fill_block:
  assumes wf: "wfile E s nd bs" and q: "length bs div 4096 = q" "1 \<le> q" "q + 2 < 1024"
    and off: "length bs < off" "off div 4096 = q" and free: "free_data E s \<noteq> {}"
  defines "p \<equiv> unat (indirect_pointer_block nd ! 0)"
  shows "\<exists>s'. null_fill E nd (word_of_int (int off)) s = Inr (nd\<lparr>file_size := of_nat (4096 * Suc q)\<rparr>, s') \<and>
    disk_ok s' \<and> bitmap_ok s' \<and> (\<forall>b. b \<noteq> p \<and> b \<noteq> blk s nd q \<longrightarrow> disk s' b = disk s b) \<and>
    (\<forall>i. i \<noteq> q + 2 \<longrightarrow> cell s' p i = cell s p i)"
proof -
  let ?S = "length bs" and ?m = "length bs mod 4096" and ?B = "4096 * Suc q"
  define c where "c = 4096 - ?m"
  let ?xs = "replicate c (0 :: byte)"
  define k where "k = blk s nd q"
  define s1 where "s1 = s\<lparr>disk := (disk s)(k := memput (disk s k) ?m ?xs)\<rparr>"
  let ?nd = "nd\<lparr>file_size := of_nat ?B\<rparr>"
  have w: "sizeof_ptr E = 4" "area E s nd (Suc q)" "unat (file_size nd) = ?S" "pointers_fit nd q"
    using wf q(1) by (simp_all add: wfile_def file_slots_def)
  have cp: "count_pointers nd = 1" using one_pointer_block [OF w(4)] q(3) by simp
  have a: "bitmap_ok s" "disk_ok s" "slots_ok s nd (Suc q)" using w(2) by (simp_all add: area_def)
  have i0: "0 < count_pointers nd" using cp by simp
  have p: "34 \<le> p" "p < 3000" using area_pointer(1,2) [OF w(2) i0] by (simp_all add: p_def)
  have k: "34 \<le> k" "k < 3000" using area_block(1,2) [OF w(2)] by (simp_all add: k_def)
  have pk: "p \<noteq> k" using a(3) i0 unfolding slots_ok_def p_def k_def by blast
  have S: "?m + 4096 * q = ?S" "?S < ?B" and O: "off < ?B" using div_next [OF q(1)] div_next [OF off(2)] by simp_all
  have B: "?B < 2 ^ 31" and m: "?m < 4096" using q(3) by simp_all
  have cm: "?m + c = 4096" "0 < c" "c \<le> 4096" using m by (simp_all add: c_def)
  have un: "unat (of_nat j :: u32) = j" if "j < 2 ^ 31" for j using that by (intro unat_of_nat_small) simp
  have fs: "file_size nd = of_nat ?S" unfolding w(3) [symmetric] by simp
  have pos: "byte_num (get_next_write_position nd) = of_nat ?m" "block_num (get_next_write_position nd) = of_nat q"
    using w(3) q m un [of ?m] un [of q]
    by (simp_all add: get_next_write_position_def Let_def const_simps word_unat_eq_iff unat_mod unat_div)
  have lt: "file_size nd < of_nat off" using S O B off(1) by (simp add: fs word_less_nat_alt un)
  have so: "sint (of_nat off :: u32) = int off" using O B by (intro sint_of_nat) simp
  have o4: "4096 \<le> off" using off q(2) by (metis div_less le_less_linear not_one_le_zero)
  have cc: "sint (word_of_int (min_int (sint (of_nat off :: u32)) (int BLOCK_SIZE)) - of_nat ?m :: u32) = int c"
  proof -
    have "min_int (int off) (int BLOCK_SIZE) = 4096" using o4 by (simp add: min_int_def const_simps)
    moreover have "(4096 :: u32) - of_nat ?m = of_nat c" using m by (simp add: c_def)
    moreover have "sint (of_nat c :: u32) = int c" using cm by (intro sint_of_nat) simp
    ultimately show ?thesis unfolding so by simp
  qed
  have get: "get_data_block_from_node E nd (of_nat q) s = Inr k"
    unfolding k_def using q(1) by (intro file_get_block [OF wfile_here [OF wf]]) simp
  have wr: "write_bytes s k ?m ?xs = Inr s1"
    unfolding s1_def using cm by (simp add: write_bytes_def const_simps)
  have grow: "of_nat ?S + word_of_int (int c) = (of_nat ?B :: u32)"
  proof -
    have "?S + c = ?B" using S(1) cm(1) by simp
    moreover have "of_nat ?S + word_of_int (int c) = (of_nat (?S + c) :: u32)"
      by (simp only: of_int_of_nat_eq of_nat_add)
    ultimately show ?thesis by (simp only:)
  qed
  have rest: "of_nat off - word_of_int (int c) = (of_nat (off - c) :: u32)" using cm o4 by simp
  have full: "of_nat ?m + word_of_int (int c) = (of_nat BLOCK_SIZE :: u32)"
  proof -
    have "of_nat ?m + word_of_int (int c) = (of_nat (?m + c) :: u32)" by (simp only: of_int_of_nat_eq of_nat_add)
    then show ?thesis unfolding cm(1) by (simp add: const_simps)
  qed
  have pos_rest: "0 < sint (of_nat (off - c) :: u32)"
  proof -
    have "c < off"
    proof (rule ccontr)
      assume "\<not> c < off"
      then have "off = 4096" "?m = 0" using o4 cm by auto
      then show False using S off q(2) by simp
    qed
    moreover have "sint (of_nat (off - c) :: u32) = int (off - c)" using O B by (intro sint_of_nat) simp
    ultimately show ?thesis by simp
  qed
  have d1: "disk_ok s1" using a(2) k cm m by (auto simp: disk_ok_def s1_def const_simps length_memput)
  have b1: "bitmap_ok s1" and f1: "free_data E s1 \<noteq> {}" using a(1) free by (simp_all add: s1_def)
  have p1: "unat (indirect_pointer_block ?nd ! 0) = p" by (simp add: p_def)
  obtain d s2 where d: "create_data_block_in_pointer_block E ?nd (of_nat 0) (of_nat (q + 2)) s1 = Inr (d, s2)"
      "bitmap_ok s2" "disk_ok s2" "\<forall>b. b \<noteq> p \<longrightarrow> disk s2 b = disk s1 b"
      "\<forall>i. cell s2 p i = (if i = q + 2 then d else cell s1 p i)"
    using create_data_block_spec [OF b1 f1 d1, of 0 "q + 2" ?nd, unfolded p1] q(3) p by auto
  have cnt: "unat (of_nat ?B div of_nat BLOCK_SIZE :: u32) = Suc q"
    using un [OF B] by (simp add: unat_div const_simps)
  have "add_data_block_to_node E ?nd s1 = Inr (?nd, s2)"
    using d(1) cp q(3) cnt
    by (simp add: add_data_block_to_node_def Let_def add.commute)
  moreover have "null_fill E ?nd (of_nat (off - c)) s2 = Inr (?nd, s2)"
  proof -
    have "\<not> of_nat ?B < (of_nat (off - c) :: u32)"
      using O B un [OF B] un [of "off - c"] by (simp add: word_less_nat_alt del: of_nat_mult of_nat_Suc)
    then show ?thesis by (subst null_fill.simps) simp
  qed
  ultimately have "null_fill E nd (word_of_int (int off)) s = Inr (?nd, s2)"
    using lt cc get wr grow rest full pos_rest cm
    by (subst null_fill.simps) (simp add: pos fs Let_def un)
  moreover have "disk s2 b = disk s b" if "b \<noteq> p" "b \<noteq> blk s nd q" for b
    using d(4) that by (simp add: s1_def k_def)
  moreover have "cell s2 p i = cell s p i" if "i \<noteq> q + 2" for i
    using d(5) that pk by (simp add: s1_def cell_def)
  ultimately show ?thesis using d(2,3) by blast
qed

text \<open>
  The write that makes the hole, and an append after it: that goes to the block whose number was left
  in the pointer block.
\<close>

lemma hole_write:
  assumes st: "store_ok E s A Q" and ptr: "sizeof_ptr E = 4" and A: "A n = Some (File p bs)"
    and q: "length bs div 4096 = q" "1 \<le> q" "q + 2 < 1024"
    and off: "length bs < off" "off div 4096 = q" and free: "2 \<le> card (free_data E s)"
    and c: "0 < count" "count \<le> length data" "off mod 4096 + count < 4096"
  shows "\<exists>s'. sac_write E (int n) data count (int off) s = Inr (int count, s') \<and> readable s' n \<and>
    file_size (node_at s' n) = of_nat (4096 * Suc q) \<and>
    indirect_pointer_block (node_at s' n) = indirect_pointer_block (node_at s n) \<and>
    indirect_pointer_block (node_at s n) ! 0 \<noteq> 0 \<and> unat (indirect_pointer_block (node_at s n) ! 0) < 3000 \<and>
    data_block_num s' (node_at s' n) (Suc q) = data_block_num s (node_at s n) (Suc q)"
proof -
  let ?t = "s\<lparr>tick := Suc (tick s)\<rparr>" and ?B = "4096 * Suc q"
  obtain nd where nd: "read_node E (of_nat n) s = Inr (nd, 2 + n, ?t)"
      "named nd" "nview nd = nview (node_at s n)" "inode_ok s nd (File p bs) (Q n)"
    using read_node_store [OF st A] by blast
  have stt: "store_ok E ?t A Q" and inot: "inode_ok ?t nd (File p bs) (Q n)" using st nd(4) by simp_all
  have ne: "bs \<noteq> []" using q by auto
  have ptrs: "indirect_pointer_block (node_at s n) = indirect_pointer_block nd"
    using arg_cong [OF nd(3), of indirect_pointer_block] by simp
  have n0: "indirect_pointer_block nd ! 0 \<noteq> 0"
    using inot ne count_pointers_zero [of nd] nd(2) by (auto simp: file_ok_def named_def split: if_splits)
  have wf: "wfile E ?t nd bs" using first_block [OF stt ptr A nd(2) inot] free n0 by auto
  have fne: "free_data E ?t \<noteq> {}" using free by auto
  define k where "k = blk s nd q"
  define b where "b = unat (indirect_pointer_block nd ! 0)"
  have blk_t: "blk ?t nd q = k" by (simp add: k_def data_block_num_def cell_def)
  have ar: "area E ?t nd (Suc q)" using wf q(1) by (simp add: wfile_def file_slots_def)
  have cp: "count_pointers nd = 1"
    using one_pointer_block [of nd q] wf q(1,3) by (simp add: wfile_def)
  then have i0: "0 < count_pointers nd" by simp
  have bb: "34 \<le> b" "b < 3000" using area_pointer(1,2) [OF ar i0] by (simp_all add: b_def)
  have kk: "34 \<le> k" "k < 3000" using area_block(1,2) [OF ar, of q] unfolding blk_t by simp_all
  have "slots_ok ?t nd (Suc q)" using ar by (simp add: area_def)
  then have "unat (indirect_pointer_block nd ! 0) \<noteq> blk ?t nd q" using i0 unfolding slots_ok_def by blast
  then have bk: "b \<noteq> k" unfolding blk_t b_def .
  obtain s1 where z: "null_fill E nd (word_of_int (int off)) ?t = Inr (nd\<lparr>file_size := of_nat ?B\<rparr>, s1)"
      "disk_ok s1" "\<forall>j. j \<noteq> b \<and> j \<noteq> k \<longrightarrow> disk s1 j = disk s j" "\<forall>i. i \<noteq> q + 2 \<longrightarrow> cell s1 b i = cell s b i"
    using null_fill_block [OF wf q off fne] unfolding blk_t b_def [symmetric] by (auto simp: cell_def)
  let ?nd = "nd\<lparr>file_size := of_nat ?B\<rparr>"
  have num: "data_block_num s1 ?nd j = data_block_num s nd j" if "j < q + 2" for j
    using that q(3) z(4) by (simp add: data_block_num_def b_def)
  have un: "unat (of_nat ?B :: u32) = ?B" using q(3) by (intro unat_of_nat_small) simp
  have sz: "sint (of_nat ?B :: u32) = int ?B" using q(3) by (intro sint_of_nat) simp
  have get: "get_data_block_from_node E ?nd (of_nat (off div 4096)) s1 = Inr k"
    using get_data_block_spec [OF ptr, of q ?nd s1] q(3) off(2) num [of q] bb kk
    by (simp add: const_simps b_def k_def)
  define s2 where "s2 = s1\<lparr>disk := (disk s1)(k := memput (disk s1 k) (off mod 4096) (take count data))\<rparr>"
  have lo: "off + count < ?B" using div_next(1) [OF off(2)] c(3) by simp
  have rz: "resize ?B (off + count) ?nd = ?nd" using lo by (simp add: resize_def)
  note w = write_loop_once [OF get c, of ?B, unfolded rz, folded s2_def]
  have d: "int off sdiv int BLOCK_SIZE = int (off div 4096)"
    by (simp add: const_simps signed_divide_int_def sgn_if zdiv_int)
  have m: "int off - int BLOCK_SIZE * int (off div 4096) = int (off mod 4096)"
    by (simp add: const_simps zdiv_int zmod_int minus_mult_div_eq_mod)
  let ?s = "unmap_and_destroy_node ?nd (2 + n) s2"
  have p: "0 < length (indirect_pointer_block nd)" using nd(2) by (simp add: named_def node_ok_def)
  have run: "sac_write E (int n) data count (int off) s = Inr (int count, ?s)"
    unfolding sac_write_def Let_def d m
    using nd(1) n0 z(1) w p sz by (simp add: pointer_at_def del: of_nat_mult of_nat_Suc)
  have n32: "n < 32" by (rule store_nodeD(1) [OF st A])
  have nok: "node_ok ?nd" and nm: "named ?nd" using nd(2) by (simp_all add: named_def node_ok_def)
  have d2: "disk_ok s2" using z(2) kk c(2,3) by (auto simp: s2_def disk_ok_def const_simps length_memput)
  have at: "node_at ?s n = ?nd"
    using put_node_at [OF nok d2, of n n] n32 by (simp add: const_simps unmap_and_destroy_node_def)
  have "readable ?s n"
    using put_node_disk_ok [OF nok d2, of "2 + n"] n32 nm at
    by (simp add: readable_def const_simps unmap_and_destroy_node_def)
  moreover have "data_block_num ?s ?nd (Suc q) = data_block_num s nd (Suc q)"
  proof -
    have "disk ?s b = disk s1 b"
      using put_node_disk [OF nok d2, of "2 + n"] n32 bb bk by (simp add: unmap_and_destroy_node_def s2_def)
    then have "data_block_num ?s ?nd (Suc q) = data_block_num s1 ?nd (Suc q)"
      using q(3) by (simp add: data_block_num_def cell_def b_def)
    then show ?thesis using num [of "Suc q"] by simp
  qed
  moreover have "data_block_num s (node_at s n) j = data_block_num s nd j" for j
    by (simp add: data_block_num_def ptrs)
  ultimately show ?thesis using run at ptrs n0 bb(2) unfolding b_def by auto
qed

lemma hole_append:
  assumes st: "store_ok E s A Q" and ptr: "sizeof_ptr E = 4" and A: "A n = Some (File p bs)"
    and q: "length bs div 4096 = q" "1 \<le> q" "q + 2 < 1024"
    and off: "length bs < off" "off div 4096 = q" and free: "2 \<le> card (free_data E s)"
    and c: "0 < count" "count \<le> length data" "off mod 4096 + count < 4096"
    and c': "0 < count'" "count' \<le> length data'" "count' < 4096"
  shows "\<exists>s1. sac_write E (int n) data count (int off) s = Inr (int count, s1) \<and>
    file_size (node_at s1 n) = of_nat (4096 * Suc q) \<and>
    (case read_block (data_block_num s (node_at s n) (Suc q)) of
       Inl e \<Rightarrow> sac_write E (int n) data' count' (int (4096 * Suc q)) s1 = Inl e
     | Inr k \<Rightarrow> \<exists>s2. sac_write E (int n) data' count' (int (4096 * Suc q)) s1 = Inr (int count', s2) \<and>
         (k = 2 + n \<or> disk s2 k = memput (disk s1 k) 0 (take count' data')))"
proof -
  let ?B = "4096 * Suc q"
  obtain s1 where w: "sac_write E (int n) data count (int off) s = Inr (int count, s1)" "readable s1 n"
      "file_size (node_at s1 n) = of_nat ?B"
      "indirect_pointer_block (node_at s1 n) = indirect_pointer_block (node_at s n)"
      "indirect_pointer_block (node_at s n) ! 0 \<noteq> 0" "unat (indirect_pointer_block (node_at s n) ! 0) < 3000"
      "data_block_num s1 (node_at s1 n) (Suc q) = data_block_num s (node_at s n) (Suc q)"
    using hole_write [OF st ptr A q off free c] by blast
  let ?t = "s1\<lparr>tick := Suc (tick s1)\<rparr>"
  obtain nd where nd: "read_node E (of_nat n) s1 = Inr (nd, 2 + n, ?t)" "named nd" "nview nd = nview (node_at s1 n)"
    using read_node_spec [OF w(2), of E] by (auto simp: const_simps)
  have view: "indirect_pointer_block nd = indirect_pointer_block (node_at s n)" "file_size nd = of_nat ?B"
    using arg_cong [OF nd(3), of indirect_pointer_block] arg_cong [OF nd(3), of file_size] w(3,4) by simp_all
  have un: "unat (of_nat ?B :: u32) = ?B" using q(3) by (intro unat_of_nat_small) simp
  have sz: "sint (of_nat ?B :: u32) = int ?B" using q(3) by (intro sint_of_nat) simp
  have num: "data_block_num ?t nd (Suc q) = data_block_num s (node_at s n) (Suc q)"
    using w(4,7) view(1) by (simp add: data_block_num_def cell_def)
  have no_hole: "null_fill E nd (word_of_int (int ?B)) ?t = Inr (nd, ?t)"
    by (subst null_fill.simps) (simp add: view(2))
  have d: "int ?B sdiv int BLOCK_SIZE = int (?B div 4096)"
    by (simp add: const_simps signed_divide_int_def sgn_if zdiv_int del: of_nat_mult of_nat_Suc)
  have dm: "?B div 4096 = Suc q" "?B mod 4096 = 0" by simp_all
  have m: "int ?B - int BLOCK_SIZE * int (?B div 4096) = int (?B mod 4096)"
    unfolding dm by (simp add: const_simps)
  have p: "0 < length (indirect_pointer_block nd)" using nd(2) by (simp add: named_def node_ok_def)
  have fetch: "getBlockNumberFromNodeDataBlock E nd (of_nat (Suc q)) ?t = Inr (data_block_num s (node_at s n) (Suc q))"
    using getBlockNumber_spec [OF ptr, of "Suc q" nd ?t] num q(3) w(6) view(1) by (simp add: const_simps)
  have top: "sac_write E (int n) data' count' (int ?B) s1 =
      bindE (write_loop E data' count' (int ?B) (int ?B) nd (of_nat (?B div 4096)) (int (?B mod 4096)) 0 0 ?t)
        (\<lambda>(file_node, s). Inr (int count', unmap_and_destroy_node file_node (2 + n) s))"
    unfolding sac_write_def Let_def d m
    using nd(1) no_hole p w(5) sz view
    by (simp add: pointer_at_def del: of_nat_mult of_nat_Suc)
  show ?thesis
  proof (cases "read_block (data_block_num s (node_at s n) (Suc q))")
    case (Inl e)
    then have "get_data_block_from_node E nd (of_nat (Suc q)) ?t = Inl e"
      unfolding get_data_block_eq fetch by simp
    then have "sac_write E (int n) data' count' (int ?B) s1 = Inl e"
      unfolding top dm using c'(1) by (simp add: write_loop.simps del: of_nat_Suc)
    then show ?thesis using w(1,3) Inl by auto
  next
    case (Inr k)
    then have "get_data_block_from_node E nd (of_nat (?B div 4096)) ?t = Inr k"
      unfolding dm get_data_block_eq fetch by simp
    moreover have "?B mod 4096 + count' < 4096" unfolding dm using c'(3) by simp
    ultimately have loop: "write_loop E data' count' (int ?B) (int ?B) nd (of_nat (?B div 4096)) (int (?B mod 4096)) 0 0 ?t =
        Inr (resize ?B (?B + count') nd,
          ?t\<lparr>disk := (disk ?t)(k := memput (disk ?t k) (?B mod 4096) (take count' data'))\<rparr>)"
      (is "_ = Inr (?nd, ?u)") using c'(1,2) by (intro write_loop_once)
    let ?s2 = "unmap_and_destroy_node ?nd (2 + n) ?u"
    have run: "sac_write E (int n) data' count' (int ?B) s1 = Inr (int count', ?s2)"
      unfolding top loop by simp
    have "disk ?s2 k = memput (disk s1 k) 0 (take count' data')" if "k \<noteq> 2 + n"
      using that unfolding dm by (simp add: unmap_and_destroy_node_def put_node_def)
    then show ?thesis using w(1,3) Inr run by auto
  qed
qed

end

end
