(* ===== verification/Report.thy ===== *)
theory Report
  imports Directory
begin

text \<open>
  What \<open>utils.c\<close> and \<open>node.c\<close> print of the disk, a bitmap and a node, and two routines that
  only the printing and the paths use: the length of an array of strings, and the scan of a
  directory that collects one entry for each pointer block. A printed line is its format with its
  arguments; tabs and newlines are left out.
\<close>

section \<open>The disk and the bitmap\<close>

definition print_disk_info :: "line list" where
  "print_disk_info =
     [(''HEADER BLOCKS: %d'', [Log_d 1]), (''BITMAP BLOCKS: %d'', [Log_d (int BITMAP_BLOCKS)]),
      (''NODE TABLE BLOCKS: %d'', [Log_d (int NODE_TABLE_BLOCKS)]),
      (''DATA BLOCKS: %d'', [Log_d (int DATA_BLOCKS)]), (''TOTAL BLOCKS: %d'', [Log_d (int TOTAL_BLOCKS)])]"

definition binary_digits :: "byte \<Rightarrow> string" where
  "binary_digits b =
     map (\<lambda>i. if and b (push_bit i 1) \<noteq> 0 then CHR ''1'' else CHR ''0'') (rev [0..<8])"

definition print_bytes_as_binary :: "bytes \<Rightarrow> nat \<Rightarrow> error + string" where
  "print_bytes_as_binary bs sz =
     (if sz \<le> length bs
      then Inr (concat (map (\<lambda>j. binary_digits (bs ! j) @
             [if (j + 1) mod 5 = 0 then CHR 0x0A else CHR 0x20]) [0..<sz]) @ [CHR 0x0A])
      else Inl Out_of_bounds)"

text \<open>What is printed of each byte is its bits, the highest first, and they give the byte back.\<close>

lemma and_push_bit_one: "and b (push_bit i 1) \<noteq> 0 \<longleftrightarrow> bit b i" for b :: byte
  using and_exp_eq_0_iff_not_bit [of b i] by (simp add: push_bit_eq_mult)

lemma binary_digits_bits:
  "binary_digits b = map (\<lambda>i. if bit b i then CHR ''1'' else CHR ''0'') (rev [0..<8])"
  unfolding binary_digits_def and_push_bit_one by (rule refl)

definition digits_value :: "string \<Rightarrow> int" where
  "digits_value ds = foldl (\<lambda>v d. 2 * v + (if d = CHR ''1'' then 1 else 0)) 0 ds"

lemma digits_value_byte: "digits_value (binary_digits b) = uint b"
proof -
  have "uint b = take_bit 8 (uint b)" using uint_lt2p [of b] by (simp add: take_bit_int_eq_self)
  also have "\<dots> = horner_sum of_bool 2 (map (bit (uint b)) [0..<8])"
    by (rule horner_sum_bit_eq_take_bit [symmetric])
  also have "map (bit (uint b)) [0..<8] = map (bit b) [0..<8]" by (rule map_cong [OF refl]) (auto simp: bit_uint_iff)
  finally show ?thesis
    by (simp add: digits_value_def binary_digits_bits upt_rec numeral_eq_Suc of_bool_def)
qed

lemma print_bitmap_in_bounds:
  "ba_ok b \<Longrightarrow> \<exists>out. print_bytes_as_binary (bitarray b) (ba_size b) = Inr out"
  by (simp add: print_bytes_as_binary_def ba_ok_def)

section \<open>The length of an array of strings\<close>

text \<open>An array of pointers, \<open>None\<close> for \<open>NULL\<close>; without a \<open>NULL\<close> the loop runs past its end.\<close>

fun arr_length :: "cstr option list \<Rightarrow> error + nat" where
  "arr_length [] = Inl Out_of_bounds"
| "arr_length (None # arr) = Inr 0"
| "arr_length (Some _ # arr) = bindE (arr_length arr) (\<lambda>n. Inr (Suc n))"

lemma arr_length_terminated: "arr_length (map Some xs @ None # arr) = Inr (length xs)"
  by (induction xs) simp_all

section \<open>A node\<close>

text \<open>
  The loop over the pointers of \<open>printNodeInfo\<close>: a line for the pointer block, then the numbers in
  it, up to \<open>cantBloques\<close> of them in all.
\<close>

fun pointer_lines :: "fs \<Rightarrow> u32 list \<Rightarrow> nat \<Rightarrow> nat \<Rightarrow> error + line list" where
  "pointer_lines s [] i cantBloques = Inr []"
| "pointer_lines s (p # ps) i cantBloques =
     (if p = 0 then Inr []
      else bindE (read_block p) (\<lambda>bloquePunteros.
           let n = min 1024 cantBloques;
               row = map (\<lambda>j. (''%d - '',
                 [Log_d (sint (bytes_to_int32 (memget (disk s bloquePunteros) (j * 4) 4)))])) [0..<n]
           in bindE (pointer_lines s ps (Suc i) (cantBloques - n)) (\<lambda>rest.
                Inr ((''[%d] -> [%d]'', [Log_d (int i), Log_d (sint p)]) # row @ rest))))"

text \<open>The dates have 64 bits; \<open>%d\<close> takes the lower 32 of the argument.\<close>

definition printNodeInfo :: "t_node \<Rightarrow> fs \<Rightarrow> error + line list" where
  "printNodeInfo unNodo s =
     (let cantBloques = unat (file_size unNodo div of_nat BLOCK_SIZE) + 1
      in bindE (strread (file_name unNodo)) (\<lambda>nombre.
         bindE (pointer_lines s (indirect_pointer_block unNodo) 0 cantBloques) (\<lambda>punteros.
           Inr ([(''Tipo: %d'', [Log_d (uint (state unNodo))]), (''Nombre: %s'', [Log_s nombre]),
                 (''Tamano: %d'', [Log_d (sint (file_size unNodo))]),
                 (''Nodo padre: %d'', [Log_d (sint (parent_block unNodo))]),
                 (''Fecha creacion: %d'', [Log_d (sint (ucast (creation_date unNodo) :: u32))]),
                 (''Fecha modificacion: %d'', [Log_d (sint (ucast (modification_date unNodo) :: u32))]),
                 (''Cant bloques: %d'', [Log_d (int cantBloques)]), (''Array punteros:'', [])] @
                punteros @
                (if indirect_pointer_block unNodo ! 0 = 0 then [(''No tiene punteros'', [])] else [])))))"

definition printNodeInfoWithNodeNum :: "env \<Rightarrow> u32 \<Rightarrow> fs \<Rightarrow> error + (line list \<times> fs)" where
  "printNodeInfoWithNodeNum E nodeNumber s =
     bindE (read_node E nodeNumber s) (\<lambda>(nodo, bloqueNodo, s).
       if state nodo = 0 then Inr ([], s)
       else bindE (printNodeInfo nodo s) (\<lambda>info.
         Inr ((''NODO %d'', [Log_d (sint nodeNumber)]) # info, unmap_and_destroy_node nodo bloqueNodo s)))"

text \<open>The numbers of the data blocks among what is printed.\<close>

definition shown :: "line list \<Rightarrow> log_arg list" where
  "shown ls = concat (map snd (filter (\<lambda>l. fst l = ''%d - '') ls))"

lemma shown_simps [simp]:
  "shown [] = []" "shown ((''[%d] -> [%d]'', as) # ls) = shown ls" "shown (ls @ ls') = shown ls @ shown ls'"
  "shown (map (\<lambda>j. (''%d - '', [f j])) js) = map f js"
  by (simp_all add: shown_def filter_map comp_def)

text \<open>They are those of the first \<open>cantBloques\<close> cells of the pointer blocks, in their order.\<close>

lemma pointer_lines_spec:
  assumes "\<forall>p \<in> set ps. p \<noteq> 0 \<and> unat p < TOTAL_BLOCKS" and "c \<le> 1024 * length ps"
    and "rest = [] \<or> hd rest = 0"
  shows "\<exists>ls. pointer_lines s (ps @ rest) i c = Inr ls \<and>
    shown ls = map (\<lambda>k. Log_d (sint (cell s (unat (ps ! (k div 1024))) (k mod 1024)))) [0..<c]"
  using assms(1,2)
proof (induction ps arbitrary: i c)
  case Nil
  then show ?case using assms(3) by (cases rest) auto
next
  case (Cons p ps)
  let ?n = "min 1024 c" and ?g = "\<lambda>ps k. Log_d (sint (cell s (unat (ps ! (k div 1024))) (k mod 1024)))"
  have le: "c - ?n \<le> 1024 * length ps" using Cons.prems(2) by (auto simp: min_def)
  obtain ls where ls: "pointer_lines s (ps @ rest) (Suc i) (c - ?n) = Inr ls"
      "shown ls = map (?g ps) [0..<c - ?n]"
    using Cons.IH [of "c - ?n" "Suc i"] Cons.prems le by auto
  have "[0..<c] = [0..<?n] @ [?n..<c]" using upt_add_eq_append [of 0 ?n "c - ?n"] by simp
  moreover have "map (?g (p # ps)) [0..<?n] = map (\<lambda>j. Log_d (sint (cell s (unat p) j))) [0..<?n]"
    by simp
  moreover have "map (?g (p # ps)) [?n..<c] = map (?g ps) [0..<c - ?n]"
  proof (rule nth_equalityI)
    fix j
    assume "j < length (map (?g (p # ps)) [?n..<c])"
    then have "?n = 1024" by auto
    then show "map (?g (p # ps)) [?n..<c] ! j = map (?g ps) [0..<c - ?n] ! j"
      using \<open>j < length _\<close> div_add_self1 [of 1024 j] by simp
  qed simp
  ultimately show ?case
    using Cons.prems(1) ls
    by (simp add: Let_def read_block_in bytes_to_int32_memget cell_def mult.commute)
qed

section \<open>An entry for each pointer block\<close>

text \<open>
  \<open>iterate_pointers_add_list\<close>, which nothing calls. Its loop is the one of
  \<open>iterate_pointers_blocks\<close> but goes on after a valid result, and adds every result to the list;
  nothing stops it after the last of the 1000 pointers.
\<close>

function add_list_from ::
    "t_dir_entry list_ops \<Rightarrow> 'a process \<Rightarrow> fs \<Rightarrow> t_node \<Rightarrow> t_data_position \<Rightarrow> nat \<Rightarrow>
     t_dir_entry list \<Rightarrow> 'a \<Rightarrow> error + (t_dir_entry list \<times> 'a)" where
  "add_list_from L process_entry s node position i unaLista acc =
     bindE (pointer_at node i) (\<lambda>p.
       if p \<noteq> 0
       then bindE (read_block p) (\<lambda>pointers_block.
            let is_last_pointers_block = (i = unat (pointer_block_num position)) in
            bindE (iterate_blocks process_entry s pointers_block is_last_pointers_block position acc)
              (\<lambda>(result, acc).
                add_list_from L process_entry s node position (Suc i)
                  (add_entry_to_list L unaLista result) acc))
       else Inr (unaLista, acc))"
  by pat_completeness auto
termination
  by (relation "measure (\<lambda>(L, p, s, nd, pos, i, l, a). 1000 - i)")
     (auto simp: pointer_at_def split: if_splits)

declare add_list_from.simps [simp del]

definition iterate_pointers_add_list ::
    "t_dir_entry list_ops \<Rightarrow> t_dir_entry list \<Rightarrow> t_node \<Rightarrow> 'a process \<Rightarrow> fs \<Rightarrow> 'a \<Rightarrow>
     error + (t_dir_entry list \<times> 'a)" where
  "iterate_pointers_add_list L unaLista node process_entry s acc =
     add_list_from L process_entry s node (get_next_write_position node) 0 unaLista acc"

lemma add_list_empty:
  "indirect_pointer_block node ! 0 = 0 \<Longrightarrow>
   iterate_pointers_add_list L unaLista node process_entry s acc = Inr (unaLista, acc)"
  by (simp add: iterate_pointers_add_list_def add_list_from.simps pointer_at_def)

end
