(* ===== verification/Os.thy ===== *)
theory Os
  imports Commons
begin

text \<open>
  What the two programs ask of the machine they run on: files, sockets, the log and the
  configuration file, as a record of functions on its state \<open>'d\<close>. On it stand the small routines
  of \<open>utils.c\<close>, \<open>server.c\<close>, \<open>client.c\<close> and the two \<open>log.c\<close> that are one or a few calls each.
\<close>

section \<open>The machine\<close>

text \<open>
  A status is what the call returns (-1 on failure). \<open>os_stat\<close> gives the size when \<open>stat\<close> succeeds.
  \<open>os_contents\<close> is the file behind a descriptor in blocks, as it is mapped. \<open>os_getaddrinfo\<close> gives
  the first address, \<open>None\<close> when it fails. \<open>os_config\<close> is \<open>config_get_int_value\<close> of a key in a
  file, \<open>os_itoa\<close> \<open>string_itoa\<close>, and \<open>os_format\<close> \<open>string_from_format\<close> with a string and a number.
\<close>

record addrinfo =
  ai_flags :: nat
  ai_family :: nat
  ai_socktype :: nat
  ai_protocol :: nat
  ai_addr :: bytes

record 'd os =
  os_access :: "cstr \<Rightarrow> 'd \<Rightarrow> int"
  os_stat :: "cstr \<Rightarrow> 'd \<Rightarrow> int option"
  os_mkdir :: "cstr \<Rightarrow> nat \<Rightarrow> 'd \<Rightarrow> 'd"
  os_system :: "cstr \<Rightarrow> 'd \<Rightarrow> 'd"
  os_open :: "cstr \<Rightarrow> 'd \<Rightarrow> int \<times> 'd"
  os_close :: "int \<Rightarrow> 'd \<Rightarrow> 'd"
  os_contents :: "int \<Rightarrow> 'd \<Rightarrow> nat \<Rightarrow> bytes"
  os_getaddrinfo :: "cstr option \<Rightarrow> cstr option \<Rightarrow> addrinfo \<Rightarrow> 'd \<Rightarrow> addrinfo option"
  os_socket :: "nat \<Rightarrow> nat \<Rightarrow> nat \<Rightarrow> 'd \<Rightarrow> int \<times> 'd"
  os_bind :: "int \<Rightarrow> bytes \<Rightarrow> 'd \<Rightarrow> int \<times> 'd"
  os_listen :: "int \<Rightarrow> nat \<Rightarrow> 'd \<Rightarrow> int \<times> 'd"
  os_accept :: "int \<Rightarrow> 'd \<Rightarrow> int \<times> 'd"
  os_connect :: "int \<Rightarrow> bytes \<Rightarrow> 'd \<Rightarrow> int \<times> 'd"
  os_log_create :: "cstr \<Rightarrow> cstr \<Rightarrow> 'd \<Rightarrow> 'd"
  os_log_trace :: "line \<Rightarrow> 'd \<Rightarrow> 'd"
  os_log_destroy :: "'d \<Rightarrow> 'd"
  os_config :: "cstr \<Rightarrow> cstr \<Rightarrow> 'd \<Rightarrow> int"
  os_itoa :: "int \<Rightarrow> cstr"
  os_format :: "cstr \<Rightarrow> cstr \<Rightarrow> nat \<Rightarrow> cstr"

definition F_mode_0700 :: nat where
  "F_mode_0700 = 448"

section \<open>Files\<close>

definition file_size_of :: "'d os \<Rightarrow> cstr \<Rightarrow> 'd \<Rightarrow> int" where
  "file_size_of M path d = (case os_stat M path d of Some n \<Rightarrow> n | None \<Rightarrow> - 1)"

definition file_exists :: "'d os \<Rightarrow> cstr \<Rightarrow> 'd \<Rightarrow> bool" where
  "file_exists M path d \<longleftrightarrow> os_access M path d \<noteq> - 1"

section \<open>The logs\<close>

text \<open>The log of the server and of the client differ in their file and the name of the program.\<close>

definition init_log :: "'d os \<Rightarrow> cstr \<Rightarrow> cstr \<Rightarrow> 'd \<Rightarrow> 'd" where
  "init_log M path_log program_name d =
     os_log_create M path_log program_name
       (if os_stat M (lit ''logs'') d = None then os_mkdir M (lit ''logs'') F_mode_0700 d else d)"

definition server_init_logger :: "'d os \<Rightarrow> 'd \<Rightarrow> 'd" where
  "server_init_logger M d = init_log M (lit ''logs/sac.log'') (lit ''SAC-SERVER'') d"

definition server_finish_logger :: "'d os \<Rightarrow> 'd \<Rightarrow> 'd" where
  "server_finish_logger M d = os_log_destroy M d"

definition log_socket_connected :: "'d os \<Rightarrow> int \<Rightarrow> 'd \<Rightarrow> 'd" where
  "log_socket_connected M socket = os_log_trace M (''Se conecto el socket %d'', [Log_d socket])"

definition log_socket_disconnected :: "'d os \<Rightarrow> int \<Rightarrow> 'd \<Rightarrow> 'd" where
  "log_socket_disconnected M socket = os_log_trace M (''Se desconecto el socket %d'', [Log_d socket])"

definition log_server_listenning :: "'d os \<Rightarrow> cstr \<Rightarrow> bool \<Rightarrow> 'd \<Rightarrow> 'd" where
  "log_server_listenning M port linux =
     (if linux then os_log_trace M (''Se escucha en el puerto %s y se utiliza LINUX FS'', [Log_s port])
      else os_log_trace M (''Se escucha en el puerto %s y se utiliza SAC FS'', [Log_s port]))"

definition log_comunication_error :: "'d os \<Rightarrow> int \<Rightarrow> 'd \<Rightarrow> 'd" where
  "log_comunication_error M socket =
     os_log_trace M (''Error en la comunicacion con el socket %d'', [Log_d socket])"

definition client_init_logger :: "'d os \<Rightarrow> 'd \<Rightarrow> 'd" where
  "client_init_logger M d = init_log M (lit ''logs/fuse.log'') (lit ''FUSE'') d"

definition client_finish_logger :: "'d os \<Rightarrow> 'd \<Rightarrow> 'd" where
  "client_finish_logger M d = os_log_destroy M d"

definition log_init_file_system :: "'d os \<Rightarrow> 'd \<Rightarrow> 'd" where
  "log_init_file_system M = os_log_trace M (''Se inicio el proceso FS'', [])"

definition log_string :: "cstr option \<Rightarrow> log_arg" where
  "log_string x = (case x of Some a \<Rightarrow> Log_s a | None \<Rightarrow> Log_null)"

definition log_connection_info :: "'d os \<Rightarrow> cstr option \<Rightarrow> cstr option \<Rightarrow> 'd \<Rightarrow> 'd" where
  "log_connection_info M ip port =
     os_log_trace M (''Se conectara a %s : %s'', [log_string ip, log_string port])"

section \<open>Sockets\<close>

definition AF_UNSPEC :: nat where
  "AF_UNSPEC = 0"

definition SOCK_STREAM :: nat where
  "SOCK_STREAM = 1"

definition AI_PASSIVE :: nat where
  "AI_PASSIVE = 1"

definition BACKLOG :: nat where
  "BACKLOG = 6"

definition no_hints :: addrinfo where
  "no_hints = \<lparr>ai_flags = 0, ai_family = 0, ai_socktype = 0, ai_protocol = 0, ai_addr = []\<rparr>"

text \<open>
  The result of \<open>getaddrinfo\<close> is not looked at: after a failure \<open>serverInfo\<close> points nowhere. Those of
  \<open>socket\<close> and \<open>bind\<close> are not looked at either.
\<close>

definition init_listenning_socket :: "'d os \<Rightarrow> cstr \<Rightarrow> 'd \<Rightarrow> error + (int \<times> 'd)" where
  "init_listenning_socket M port d =
     (let hints = no_hints\<lparr>ai_family := AF_UNSPEC, ai_flags := AI_PASSIVE, ai_socktype := SOCK_STREAM\<rparr>
      in case os_getaddrinfo M None (Some port) hints d of
           None \<Rightarrow> Inl Out_of_bounds
         | Some info \<Rightarrow>
             (let (listenning_socket, d) = os_socket M (ai_family info) (ai_socktype info) (ai_protocol info) d;
                  (_, d) = os_bind M listenning_socket (ai_addr info) d
              in Inr (listenning_socket, d)))"

definition accept_connection :: "'d os \<Rightarrow> int \<Rightarrow> 'd \<Rightarrow> int \<times> 'd" where
  "accept_connection M listenning_socket d = os_accept M listenning_socket d"

definition start_connection :: "'d os \<Rightarrow> cstr option \<Rightarrow> cstr option \<Rightarrow> 'd \<Rightarrow> error + (int \<times> 'd)" where
  "start_connection M ip port d =
     (let hints = no_hints\<lparr>ai_family := AF_UNSPEC, ai_socktype := SOCK_STREAM\<rparr>
      in case os_getaddrinfo M ip port hints d of
           None \<Rightarrow> Inl Out_of_bounds
         | Some info \<Rightarrow>
             (let (server_socket, d) = os_socket M (ai_family info) (ai_socktype info) (ai_protocol info) d;
                  (r, d) = os_connect M server_socket (ai_addr info) d;
                  connection_ok = (r = 0)
              in Inr (if connection_ok then server_socket else - 1, d)))"

text \<open>
  A connection is made when \<open>socket\<close> gives a descriptor that \<open>connect\<close> accepts, and only then is the
  result not negative; a socket that was refused stays open.
\<close>

lemma start_connection_result:
  assumes "os_getaddrinfo M ip port (no_hints\<lparr>ai_family := AF_UNSPEC, ai_socktype := SOCK_STREAM\<rparr>) d = Some info"
    and "os_socket M (ai_family info) (ai_socktype info) (ai_protocol info) d = (k, e)"
    and "os_connect M k (ai_addr info) e = (r, d')"
  shows "\<exists>fd. start_connection M ip port d = Inr (fd, d') \<and> (0 \<le> fd \<longleftrightarrow> r = 0 \<and> 0 \<le> k) \<and>
    (0 \<le> fd \<longrightarrow> fd = k)"
  using assms by (simp add: start_connection_def)

end
