(* ===== verification/Startup.thy ===== *)
theory Startup
  imports Format Report Os
begin

text \<open>
  How the server comes up: making and opening the disk file (\<open>disk.c\<close>), the configuration and \<open>main\<close>
  (\<open>sac.c\<close>), and \<open>server_init\<close> up to its loop (\<open>server.c\<close>).
\<close>

section \<open>The disk file\<close>

definition SAC_ROOT_PATH :: cstr where
  "SAC_ROOT_PATH = lit ''/home/utnso/sac-root''"

definition DISK_PATH :: cstr where
  "DISK_PATH = lit ''/home/utnso/sac-root/disk''"

definition disk_create :: "'d os \<Rightarrow> 'd \<Rightarrow> 'd" where
  "disk_create M d =
     (if \<not> file_exists M DISK_PATH d \<or> int DISK_SIZE > file_size_of M DISK_PATH d
      then let d = os_mkdir M SAC_ROOT_PATH F_mode_0700 d;
               command = os_format M
                 (lit ''dd if=/dev/urandom of=%s bs=%lu count=1 iflag=fullblock'') DISK_PATH DISK_SIZE
           in os_system M command d
      else d)"

definition disk_open :: "'d os \<Rightarrow> 'd \<Rightarrow> error + (int \<times> 'd)" where
  "disk_open M d =
     (let (fd, d) = os_open M DISK_PATH (disk_create M d)
      in if fd < 0 then Inl (Exit (- 2)) else Inr (fd, d))"

definition disk_close :: "'d os \<Rightarrow> int \<Rightarrow> 'd \<Rightarrow> 'd" where
  "disk_close M file_descriptor d = os_close M file_descriptor d"

section \<open>The settings\<close>

record settings =
  USE_LINUX_FS :: bool
  LISTEN_PORT :: cstr

definition default_settings :: settings where
  "default_settings = \<lparr>USE_LINUX_FS = False, LISTEN_PORT = lit ''21000''\<rparr>"

definition set_config :: "'d os \<Rightarrow> cstr \<Rightarrow> 'd \<Rightarrow> error + settings" where
  "set_config M path_config d =
     (if os_access M path_config d = - 1 then Inl (Exit (- 1))
      else Inr \<lparr>USE_LINUX_FS = os_config M path_config (lit ''USE_LINUX_FS'') d \<noteq> 0,
                LISTEN_PORT = os_itoa M (os_config M path_config (lit ''LISTEN_PORT'') d)\<rparr>)"

text \<open>The settings that \<open>validate_input\<close> leaves for what it found on the command line.\<close>

fun settings_for :: "'d os \<Rightarrow> startup \<Rightarrow> 'd \<Rightarrow> error + settings" where
  "settings_for M Default_config d = Inr default_settings"
| "settings_for M (Config_file path) d = set_config M path d"
| "settings_for M Formatted d = Inr default_settings"

section \<open>Starting\<close>

definition server_begin :: "'d os \<Rightarrow> settings \<Rightarrow> 'd \<Rightarrow> error + (int \<times> 'd)" where
  "server_begin M cfg d =
     bindE (init_listenning_socket M (LISTEN_PORT cfg) (server_init_logger M d)) (\<lambda>(listenning_socket, d).
     let d = log_server_listenning M (LISTEN_PORT cfg) (USE_LINUX_FS cfg) d;
         (_, d) = os_listen M listenning_socket BACKLOG d
     in Inr (listenning_socket, d))"

text \<open>
  \<open>main\<close>, to the loop of \<open>server_init\<close>, which does not end: \<open>Exited\<close> with status 0 after a format,
  or \<open>Serving\<close> with the settings, the listening socket and the file system. The disk is the file
  that \<open>disk_open\<close> has opened; \<open>s\<close> is the state before anything is loaded.
\<close>

datatype started = Exited fs | Serving settings int fs

definition sac_main :: "'d os \<Rightarrow> env \<Rightarrow> cstr list \<Rightarrow> fs \<Rightarrow> 'd \<Rightarrow> error + (started \<times> 'd)" where
  "sac_main M E argv s d =
     bindE (disk_open M d) (\<lambda>(disk_fd, d).
     bindE (validate_input E argv (s\<lparr>disk := os_contents M disk_fd d\<rparr>)) (\<lambda>(act, s).
     bindE (settings_for M act d) (\<lambda>cfg.
       if act = Formatted then Inr (Exited s, d)
       else bindE (load_bitmap E s) (\<lambda>(_, s).
            bindE (server_begin M cfg d) (\<lambda>(listenning_socket, d).
              Inr (Serving cfg listenning_socket s, d))))))"

section \<open>What starting does\<close>

text \<open>A disk file of the right size is left alone; otherwise one of random bytes is made.\<close>

lemma disk_kept:
  assumes "os_access M DISK_PATH d \<noteq> - 1" and "os_stat M DISK_PATH d = Some n" and "int DISK_SIZE \<le> n"
  shows "disk_create M d = d"
  using assms by (simp add: disk_create_def file_exists_def file_size_of_def)

lemma disk_made:
  assumes "os_access M DISK_PATH d = - 1 \<or> os_stat M DISK_PATH d = None \<or>
    (\<exists>n. os_stat M DISK_PATH d = Some n \<and> n < int DISK_SIZE)"
  shows "disk_create M d = os_system M (os_format M
    (lit ''dd if=/dev/urandom of=%s bs=%lu count=1 iflag=fullblock'') DISK_PATH DISK_SIZE)
    (os_mkdir M SAC_ROOT_PATH F_mode_0700 d)"
  using assms
  by (auto simp: disk_create_def file_exists_def file_size_of_def Let_def const_simps split: option.splits)

lemma main_no_disk:
  "fst (os_open M DISK_PATH (disk_create M d)) < 0 \<Longrightarrow> sac_main M E argv s d = Inl (Exit (- 2))"
  by (cases "os_open M DISK_PATH (disk_create M d)") (simp add: sac_main_def disk_open_def)

lemma main_no_config:
  assumes "disk_open M d = Inr (fd, d')" and "string_ends_with E a (lit ''.cfg'')"
    and "os_access M a d' = - 1"
  shows "sac_main M E [pr, a] s d = Inl (Exit (- 1))"
  using assms by (simp add: sac_main_def validate_input_def set_config_def)

text \<open>A server that serves has the state that \<open>start\<close> gives for the disk it has opened.\<close>

lemma main_serves:
  assumes "sac_main M E argv s d = Inr (Serving cfg fd s', d')"
  shows "\<exists>disk_fd e act. disk_open M d = Inr (disk_fd, e) \<and>
    start E argv (s\<lparr>disk := os_contents M disk_fd e\<rparr>) = Inr (act, s') \<and> act \<noteq> Formatted \<and>
    settings_for M act e = Inr cfg"
  using assms by (auto simp: sac_main_def start_def bindE_eq_Inr split: if_splits)

context commons_lib
begin

text \<open>With \<open>-f\<close> the process ends with a disk that represents the empty root.\<close>

lemma main_formats:
  assumes "disk_open M d = Inr (fd, d')" and "disk_ok (s\<lparr>disk := os_contents M fd d'\<rparr>)"
  shows "\<exists>s'. sac_main M E [pr, lit ''-f''] s d = Inr (Exited s', d') \<and>
    store_ok E s' [0 \<mapsto> Dir 0 []] (\<lambda>_. {}) \<and> block_to_bitmap E [1] s' = Inr (bitmap s')"
proof -
  obtain s' where "format_disk E (s\<lparr>disk := os_contents M fd d'\<rparr>) = Inr s'"
      "store_ok E s' [0 \<mapsto> Dir 0 []] (\<lambda>_. {})" "block_to_bitmap E [1] s' = Inr (bitmap s')"
    using format_represents [OF assms(2)] by blast
  moreover have "\<not> string_ends_with E (lit ''-f'') (lit ''.cfg'')" and "string_ends_with E (lit ''-f'') (lit ''-f'')"
    by (simp_all add: ends_with_eq lit_def)
  ultimately show ?thesis
    using assms(1) by (simp add: sac_main_def validate_input_def)
qed

end

text \<open>Without arguments the server serves what the disk holds, when its bitmap is stored there.\<close>

lemma main_boots:
  assumes "disk_open M e = Inr (fd, e')" and "server_begin M default_settings e' = Inr (k, e'')"
    and "disk_ok s'" and "block_to_bitmap E [1] s' = Inr (bitmap s')" and "os_contents M fd e' = disk s'"
  shows "sac_main M E [pr] s e = Inr (Serving default_settings k (s'\<lparr>tick := tick s\<rparr>), e'')"
proof -
  have "block_to_bitmap E [1] (s\<lparr>disk := disk s'\<rparr>) = block_to_bitmap E [1] s'"
    using assms(3) by (intro block_to_bitmap_same) (simp_all add: disk_ok_def)
  moreover have "s\<lparr>disk := disk s', bitmap := bitmap s'\<rparr> = s'\<lparr>tick := tick s\<rparr>" by simp
  ultimately show ?thesis
    using assms by (simp add: sac_main_def validate_input_def load_bitmap_def bitmap_window)
qed

text \<open>The bitmap that \<open>load_bitmap\<close> prints is printed whole.\<close>

lemma loaded_bitmap_prints:
  assumes "load_bitmap E s = Inr (bs, s')" and "ba_ok (bitmap s')"
  shows "\<exists>out. print_bytes_as_binary (bitarray (bitmap s')) (ba_size (bitmap s')) = Inr out"
  using print_bitmap_in_bounds [OF assms(2)] by blast

end
