(* ===== verification/Launch.thy ===== *)
theory Launch
  imports Client Startup
begin

text \<open>
  \<open>main\<close> of the client (\<open>fuse.c\<close>): its options, its log, and the hand-over to FUSE. \<open>fuse_opt_parse\<close> and
  \<open>fuse_main\<close> are the FUSE library's.
\<close>

section \<open>Options\<close>

text \<open>
  The templates of \<open>fuse_options\<close>, each with the key it gives: \<open>None\<close> for the one that fills
  \<open>optional_ip\<close>.
\<close>

datatype option_key = KEY_VERSION | KEY_HELP

definition fuse_options :: "(string \<times> option_key option) list" where
  "fuse_options =
     [(''--ip %s'', None), (''-V'', Some KEY_VERSION), (''--version'', Some KEY_VERSION),
      (''-h'', Some KEY_HELP), (''--help'', Some KEY_HELP)]"

text \<open>
  Cell \<open>i\<close> of an array of strings: \<open>Inr None\<close> is the \<open>NULL\<close> at its end.
\<close>

definition string_at :: "cstr list \<Rightarrow> nat \<Rightarrow> error + cstr option" where
  "string_at arr i =
     (if i < length arr then Inr (Some (arr ! i)) else if i = length arr then Inr None else Inl Out_of_bounds)"

section \<open>The program\<close>

text \<open>
  \<open>parse\<close> is \<open>fuse_opt_parse\<close>: \<open>None\<close> when it returns -1, or \<open>optional_ip\<close> and the arguments that are
  left. \<open>Mounting\<close>: \<open>fuse_main\<close> is called, with the address that every connection will use.
\<close>

datatype launched = Exit_failure | Mounting "cstr option" "cstr option" "cstr list"

definition sac_cli_main ::
    "'d os \<Rightarrow> env \<Rightarrow> (cstr list \<Rightarrow> (cstr option \<times> cstr list) option) \<Rightarrow> cstr list \<Rightarrow> 'd \<Rightarrow>
     error + (launched \<times> 'd)" where
  "sac_cli_main M E parse argv d =
     (case parse argv of
        None \<Rightarrow> Inr (Exit_failure, d)
      | Some (optional_ip, mount_args) \<Rightarrow>
          bindE (get_ip_and_port_or_default E optional_ip) (\<lambda>ip_and_port.
          bindE (string_at ip_and_port 0) (\<lambda>ip.
          bindE (string_at ip_and_port 1) (\<lambda>port.
          let d = client_init_logger M d;
              d = log_init_file_system M d;
              d = log_connection_info M ip port d
          in Inr (Mounting ip port mount_args, d)))))"

section \<open>What it does\<close>

text \<open>Without an option the client connects to the port that the server listens on by default.\<close>

lemma default_ports_meet:
  assumes "parse argv = Some (None, as)"
  shows "\<exists>d'. sac_cli_main M E parse argv d =
    Inr (Mounting (Some (lit ''127.0.0.1'')) (Some (LISTEN_PORT default_settings)) as, d')"
  using assms
  by (simp add: sac_cli_main_def get_ip_and_port_or_default_def string_at_def default_settings_def Let_def)

text \<open>The option needs a colon, and one with nothing after it leaves the port \<open>NULL\<close>.\<close>

lemma option_without_colon:
  "parse argv = Some (Some a, as) \<Longrightarrow> \<not> string_contains E a (lit '':'') \<Longrightarrow>
   sac_cli_main M E parse argv d = Inl (Exit (- 1))"
  by (simp add: sac_cli_main_def get_ip_and_port_or_default_def)

lemma option_without_port:
  assumes "parse argv = Some (Some a, as)" and "string_contains E a (lit '':'')"
    and "string_split E a (lit '':'') = [ip]"
  shows "\<exists>d'. sac_cli_main M E parse argv d = Inr (Mounting (Some ip) None as, d')"
  using assms by (simp add: sac_cli_main_def get_ip_and_port_or_default_def string_at_def Let_def)

end
