(* ===== verification/Fixture.thy ===== *)
theory Fixture
  imports Passthrough Alloc_Threads Hole Launch
begin

text \<open>
  Concrete states for the instances of the properties: a disk formatted on the reference
  platform, and the same disk with a directory \<open>/a\<close>.
\<close>

definition blank :: fs where
  "blank = \<lparr>disk = (\<lambda>_. replicate 4096 0),
    bitmap = \<lparr>bitarray = [], ba_size = 0, ba_mode = MSB_FIRST\<rparr>, tick = 0\<rparr>"

definition state_of :: "error + 'a \<times> fs \<Rightarrow> fs" where
  "state_of r = (case r of Inr (_, s) \<Rightarrow> s | Inl _ \<Rightarrow> blank)"

definition fresh :: fs where
  "fresh = (case format_disk ref_env blank of Inr s \<Rightarrow> s | Inl _ \<Rightarrow> blank)"

definition with_a :: fs where
  "with_a = state_of (sac_mkdir ref_env (child_path [] (lit ''a'')) 0 fresh)"

definition with_f :: fs where
  "with_f = state_of (sac_open ref_env (child_path [] (lit ''f'')) 0 fresh)"

lemma blank_ok: "disk_ok blank"
  by (simp add: blank_def disk_ok_def const_simps)

lemma fresh_ok:
  "store_ok ref_env fresh [0 \<mapsto> Dir 0 []] (\<lambda>_. {})" "free_node ref_env fresh 1"
  "free_data ref_env fresh = {34..<3000}" "\<forall>k < 3000. used ref_env fresh k \<longleftrightarrow> k < 3"
  using ref.format_represents [OF blank_ok] by (auto simp: fresh_def)

lemma component_lit [simp]: "component_ok [97]" "component_ok [98]" "component_ok [99]" "component_ok [102]"
  by (simp_all add: component_ok_def name_ok_def is_cstr_def slash_def)

lemma lit_simps [simp]: "lit ''a'' = [97]" "lit ''b'' = [98]" "lit ''f'' = [102]"
  by (simp_all add: lit_def)

lemma tokens_nil [simp]: "tokens c [] = []"
  by (simp add: tokens_def)

lemma folder_nil [simp]: "folder_ok []"
  by (simp add: folder_ok_def)

lemma with_a_ok:
  "\<exists>Q. store_ok ref_env with_a [1 \<mapsto> Dir 2 [], 0 \<mapsto> Dir 0 [([97], 1)]] Q"
  "card (free_data ref_env with_a) = 2964" "free_node ref_env with_a 2"
proof -
  obtain s' Q' where "sac_mkdir ref_env (child_path [] (lit ''a'')) 0 fresh = Inr (0, s')"
      "store_ok ref_env s' ([0 \<mapsto> Dir 0 []](1 \<mapsto> Dir (of_nat (2 + 0)) [], 0 \<mapsto> Dir 0 ([] @ [([97], of_nat 1)]))) Q'"
      "node_taken ref_env fresh s' 1 2"
    using ref.mkdir_creates [OF fresh_ok(1), of "[]" "[97]" 0 0 "[]" 1 0] fresh_ok by auto
  then show "\<exists>Q. store_ok ref_env with_a [1 \<mapsto> Dir 2 [], 0 \<mapsto> Dir 0 [([97], 1)]] Q"
    and "card (free_data ref_env with_a) = 2964" and "free_node ref_env with_a 2"
    using fresh_ok(3,4)
    by (auto simp: with_a_def state_of_def fun_upd_twist node_taken_def free_node_def less_2_cases_iff)
qed

lemma with_f_ok:
  "\<exists>Q. store_ok ref_env with_f [1 \<mapsto> File 2 [], 0 \<mapsto> Dir 0 [([102], 1)]] Q \<and> Q 1 = {}"
  "card (free_data ref_env with_f) = 2964" "free_node ref_env with_f 2"
proof -
  obtain s' Q' where "sac_open ref_env (child_path [] (lit ''f'')) 0 fresh = Inr (int 1, s')"
      "store_ok ref_env s' ([0 \<mapsto> Dir 0 []](1 \<mapsto> File (of_nat (2 + 0)) [], 0 \<mapsto> Dir 0 ([] @ [([102], of_nat 1)]))) Q'"
      "node_taken ref_env fresh s' 1 2" "Q' 1 = {}"
    using ref.open_creates [OF fresh_ok(1), of "[]" "[102]" 0 0 "[]" 1 0] fresh_ok by auto
  then show "\<exists>Q. store_ok ref_env with_f [1 \<mapsto> File 2 [], 0 \<mapsto> Dir 0 [([102], 1)]] Q \<and> Q 1 = {}"
    and "card (free_data ref_env with_f) = 2964" and "free_node ref_env with_f 2"
    using fresh_ok(3,4)
    by (auto simp: with_f_def state_of_def fun_upd_twist node_taken_def free_node_def less_2_cases_iff)
qed

section \<open>Side conditions on the reference platform\<close>

lemma ref_ptr: "sizeof_ptr ref_env = 4"
  by (simp add: ref_env_def)

lemma ref_wire: "wire_ok ref_env ref_env"
  by (simp add: wire_ok_def ref_env_def)

lemma ref_slack: "slack ref_env t"
  by (simp add: slack_def ref_env_def)

lemma ref_correct: "correct_path ref_env [47, 102]"
  and correct_a: "correct_path ref_env [47, 97]"
  and correct_b: "correct_path ref_env (child_path [] [98])"
  by (simp_all add: correct_path_def ref_env_def lit_def child_path_def slash_def)

lemma cpath_b: "cpath (child_path [] [98])"
  by (simp add: cpath_def path_fits_def child_path_def is_cstr_def slash_def)

lemma root_path:
  "cpath [47]" "is_valid_path ref_env [47]" "correct_path ref_env [47]" "tokens slash [47] = []"
  by (simp_all add: cpath_def path_fits_def is_cstr_def is_valid_path_def correct_path_def ref_env_def slash_def
      lit_def tokens_def)

lemma first_free_fresh: "first_free ref_env fresh = 1"
proof -
  have "[0..<32] = 0 # 1 # [2..<32 :: nat]" by (simp add: upt_rec)
  then show ?thesis using fresh_ok(4) by (simp add: first_free_def)
qed

lemma covered_a: "covered ref_env fresh [0 \<mapsto> Dir 0 []] (Mkdir [] [97])"
  using fresh_ok(3) by (simp add: room_in_def first_free_fresh dir_at_def lookable_def tokens_child)

lemma reached_a:
  "reached ref_env ref_lists with_a (snd (effect (first_free ref_env fresh) (Mkdir [] [97]) [0 \<mapsto> Dir 0 []]))"
proof (rule reached.command)
  show "reached ref_env ref_lists fresh [0 \<mapsto> Dir 0 []]"
    using ref.format_represents [OF blank_ok] reached.format [OF blank_ok] by (auto simp: fresh_def)
  show "covered ref_env fresh [0 \<mapsto> Dir 0 []] (Mkdir [] [97])" by (rule covered_a)
  show "run ref_env ref_lists (Mkdir [] [97]) fresh = Some (Inr (0, with_a))"
    using ref.mkdir_creates [OF fresh_ok(1), of "[]" "[97]" 0 0 "[]" 1 0] fresh_ok
    by (auto simp: with_a_def state_of_def)
qed

lemma carried_a: "carried (Mkdir [] [97])"
  by (simp add: cpath_def path_fits_def child_path_def is_cstr_def slash_def)

lemma ref_off: "off_ok ref_env ref_env"
  by (simp add: off_ok_def wire_ok_def ref_env_def)

lemma mounted_a:
  fixes H :: "unit host"
  shows "\<exists>w. mounted ref_env ref_env ref_lists H w
    (snd (effect (first_free ref_env fresh) (Mkdir [] [97]) [0 \<mapsto> Dir 0 []]))"
proof -
  let ?v = "\<lparr>srv_fs = fresh, srv_host = ()\<rparr>" and ?P = "server_peer ref_env ref_lists H False"
  have v: "srv_fs ?v = fresh" by simp
  have "format_disk ref_env blank = Inr fresh" using ref.format_represents [OF blank_ok] by (auto simp: fresh_def)
  then have s: "mounted ref_env ref_env ref_lists H (Some ?v) [0 \<mapsto> Dir 0 []]"
    by (intro mounted.start [OF blank_ok]) simp
  have "store_ok ref_env (srv_fs ?v) [0 \<mapsto> Dir 0 []] (\<lambda>_. {})" "covered ref_env (srv_fs ?v) [0 \<mapsto> Dir 0 []] (Mkdir [] [97])"
    unfolding v by (rule fresh_ok(1) covered_a)+
  from ref.fuse_refines [OF ref_list.list_lib_axioms ref_ptr ref_off this(1) tree_root this(2) carried_a asks.mkdir]
  obtain r w where "do_oper ref_env 0 0 0 ?P (Fuse_mkdir (child_path [] [97]) 0) (Some ?v) = Inr (r, w)" by metis
  from mounted.call [OF s _ carried_a asks.mkdir this] covered_a show ?thesis unfolding v by blast
qed

text \<open>The file \<open>/f\<close> with a text in it.\<close>

lemma with_file:
  assumes "length bs < 2 ^ 31" and "write_need 0 (length bs) \<le> 2964"
  shows "\<exists>s Q. store_ok ref_env s [1 \<mapsto> File 2 bs, 0 \<mapsto> Dir 0 [([102], 1)]] Q \<and>
    2964 \<le> card (free_data ref_env s) + write_need 0 (length bs)"
proof -
  obtain Q where "store_ok ref_env with_f [1 \<mapsto> File 2 [], 0 \<mapsto> Dir 0 [([102], 1)]] Q" using with_f_ok(1) by blast
  from ref.write_file [OF this ref_ptr, of 1 2 "[]" 0 "length bs" bs] assms with_f_ok(2)
  have "\<exists>s Q. store_ok ref_env s ([1 \<mapsto> File 2 [], 0 \<mapsto> Dir 0 [([102], 1)]](1 \<mapsto> File 2 (memput [] 0 bs))) Q \<and>
      2964 \<le> card (free_data ref_env s) + write_need 0 (length bs)"
    by auto
  moreover have "[1 :: nat \<mapsto> File 2 [], 0 \<mapsto> Dir 0 [([102], 1)]](1 \<mapsto> File 2 (memput [] 0 bs)) =
      [1 \<mapsto> File 2 bs, 0 \<mapsto> Dir 0 [([102], 1)]]"
    by (auto simp: fun_eq_iff memput_def)
  ultimately show ?thesis by simp
qed

lemma with_text: "\<exists>s Q. store_ok ref_env s [1 \<mapsto> File 2 [104, 105], 0 \<mapsto> Dir 0 [([102], 1)]] Q"
  and with_bytes: "write_need 0 n \<le> 2964 \<Longrightarrow> n < 2 ^ 31 \<Longrightarrow>
    \<exists>s Q. store_ok ref_env s [1 \<mapsto> File 2 (replicate n b), 0 \<mapsto> Dir 0 [([102], 1)]] Q \<and>
      2964 \<le> card (free_data ref_env s) + write_need 0 n"
  using with_file [of "[104, 105]"] with_file [of "replicate n b"] by (auto simp: write_need_def)

text \<open>The formatted disk with every node of the table taken.\<close>

lemma taken_bits:
  assumes "store_ok ref_env s A Q"
  shows "n \<le> 32 \<Longrightarrow> \<exists>b. store_ok ref_env (s\<lparr>bitmap := b\<rparr>) A Q \<and> (\<forall>k < n. used ref_env (s\<lparr>bitmap := b\<rparr>) (2 + k)) \<and>
    free_data ref_env (s\<lparr>bitmap := b\<rparr>) = free_data ref_env s"
proof (induction n)
  case 0
  show ?case using assms by (intro exI [of _ "bitmap s"]) simp
next
  case (Suc n)
  then obtain b where b: "store_ok ref_env (s\<lparr>bitmap := b\<rparr>) A Q" "\<forall>k < n. used ref_env (s\<lparr>bitmap := b\<rparr>) (2 + k)"
      "free_data ref_env (s\<lparr>bitmap := b\<rparr>) = free_data ref_env s"
    by auto
  let ?s = "s\<lparr>bitmap := b\<rparr>"
  define c where "c = bitarray_set_bit ref_env b (2 + n)"
  have bok: "bitmap_ok ?s" and lim: "2 + n < TOTAL_BLOCKS" using b(1) Suc.prems by (simp_all add: store_ok_def const_simps)
  have u: "used ref_env (s\<lparr>bitmap := c\<rparr>) k \<longleftrightarrow> k = 2 + n \<or> used ref_env ?s k" if "k < 3000" for k
    using ref.used_set_bit [OF bok lim, of k] that by (simp add: const_simps c_def)
  have "bitmap_ok (s\<lparr>bitmap := c\<rparr>)" using ref.bitmap_ok_set_bit [OF bok lim] by (simp add: c_def)
  then have "store_ok ref_env (s\<lparr>bitmap := c\<rparr>) A Q"
    by (intro store_ok_more_used [OF b(1)]) (auto simp: u)
  moreover have "\<forall>k < Suc n. used ref_env (s\<lparr>bitmap := c\<rparr>) (2 + k)"
    using b(2) u Suc.prems by (auto simp: less_Suc_eq)
  moreover have "free_data ref_env (s\<lparr>bitmap := c\<rparr>) = free_data ref_env s"
    unfolding b(3) [symmetric] using u Suc.prems by (auto simp: free_data_def)
  ultimately show ?case by blast
qed

lemma table_full:
  "\<exists>s. store_ok ref_env s [0 \<mapsto> Dir 0 []] (\<lambda>_. {}) \<and> (\<forall>k < 32. used ref_env s (2 + k)) \<and> free_data ref_env s \<noteq> {}"
proof -
  obtain b where "store_ok ref_env (fresh\<lparr>bitmap := b\<rparr>) [0 \<mapsto> Dir 0 []] (\<lambda>_. {})"
      "\<forall>k < 32. used ref_env (fresh\<lparr>bitmap := b\<rparr>) (2 + k)"
      "free_data ref_env (fresh\<lparr>bitmap := b\<rparr>) = {34..<3000}"
    using taken_bits [OF fresh_ok(1), of 32] unfolding fresh_ok(3) by auto
  then show ?thesis by (intro exI [of _ "fresh\<lparr>bitmap := b\<rparr>"]) simp
qed

lemma node_of_blank: "node_ok (node_at blank n)"
  unfolding node_at_def by (rule node_of_ok) (simp add: blank_def)

lemma blank_pointer: "i < 1000 \<Longrightarrow> indirect_pointer_block (node_at blank n) ! i = 0"
proof -
  assume i: "i < 1000"
  then have "memget (memget (replicate 4096 0) 96 4000) (4 * i) 4 = replicate 4 (0 :: byte)"
    by (simp add: memget_def)
  also have "\<dots> = [0, 0, 0, 0]" by (simp add: numeral_eq_Suc)
  finally show ?thesis using i by (simp add: node_at_def node_of_def blank_def u32s_of_def)
qed

lemma fresh_bitmap: "block_to_bitmap ref_env [1] fresh = Inr (bitmap fresh)"
  using ref.format_represents [OF blank_ok] by (auto simp: fresh_def)

lemma with_both:
  "\<exists>s Q. store_ok ref_env s [2 \<mapsto> File 2 [], 1 \<mapsto> Dir 2 [], 0 \<mapsto> Dir 0 [([97], 1), ([102], 2)]] Q"
proof -
  obtain Q where "store_ok ref_env with_a [1 \<mapsto> Dir 2 [], 0 \<mapsto> Dir 0 [([97], 1)]] Q" using with_a_ok(1) by blast
  from ref.open_creates [OF this, of "[]" "[102]" 0 0 "[([97], 1)]" 2 0] with_a_ok(3)
  obtain s Q' where "store_ok ref_env s ([1 \<mapsto> Dir 2 [], 0 \<mapsto> Dir 0 [([97], 1)]]
      (2 \<mapsto> File (of_nat (2 + 0)) [], 0 \<mapsto> Dir 0 ([([97], 1)] @ [([102], of_nat 2)]))) Q'"
    by auto
  moreover have "[1 \<mapsto> Dir 2 [], 0 \<mapsto> Dir 0 [([97], 1)]]
      (2 \<mapsto> File (of_nat (2 + 0)) [], 0 \<mapsto> Dir 0 ([([97], 1)] @ [([102], of_nat 2)])) =
      [2 :: nat \<mapsto> File 2 [], 1 \<mapsto> Dir 2 [], 0 \<mapsto> Dir 0 [([97], 1), ([102], 2)]]"
    by (auto simp: fun_eq_iff)
  ultimately show ?thesis by metis
qed

text \<open>A host whose state is the directories made and removed, and on which no read succeeds.\<close>

definition dir_host :: "cstr list host" where
  "dir_host = \<lparr>host_open = (\<lambda>p m h. (3, h)), host_close = (\<lambda>fd h. (0, h)), host_write = (\<lambda>fd bs off h. (- 1, h)),
    host_read = (\<lambda>fd n off h. (- 1, [], h)), host_remove = (\<lambda>p h. (- 1, h)),
    host_mkdir = (\<lambda>p h. if p \<in> set h then (- 1, h) else (0, p # h)),
    host_rmdir = (\<lambda>p h. if p \<in> set h then (0, remove1 p h) else (- 1, h)),
    host_stat_of = (\<lambda>p h. (- 1, \<lparr>hs_mode = 0, hs_ino = 0, hs_size = 0, hs_mtime = 0, hs_ctime = 0\<rparr>, h)),
    host_readdir = (\<lambda>p h. (None, h)), host_rename = (\<lambda>p q h. (- 1, h)), host_truncate = (\<lambda>p n h. (- 1, h))\<rparr>"

text \<open>Allocating on the formatted disk.\<close>

lemma fresh_bits: "bitmap_ok fresh"
  using fresh_ok(1) by (simp add: store_ok_def)

lemma fresh_allocates: "\<exists>w s'. get_free_data_block ref_env fresh = Inr (w, s')"
  using ref.get_free_data_block_spec [OF fresh_bits] fresh_ok(3) by auto

lemma one_in_turn: "\<exists>y b. in_turn ref_env TOTAL_BLOCKS (start_alloc fresh 34) y \<and> pc y 0 = Returned b"
proof -
  let ?x = "start_alloc fresh 34" and ?R = "\<lambda>x y. (\<exists>i. alloc_step ref_env TOTAL_BLOCKS i x y) \<and> one_inside y"
  let ?a = "goto 0 (Found 34) ?x"
  let ?b = "(goto 0 (Returned 34) ?a)\<lparr>bits := bitarray_set_bit ref_env (bits ?a) 34\<rparr>"
  have sz: "34 < 8 * ba_size (bits ?x)" using fresh_bits by (simp add: start_alloc_def bitmap_ok_def const_simps)
  have free: "\<not> bitarray_test_bit ref_env (bits ?x) 34" using fresh_ok(4) by (simp add: start_alloc_def used_def)
  have "alloc_step ref_env TOTAL_BLOCKS 0 ?x ?a"
    using sz free by (intro alloc_step.free_bit) (simp_all add: start_alloc_def)
  moreover have "one_inside ?a" by (auto simp: one_inside_def start_alloc_def split: if_splits)
  ultimately have a: "?R ?x ?a" by blast
  have "alloc_step ref_env TOTAL_BLOCKS 0 ?a ?b" by (intro alloc_step.take) (simp_all add: const_simps)
  moreover have "one_inside ?b" by (auto simp: one_inside_def start_alloc_def split: if_splits)
  ultimately have b: "?R ?a ?b" by blast
  have "in_turn ref_env TOTAL_BLOCKS ?x ?b"
    unfolding in_turn_def by (rule rtranclp.rtrancl_into_rtrancl [OF r_into_rtranclp]) (rule a b)+
  then show ?thesis by (intro exI [of _ ?b] exI [of _ 34]) simp
qed

section \<open>A machine that starts the server\<close>

text \<open>Its state is the disk file; every call succeeds, and every file exists and has the size of a disk.\<close>

definition ref_os :: "(nat \<Rightarrow> bytes) os" where
  "ref_os = \<lparr>os_access = (\<lambda>_ _. 0), os_stat = (\<lambda>_ _. Some 12288000), os_mkdir = (\<lambda>_ _ d. d),
     os_system = (\<lambda>_ d. d), os_open = (\<lambda>_ d. (3, d)), os_close = (\<lambda>_ d. d), os_contents = (\<lambda>_ d. d),
     os_getaddrinfo = (\<lambda>_ _ hints _. Some hints), os_socket = (\<lambda>_ _ _ d. (4, d)),
     os_bind = (\<lambda>_ _ d. (0, d)), os_listen = (\<lambda>_ _ d. (0, d)), os_accept = (\<lambda>_ d. (5, d)),
     os_connect = (\<lambda>_ _ d. (0, d)), os_log_create = (\<lambda>_ _ d. d), os_log_trace = (\<lambda>_ d. d),
     os_log_destroy = (\<lambda>d. d), os_config = (\<lambda>_ _ _. 0), os_itoa = (\<lambda>_. [48]), os_format = (\<lambda>a _ _. a)\<rparr>"

lemma ref_os_opens: "disk_open ref_os d = Inr (3, d)"
  by (simp add: disk_open_def disk_create_def file_exists_def file_size_of_def ref_os_def const_simps)

lemma ref_os_begins: "server_begin ref_os cfg d = Inr (4, d)"
  by (simp add: server_begin_def init_listenning_socket_def server_init_logger_def init_log_def
      log_server_listenning_def ref_os_def)

lemma ref_os_contents: "os_contents ref_os fd d = d"
  by (simp add: ref_os_def)

end
