(* ===== verification/Threads.thy ===== *)
theory Threads
  imports Commons
begin

text \<open>
  The threads of \<open>server.c\<close>: the accept loop of \<open>server_init\<close> in the main thread, one thread for
  each connection, and the list \<open>connection_threads\<close> that bounds how many there are. The
  interleavings of the main thread and the others are the runs of a step relation.
\<close>

section \<open>Removing a thread from the list\<close>

definition MAX_THREADS :: nat where
  "MAX_THREADS = 6"

text \<open>\<open>list_get\<close> past the end is \<open>NULL\<close>, that is thread 0; no thread has that number.\<close>

definition thread_at :: "nat list_ops \<Rightarrow> nat list \<Rightarrow> nat \<Rightarrow> nat" where
  "thread_at L ts i = (case list_get L ts i of None \<Rightarrow> 0 | Some t \<Rightarrow> t)"

definition remove_thread_from_actual_threads :: "nat list_ops \<Rightarrow> nat \<Rightarrow> nat list \<Rightarrow> nat list" where
  "remove_thread_from_actual_threads L tid ts =
     foldl (\<lambda>ts threadNum. if thread_at L ts threadNum = tid then list_remove L ts threadNum else ts)
       ts [0..<MAX_THREADS]"

section \<open>The step relation\<close>

text \<open>
  \<open>pending\<close>: the thread that the main one has created and not yet added to the list. The list is
  only changed under the mutex, so each change is one step; \<open>list_size\<close> is read without it, before
  \<open>accept\<close> returns. A failed \<open>pthread_create\<close> returns a positive error number, so the test for a
  negative one is never true: the loop goes on and adds \<open>thread_id\<close>, which nothing has set (\<open>failed\<close>),
  and what follows the loop is not reached.
\<close>

record server_threads =
  connection_threads :: "nat list"
  running :: "nat set"
  pending :: "nat option"

inductive server_step :: "nat list_ops \<Rightarrow> server_threads \<Rightarrow> server_threads \<Rightarrow> bool" for L where
  create: "pending s = None \<Longrightarrow> list_size L (connection_threads s) < MAX_THREADS \<Longrightarrow>
    tid \<notin> running s \<Longrightarrow> tid \<noteq> 0 \<Longrightarrow>
    server_step L s (s\<lparr>running := insert tid (running s), pending := Some tid\<rparr>)"
| failed: "pending s = None \<Longrightarrow> list_size L (connection_threads s) < MAX_THREADS \<Longrightarrow>
    server_step L s (s\<lparr>pending := Some thread_id\<rparr>)"
| add: "pending s = Some tid \<Longrightarrow>
    server_step L s (s\<lparr>connection_threads := list_add L (connection_threads s) tid, pending := None\<rparr>)"
| finish: "tid \<in> running s \<Longrightarrow>
    server_step L s (s\<lparr>connection_threads := remove_thread_from_actual_threads L tid (connection_threads s),
      running := running s - {tid}\<rparr>)"

inductive_cases server_stepE: "server_step L s s'"

definition server_start :: "nat list_ops \<Rightarrow> server_threads" where
  "server_start L = \<lparr>connection_threads = list_create L, running = {}, pending = None\<rparr>"

inductive server_reach :: "nat list_ops \<Rightarrow> server_threads \<Rightarrow> bool" for L where
  start: "server_reach L (server_start L)"
| step: "server_reach L s \<Longrightarrow> server_step L s s' \<Longrightarrow> server_reach L s'"

section \<open>Shutting down\<close>

text \<open>
  \<open>finish_server\<close>, after the loop of \<open>server_init\<close>: the calls it makes, in their order.
\<close>

datatype shutdown_call = Pthread_join nat | Close_listening int | List_destroy | Mutex_destroy

definition wait_connection_threads :: "nat list_ops \<Rightarrow> nat list \<Rightarrow> shutdown_call list" where
  "wait_connection_threads L ts = map (\<lambda>threadNum. Pthread_join (thread_at L ts threadNum)) [0..<MAX_THREADS]"

definition finish_server :: "nat list_ops \<Rightarrow> int \<Rightarrow> nat list \<Rightarrow> shutdown_call list" where
  "finish_server L listenning_socket ts =
     wait_connection_threads L ts @ [Close_listening listenning_socket, List_destroy, Mutex_destroy]"

text \<open>Every thread of the list is waited for; with fewer than \<open>MAX_THREADS\<close>, so is thread 0.\<close>

lemma joins_all:
  assumes "list_lib L" and "length ts \<le> MAX_THREADS"
  shows "finish_server L fd ts =
    map Pthread_join (ts @ replicate (MAX_THREADS - length ts) 0) @
    [Close_listening fd, List_destroy, Mutex_destroy]"
proof -
  have "thread_at L ts i = (ts @ replicate (MAX_THREADS - length ts) 0) ! i" if "i < MAX_THREADS" for i
    using that list_lib.get_nth [OF assms(1), of ts i] by (simp add: thread_at_def nth_append)
  then have "map (thread_at L ts) [0..<MAX_THREADS] = ts @ replicate (MAX_THREADS - length ts) 0"
    using assms(2) by (intro nth_equalityI) simp_all
  then have "map Pthread_join (map (thread_at L ts) [0..<MAX_THREADS]) =
      map Pthread_join (ts @ replicate (MAX_THREADS - length ts) 0)" by (rule arg_cong)
  then show ?thesis by (simp add: finish_server_def wait_connection_threads_def comp_def)
qed

section \<open>What removing does\<close>

context list_lib
begin

lemma remove_some:
  "set (list_remove L xs i) \<supseteq> set xs - {xs ! i}" "length (list_remove L xs i) \<le> length xs"
proof -
  show "set (list_remove L xs i) \<supseteq> set xs - {xs ! i}"
  proof
    fix x
    assume "x \<in> set xs - {xs ! i}"
    then obtain j where j: "j < length xs" "xs ! j = x" "j \<noteq> i" by (auto simp: in_set_conv_nth)
    show "x \<in> set (list_remove L xs i)"
    proof (cases "j < i")
      case True
      then have "x \<in> set (take i xs)" using j by (auto simp: in_set_conv_nth)
      then show ?thesis by (simp add: remove_nth)
    next
      case False
      then have "drop (Suc i) xs ! (j - Suc i) = x" and "j - Suc i < length (drop (Suc i) xs)"
        using j by (simp_all add: less_diff_conv)
      then have "x \<in> set (drop (Suc i) xs)" by (metis nth_mem)
      then show ?thesis by (simp add: remove_nth)
    qed
  qed
  show "length (list_remove L xs i) \<le> length xs" by (simp add: remove_nth min_def)
qed

end

lemma remove_thread_keeps:
  assumes "list_lib L" and "tid \<noteq> 0"
  shows "set (remove_thread_from_actual_threads L tid ts) \<supseteq> set ts - {tid}"
    and "length (remove_thread_from_actual_threads L tid ts) \<le> length ts"
proof -
  let ?f = "\<lambda>ts i. if thread_at L ts i = tid then list_remove L ts i else ts"
  have one: "set (?f xs i) \<supseteq> set xs - {tid} \<and> length (?f xs i) \<le> length xs" for xs i
  proof (cases "thread_at L xs i = tid")
    case True
    then have "xs ! i = tid"
      using assms(2) list_lib.get_nth [OF assms(1), of xs i] by (simp add: thread_at_def split: if_splits)
    then show ?thesis
      using list_lib.remove_some [OF assms(1), of xs i] True by simp
  qed simp
  have "set (foldl ?f xs is) \<supseteq> set xs - {tid} \<and> length (foldl ?f xs is) \<le> length xs" for xs "is"
  proof (induction "is" arbitrary: xs)
    case (Cons i "is")
    show ?case using Cons.IH [of "?f xs i"] one [of xs i] by (simp only: foldl_Cons) force
  qed simp
  then show "set (remove_thread_from_actual_threads L tid ts) \<supseteq> set ts - {tid}"
    and "length (remove_thread_from_actual_threads L tid ts) \<le> length ts"
    unfolding remove_thread_from_actual_threads_def by blast+
qed

text \<open>A thread that is in the list once is taken out.\<close>

lemma remove_thread_absent:
  assumes "list_lib L" and "tid \<noteq> 0" and "tid \<notin> set ts"
  shows "foldl (\<lambda>ts i. if thread_at L ts i = tid then list_remove L ts i else ts) ts is = ts"
proof -
  have "thread_at L ts i \<noteq> tid" for i
    using assms(2,3) list_lib.get_nth [OF assms(1), of ts i] by (auto simp: thread_at_def)
  then show ?thesis by (induction "is") simp_all
qed

lemma remove_thread_present:
  assumes "list_lib L" and "tid \<noteq> 0" and "tid \<notin> set xs" "tid \<notin> set ys" and "length xs < MAX_THREADS"
  shows "remove_thread_from_actual_threads L tid (xs @ tid # ys) = xs @ ys"
proof -
  let ?f = "\<lambda>ts i. if thread_at L ts i = tid then list_remove L ts i else ts" and ?ts = "xs @ tid # ys"
  have "foldl ?f ?ts [0..<k] = ?ts" if "k \<le> length xs" for k
    using that
  proof (induction k)
    case (Suc k)
    have "list_get L ?ts k = Some (xs ! k)" "xs ! k \<in> set xs"
      using Suc.prems list_lib.get_nth [OF assms(1), of ?ts k] by (simp_all add: nth_append)
    then have "thread_at L ?ts k \<noteq> tid" using assms(3) by (auto simp: thread_at_def)
    then show ?case using Suc by simp
  qed simp
  from this [of "length xs"] have 1: "foldl ?f ?ts [0..<length xs] = ?ts" by simp
  have "thread_at L ?ts (length xs) = tid"
    using list_lib.get_nth [OF assms(1), of ?ts "length xs"] by (simp add: thread_at_def)
  then have 2: "?f ?ts (length xs) = xs @ ys"
    using list_lib.remove_nth [OF assms(1)] by simp
  have "[0..<MAX_THREADS] = [0..<length xs] @ length xs # [Suc (length xs)..<MAX_THREADS]"
    using assms(5) upt_add_eq_append [of 0 "length xs" "MAX_THREADS - length xs"]
    by (simp add: upt_conv_Cons)
  then have "remove_thread_from_actual_threads L tid ?ts =
      foldl ?f (?f (foldl ?f ?ts [0..<length xs]) (length xs)) [Suc (length xs)..<MAX_THREADS]"
    by (simp add: remove_thread_from_actual_threads_def)
  also have "\<dots> = xs @ ys"
    unfolding 1 2 using assms(3,4) by (intro remove_thread_absent [OF assms(1,2)]) simp
  finally show ?thesis .
qed

section \<open>The bound on threads\<close>

definition threads_ok :: "server_threads \<Rightarrow> bool" where
  "threads_ok s \<longleftrightarrow>
     finite (running s) \<and> 0 \<notin> running s \<and>
     running s \<subseteq> set (connection_threads s) \<union> set_option (pending s) \<and>
     length (connection_threads s) + (if pending s = None then 0 else 1) \<le> MAX_THREADS"

lemma threads_ok_start: "list_lib L \<Longrightarrow> threads_ok (server_start L)"
  by (simp add: threads_ok_def server_start_def list_lib.create_nil)

lemma threads_ok_step:
  assumes "list_lib L" and "server_step L s s'" and "threads_ok s"
  shows "threads_ok s'"
  using assms(2)
proof cases
  case (create tid)
  then show ?thesis
    using assms(3) list_lib.size_length [OF assms(1)] by (auto simp: threads_ok_def)
next
  case (failed thread_id)
  then show ?thesis
    using assms(3) list_lib.size_length [OF assms(1)] by (auto simp: threads_ok_def)
next
  case (add tid)
  then show ?thesis
    using assms(3) list_lib.add_append [OF assms(1)] by (auto simp: threads_ok_def)
next
  case (finish tid)
  then have "tid \<noteq> 0" using assms(3) unfolding threads_ok_def by (metis)
  note r = remove_thread_keeps [OF assms(1) this, of "connection_threads s"]
  show ?thesis
    using assms(3) finish(1) r unfolding finish(2) by (auto simp: threads_ok_def split: if_splits)
qed

lemma threads_ok_reach:
  assumes "list_lib L" and "server_reach L s"
  shows "threads_ok s"
  using assms(2) by induction (use assms(1) threads_ok_start threads_ok_step in blast)+

lemma threads_bound:
  assumes "threads_ok s"
  shows "card (running s) \<le> MAX_THREADS"
proof -
  have "card (running s) \<le> card (set (connection_threads s) \<union> set_option (pending s))"
    using assms by (intro card_mono) (auto simp: threads_ok_def)
  also have "\<dots> \<le> card (set (connection_threads s)) + card (set_option (pending s))" by (rule card_Un_le)
  also have "\<dots> \<le> length (connection_threads s) + (if pending s = None then 0 else 1)"
    using card_length [of "connection_threads s"] by (cases "pending s") auto
  finally show ?thesis using assms by (simp add: threads_ok_def)
qed

section \<open>A server that accepts no more\<close>

text \<open>
  A thread that ends before the main one adds it stays in the list for ever. After six of
  them nothing runs and no step is possible. Six threads that could not be created do the same.
\<close>

definition stuck :: "nat list_ops \<Rightarrow> server_threads \<Rightarrow> bool" where
  "stuck L s \<longleftrightarrow> running s = {} \<and> (\<forall>s'. \<not> server_step L s s')"

lemma early_end:
  assumes "list_lib L" and "server_reach L \<lparr>connection_threads = ts, running = {}, pending = None\<rparr>"
    and "length ts < MAX_THREADS" and "tid \<noteq> 0" and "tid \<notin> set ts"
  shows "server_reach L \<lparr>connection_threads = ts @ [tid], running = {}, pending = None\<rparr>"
proof -
  let ?s = "\<lparr>connection_threads = ts, running = {}, pending = None\<rparr>"
  let ?s1 = "\<lparr>connection_threads = ts, running = {tid}, pending = Some tid\<rparr>"
  let ?s2 = "\<lparr>connection_threads = ts, running = {}, pending = Some tid\<rparr>"
  have "foldl (\<lambda>ts i. if thread_at L ts i = tid then list_remove L ts i else ts) ts is = ts" for "is"
    by (rule remove_thread_absent [OF assms(1,4,5)])
  then have rm: "remove_thread_from_actual_threads L tid ts = ts"
    by (simp add: remove_thread_from_actual_threads_def)
  have "server_step L ?s ?s1"
    using server_step.create [of ?s L tid] assms list_lib.size_length [OF assms(1)] by simp
  then have "server_reach L ?s1" by (rule server_reach.step [OF assms(2)])
  moreover have "server_step L ?s1 ?s2" using server_step.finish [of tid ?s1 L] rm by simp
  ultimately have "server_reach L ?s2" by (rule server_reach.step)
  moreover have "server_step L ?s2 \<lparr>connection_threads = ts @ [tid], running = {}, pending = None\<rparr>"
    using server_step.add [of ?s2 tid L] list_lib.add_append [OF assms(1)] by simp
  ultimately show ?thesis by (rule server_reach.step)
qed

lemma failed_stays:
  assumes "list_lib L" and "server_reach L \<lparr>connection_threads = ts, running = {}, pending = None\<rparr>"
    and "length ts < MAX_THREADS"
  shows "server_reach L \<lparr>connection_threads = ts @ [thread_id], running = {}, pending = None\<rparr>"
proof -
  let ?s = "\<lparr>connection_threads = ts, running = {}, pending = None\<rparr>"
  let ?s1 = "\<lparr>connection_threads = ts, running = {}, pending = Some thread_id\<rparr>"
  have "server_step L ?s ?s1"
    using server_step.failed [of ?s L thread_id] assms list_lib.size_length [OF assms(1)] by simp
  then have "server_reach L ?s1" by (rule server_reach.step [OF assms(2)])
  moreover have "server_step L ?s1 \<lparr>connection_threads = ts @ [thread_id], running = {}, pending = None\<rparr>"
    using server_step.add [of ?s1 thread_id L] list_lib.add_append [OF assms(1)] by simp
  ultimately show ?thesis by (rule server_reach.step)
qed

lemma stuck_reachable:
  assumes "list_lib L"
  shows "\<exists>s. server_reach L s \<and> stuck L s"
proof -
  have "server_reach L \<lparr>connection_threads = [1..<Suc n], running = {}, pending = None\<rparr>" if "n \<le> 6" for n
    using that
  proof (induction n)
    case 0
    then show ?case using server_reach.start [of L] list_lib.create_nil [OF assms] by (simp add: server_start_def)
  next
    case (Suc n)
    then show ?case
      using early_end [OF assms, of "[1..<Suc n]" "Suc n"] by (simp add: MAX_THREADS_def)
  qed
  from this [of 6] have "server_reach L \<lparr>connection_threads = [1..<7], running = {}, pending = None\<rparr>" by simp
  moreover have "stuck L \<lparr>connection_threads = [1..<7], running = {}, pending = None\<rparr>"
    using list_lib.size_length [OF assms] by (auto simp: stuck_def MAX_THREADS_def elim!: server_stepE)
  ultimately show ?thesis by blast
qed

end
