(* ===== verification/Spec2Isabelle.thy ===== *)
theory Spec2Isabelle
  imports Fixture Threads
begin

text \<open>
  SAC: a block file system in C (\<open>FileSystem/sac-fs\<close>), a server that offers it over a socket
  (\<open>FileSystem/mtserver\<close>) and a FUSE client (\<open>FileSystem/sac-cli\<close>). This library models the three
  and their composition, and proves that they implement a tree of directories and files.

  \<^bold>\<open>The program.\<close> A disk is a file of 4096-byte blocks, mapped block by block: block 0 is the
  header, block 1 the bitmap, blocks 2 to 33 the node table (one node in each), the rest data. A
  node is a file or a directory; it has up to 1000 pointer blocks of up to 1024 data blocks each.
  The data of a directory are its entries, 128 bytes each: the number of a node and a name. The
  client turns each call of FUSE into a message of an 8-byte identifier, a 4-byte size and the
  arguments, sends it after a handshake on a new connection and waits for the answer. The server has
  a thread for each connection, which reads a message, runs the operation of the file system (or, in
  Linux mode, the call of the host) and sends the answer.

  \<^bold>\<open>State.\<close> \<open>fs\<close> (theory Block) has the disk (a map from block numbers to bytes), the
  bitmap in memory and the number of allocations so far. A mapping is \<open>MAP_SHARED\<close>, so a store
  through it is a store to the disk; nodes are copied to memory and written back by
  \<open>unmap_and_destroy_node\<close>, as in the code, so a node changed twice through two copies is changed
  as the code would. The server adds the state of the host; the state on the client's side is the
  connection (\<open>None\<close> when the server is gone). A result is \<open>Inl\<close> an error (a fault or undefined
  behaviour: a bad mapping, an access out of bounds, a buffer overrun, \<open>exit(-1)\<close>) or \<open>Inr\<close> the
  value and the state. Errors that the code reports are values: -1, -2 and the errno constants.
  C integers are words of their width; \<open>int\<close> values that are only compared or returned are
  \<open>int\<close>.

  \<^bold>\<open>Code outside the repository\<close> is a parameter: \<open>E :: env\<close> (the so-commons bit arrays and strings,
  the sizes of pointers, \<open>size_t\<close>, \<open>off_t\<close> and \<open>time_t\<close>, the clock, the bytes of uninitialised memory and
  past the end of a buffer, those that \<open>memcpy\<close> leaves when its ranges overlap, and those that \<open>send\<close>
  transmits of a buffer shorter than it is told), \<open>L\<close> (the so-commons lists), \<open>H\<close> (the
  system calls of the host in Linux mode), \<open>M\<close> (what starting the programs asks of the machine: files,
  sockets, the log, the configuration file) and \<open>P\<close> (what answers a connection; \<open>server_peer\<close> is the model of the
  server). What the code relies on of it are the locales \<open>bitarray_lib\<close>, \<open>string_lib\<close>,
  \<open>ilp32\<close> and \<open>list_lib\<close> of Commons; a property that uses them names them as hypotheses, and its
  witness is at \<open>ref_env\<close> and \<open>ref_lists\<close>, a library that satisfies them. No property fixes the
  host.

  \<^bold>\<open>Undefined behaviour.\<close> What C leaves undefined is an error value (\<open>Overrun\<close>, \<open>Out_of_bounds\<close>,
  \<open>Bad_map\<close>), with two exceptions. \<open>delete_directory_entry\<close> (\<open>directory.c\<close>, line 75) moves the entries
  behind the deleted one down with a \<open>memcpy\<close> whose ranges overlap, for each of the first 30 places of a
  directory: the model gives the destination any bytes (\<open>memcpy_overlap\<close>) and leaves the rest of the page,
  so what is proved of deletion is proved of the last entry of a directory (\<open>is_last\<close>), behind which there
  is nothing that counts; \<open>delete_garbles\<close> has what a \<open>memcpy\<close> that C allows does to the others. And
  \<open>read_blocks\<close> (\<open>block.c\<close>, lines 16 and 22) stores its terminator partly behind the memory it asked
  for: the model has the list of the blocks only and says nothing of what that store hits.

  \<^bold>\<open>Theories of the model\<close>, in the order of the code.
  Prelude: integers, buffers, C strings, little-endian encoding. Commons: the parameters.
  Block: \<open>block.c\<close> and the constants of \<open>disk.h\<close>. Bitmap: \<open>bitmap.c\<close>. Utils: the structures of
  \<open>disk.h\<close>, their bytes (\<open>utils.c\<close>) and paths. Node: \<open>node.c\<close>. Directory: \<open>directory.c\<close>.
  File: \<open>file.c\<close>. Sacio: \<open>sacio.c\<close>, the twelve operations. Format: \<open>format_disk\<close> of \<open>disk.c\<close> and
  what \<open>sac.c\<close> does with the disk before the server starts. Report: what \<open>utils.c\<close> and \<open>node.c\<close>
  print, and \<open>iterate_pointers_add_list\<close> of \<open>directory.c\<close>. Os: the two \<open>log.c\<close>, the sockets of
  \<open>server.c\<close> and \<open>client.c\<close>, the file tests of \<open>utils.c\<close>. Startup: \<open>disk_open\<close> of \<open>disk.c\<close>, \<open>set_config\<close>
  and \<open>main\<close> of \<open>sac.c\<close>, \<open>server_init\<close> of \<open>server.c\<close> up to its loop. Launch: \<open>main\<close> and the options of
  \<open>fuse.c\<close>. Serialization: \<open>serialization.c\<close>. Fs_Sac: \<open>fs_sac.c\<close>. Fs_Local:
  \<open>fs_local.c\<close>. Server: \<open>server.c\<close> for one connection. Threads: \<open>server.c\<close> for many, as a step
  relation, and the shutdown. Alloc_Threads: \<open>_get_free_block\<close> of \<open>bitmap.c\<close> in several threads at once, as a step
  relation. Client: \<open>client.c\<close>, the \<open>do_\<close> functions of \<open>fuse.c\<close> and the table
  \<open>do_oper\<close> of \<open>fuse.h\<close>.

  \<^bold>\<open>Theories of proofs.\<close>
  Dir_Spec and Dir_Update: a directory holds a list of entries; the searches find the first of a
  name, adding appends, deleting takes the last one away (of another it says which bytes are unknown). FS_Spec: the abstract file system (a map from
  node numbers to \<open>Dir\<close> with its entries and \<open>File\<close> with its bytes) and \<open>store_ok E s A Q\<close>, that a
  disk represents it: the bits, sizes and parents of nodes, contents, and no block with two owners.
  FS_Update: the updates to one node. Sacio_Spec: open, opendir, mkdir, readdir and getattr against
  the abstract file system. File_Read, File_Write, Write_Spec: the loops of read and write, block by
  block. Trunc_Spec: shrinking and growing a file. Remove_Spec, Rmdir_Spec, Rename_Spec: the
  operations that take entries away. Tree: the invariant \<open>tree_ok\<close> of the abstract file system
  and the updates that keep it. Refinement: commands, \<open>effect\<close> (the specification of each), the
  states a formatted disk reaches, and the simulation. Session: the functions of FUSE against
  the abstract file system behind the connection. Mount: the requests of FUSE that change the tree
  as commands and their simulation from client to disk, the answers to those that only read, and
  the states that a mounted file system reaches. Passthrough: the Linux mode, a request as one call of
  the host, the requests that the client answers alone, and a read that the host refuses. Hole: what a write past the end does beyond the first block. Fixture:
  concrete states for the instances.
  The operations of the locales are proved inside them; the interpretations are \<open>ref\<close> and
  \<open>ref_list\<close> (Commons), and one of \<open>message\<close> for each message (Serialization).

  \<^bold>\<open>The properties.\<close> The first section has the whole file system against its specification and the
  invariant of all reachable disks. Then come the composition with client and server; each
  operation with what it returns, what it changes and how many blocks it takes or gives back; the
  layout (bitmap, header, nodes, block numbers), with the round trips of their bytes; the
  messages, from the client's arguments to what the server reads of them; the threads; and defects that the proofs
  brought to light, each stated as the code behaves.

  \<^bold>\<open>Bounds.\<close> Properties of one operation that add an entry ask for fewer than 31 entries in the
  directory; on a well-formed tree that follows from a free node in the table of 32
  (\<open>free_node_room\<close>, \<open>moved_room\<close>), and the properties of the whole do not ask for it. Files are below \<open>2 ^ 31\<close> bytes, the range of the
  \<open>int\<close> that the code computes offsets with; \<open>write_need\<close> bounds the blocks that a write may take;
  \<open>fillable\<close> is an offset inside the file or in its first block, where a hole is filled with zeros
  (\<open>hole_corrupts\<close> shows what happens beyond);
  \<open>no_spare\<close> leaves out the truncation of a file that may have a spare pointer block.
  Properties that count on the layout of pointer blocks have \<open>sizeof_ptr E = 4\<close>, the 32-bit target
  of the code; \<open>block_number\<close> and \<open>write_message_lp64\<close> show what a 64-bit target does.
  A removal, and a renaming, is that of the last entry of a directory (\<open>is_last\<close>, above).
  \<open>collect_childs\<close> (the recursion of \<open>sac_rmdir\<close>) need not end on a cyclic disk and is a
  \<open>partial_function\<close>; that it returns on a represented one is part of the properties of rmdir. All
  other loops are total and no fuel is used. \<open>slack\<close> is the hypothesis that the two bytes after the
  path of a stat message can be read, which \<open>stat_message_reads_past\<close> shows is needed.

  \<^bold>\<open>Not modelled.\<close> Memory management (\<open>free\<close>, \<open>arr_free\<close> and the \<open>destroy_\<close> functions), which has no effect
  on the values computed; that the code frees each block once is not shown. What the machine does
  behind the calls of \<open>os\<close> and \<open>host\<close>. Terminal output, but for the functions whose only work it is
  (theory Report); the trace lines that the \<open>do_\<close> functions of the client log. Concurrency inside the
  file system: the code has no lock there; of two operations at
  once only the allocation of a block is modelled, which is where both may get the same block. The code of
  \<open>main\<close> after \<open>server_init\<close> is never reached. A directory of 32 or more entries cannot arise from the
  covered commands and is reached by the definitions only. The program \<open>test.c\<close> of \<open>scripts\<close> only makes
  system calls on a mounted directory and waits for keys between them.
\<close>

section \<open>The file system as a whole\<close>

text \<open>
  C1: the operations that change the disk refine the abstract tree: on a disk that represents a
  well-formed tree, a covered command (mkdir, create or open, write, remove, rmdir, rename,
  truncate) returns, its result is the one the specification gives, the disk then represents the
  tree the specification gives, and that tree is again well formed (root a directory, names
  distinct, every entry a live child with the right parent, every node reachable). Covered is:
  good paths that look for nothing inside a file, a free node and the blocks for what is added,
  a new name that is not taken, no directory moved below itself, a write inside the file or in
  its first block, no shortening of a file that may have a spare pointer block
  (\<open>no_spare\<close>), and, since the \<open>memcpy\<close> that deletes any other entry
  overlaps itself (see \<open>delete_garbles\<close>), a removal or renaming only of the last
  entry of a directory.
\<close>

lemma run_refines_spec:
  assumes "commons_lib E" and "list_lib L" and "sizeof_ptr E = 4"
    and "store_ok E s A Q" and "tree_ok A" and "covered E s A c"
  shows "\<exists>s' Q'. run E L c s = Some (Inr (fst (effect (first_free E s) c A), s')) \<and>
    store_ok E s' (snd (effect (first_free E s) c A)) Q' \<and> tree_ok (snd (effect (first_free E s) c A))"
  using commons_lib.run_refines [OF assms] effect_tree [OF assms(4-6)] by (auto simp: simulates_def)

lemma run_refines_spec_witness:
  "\<exists>s' Q'. run ref_env ref_lists (Mkdir [] [97]) fresh =
      Some (Inr (fst (effect (first_free ref_env fresh) (Mkdir [] [97]) [0 \<mapsto> Dir 0 []]), s')) \<and>
    store_ok ref_env s' (snd (effect (first_free ref_env fresh) (Mkdir [] [97]) [0 \<mapsto> Dir 0 []])) Q' \<and>
    tree_ok (snd (effect (first_free ref_env fresh) (Mkdir [] [97]) [0 \<mapsto> Dir 0 []]))"
  by (rule run_refines_spec [OF ref.commons_lib_axioms ref_list.list_lib_axioms ref_ptr
        fresh_ok(1) tree_root covered_a])

text \<open>
  C2: from a formatted disk, after any sequence of covered commands (those of
  \<open>run_refines_spec\<close>: what is removed or renamed is the last entry of its
  directory), the disk represents a well-formed tree: every directory and file has its node, bit
  and blocks, no block belongs to two nodes, every block of a node is marked in the bitmap,
  names are distinct, parents are right and every node is reachable from the root.
\<close>

lemma reached_tree:
  assumes "commons_lib E" and "list_lib L" and "sizeof_ptr E = 4" and "reached E L s A"
  shows "(\<exists>Q. store_ok E s A Q) \<and> tree_ok A"
  by (rule commons_lib.reached_ok [OF assms])

lemma reached_tree_witness:
  "(\<exists>Q. store_ok ref_env with_a (snd (effect (first_free ref_env fresh) (Mkdir [] [97]) [0 \<mapsto> Dir 0 []])) Q) \<and>
   tree_ok (snd (effect (first_free ref_env fresh) (Mkdir [] [97]) [0 \<mapsto> Dir 0 []]))"
  by (rule reached_tree [OF ref.commons_lib_axioms ref_list.list_lib_axioms ref_ptr reached_a])

text \<open>
  C3: \<open>format_disk\<close> of any disk leaves one that represents the empty root: node 1
  is the least free node, all 2966 data blocks are free, block 0 holds the default header, and
  block 1 the bitmap that is in memory.
\<close>

lemma format_empty_root:
  assumes "commons_lib E" and "disk_ok s"
  shows "\<exists>s'. format_disk E s = Inr s' \<and> store_ok E s' [0 \<mapsto> Dir 0 []] (\<lambda>_. {}) \<and>
    free_node E s' 1 \<and> free_data E s' = {34..<3000} \<and>
    block_to_header (disk s' 0) = create_default_header \<and>
    block_to_bitmap E [1] s' = Inr (bitmap s')"
  using commons_lib.format_represents [OF assms] by blast

lemma format_empty_root_witness:
  "\<exists>s'. format_disk ref_env blank = Inr s' \<and> store_ok ref_env s' [0 \<mapsto> Dir 0 []] (\<lambda>_. {}) \<and>
    free_node ref_env s' 1 \<and> free_data ref_env s' = {34..<3000} \<and>
    block_to_header (disk s' 0) = create_default_header \<and>
    block_to_bitmap ref_env [1] s' = Inr (bitmap s')"
  by (rule format_empty_root [OF ref.commons_lib_axioms blank_ok])

text \<open>
  C4: \<open>main\<close> of the server, on whatever disk file \<open>disk_open\<close> opens,
  with \<open>-f\<close> ends with a disk that represents the empty root; and each later start
  without arguments, on a machine where the disk holds that and the socket can be set up, serves
  the empty root in SAC mode on port 21000.
\<close>

lemma server_boots:
  assumes "commons_lib E" and "disk_open M d = Inr (fd, d')" and "disk_ok (s\<lparr>disk := os_contents M fd d'\<rparr>)"
  shows "\<exists>s'. sac_main M E [prog, lit ''-f''] s d = Inr (Exited s', d') \<and>
    store_ok E s' [0 \<mapsto> Dir 0 []] (\<lambda>_. {}) \<and>
    (\<forall>e fd' e' k e'' s0. disk_open M e = Inr (fd', e') \<and> os_contents M fd' e' = disk s' \<and>
       server_begin M \<lparr>USE_LINUX_FS = False, LISTEN_PORT = lit ''21000''\<rparr> e' = Inr (k, e'') \<longrightarrow>
       (\<exists>s''. sac_main M E [prog] s0 e = Inr (Serving \<lparr>USE_LINUX_FS = False, LISTEN_PORT = lit ''21000''\<rparr> k s'', e'') \<and>
          store_ok E s'' [0 \<mapsto> Dir 0 []] (\<lambda>_. {})))"
proof -
  obtain s' where s': "sac_main M E [prog, lit ''-f''] s d = Inr (Exited s', d')"
      "store_ok E s' [0 \<mapsto> Dir 0 []] (\<lambda>_. {})" "block_to_bitmap E [1] s' = Inr (bitmap s')"
    using commons_lib.main_formats [OF assms] by blast
  show ?thesis
    using s' main_boots [OF _ _ store_okD(1) [OF s'(2)] s'(3), unfolded default_settings_def] by fastforce
qed

lemma server_boots_witness:
  "\<exists>s'. sac_main ref_os ref_env [[115], lit ''-f''] blank (disk blank) = Inr (Exited s', disk blank) \<and>
    store_ok ref_env s' [0 \<mapsto> Dir 0 []] (\<lambda>_. {}) \<and>
    (\<exists>s''. sac_main ref_os ref_env [[115]] blank (disk s') =
        Inr (Serving \<lparr>USE_LINUX_FS = False, LISTEN_PORT = lit ''21000''\<rparr> 4 s'', disk s') \<and>
      store_ok ref_env s'' [0 \<mapsto> Dir 0 []] (\<lambda>_. {}))"
  using server_boots [OF ref.commons_lib_axioms ref_os_opens, where s = blank and d = "disk blank" and prog = "[115]"] blank_ok
  by (fastforce simp: ref_os_contents ref_os_opens ref_os_begins)

section \<open>Client and server together\<close>

text \<open>
  C5: every covered request to the mounted file system that changes the disk (mkdir, create or
  open, write, unlink, rmdir, rename, truncate; what is removed or renamed is the last entry of
  its directory, as in \<open>run_refines_spec\<close>), with paths and sizes that the messages
  carry, refines the abstract tree from end to end: the request of FUSE returns the reply for
  the result that the specification gives, through client, message, server, operation and
  answer, and the disk of the server then represents the tree of the specification, which is
  well formed.
\<close>

lemma mounted_refines:
  assumes "commons_lib E" and "list_lib L" and "sizeof_ptr E = 4" and "off_ok C E"
    and "store_ok E (srv_fs v) A Q" and "tree_ok A" and "covered E (srv_fs v) A c" and "carried c" and "asks C c rq"
  shows "\<exists>v' Q'. do_oper C uid gid t (server_peer E L H False) rq (Some v) =
      Inr (reply c (fst (effect (first_free E (srv_fs v)) c A)), Some v') \<and>
    store_ok E (srv_fs v') (snd (effect (first_free E (srv_fs v)) c A)) Q' \<and>
    tree_ok (snd (effect (first_free E (srv_fs v)) c A))"
  using commons_lib.fuse_refines [OF assms] effect_tree [OF assms(5-7)] by blast

lemma mounted_refines_witness:
  "\<forall>H. \<exists>v' Q'. do_oper ref_env 0 0 0 (server_peer ref_env ref_lists H False) (Fuse_mkdir (child_path [] [97]) 511)
      (Some \<lparr>srv_fs = fresh, srv_host = ()\<rparr>) =
      Inr (reply (Mkdir [] [97]) (fst (effect (first_free ref_env (srv_fs \<lparr>srv_fs = fresh, srv_host = ()\<rparr>)) (Mkdir [] [97]) [0 \<mapsto> Dir 0 []])), Some v') \<and>
    store_ok ref_env (srv_fs v') (snd (effect (first_free ref_env (srv_fs \<lparr>srv_fs = fresh, srv_host = ()\<rparr>)) (Mkdir [] [97]) [0 \<mapsto> Dir 0 []])) Q' \<and>
    tree_ok (snd (effect (first_free ref_env (srv_fs \<lparr>srv_fs = fresh, srv_host = ()\<rparr>)) (Mkdir [] [97]) [0 \<mapsto> Dir 0 []]))"
proof (rule allI, rule mounted_refines [OF ref.commons_lib_axioms ref_list.list_lib_axioms ref_ptr ref_off])
  show "store_ok ref_env (srv_fs \<lparr>srv_fs = fresh, srv_host = ()\<rparr>) [0 \<mapsto> Dir 0 []] (\<lambda>_. {})"
    and "covered ref_env (srv_fs \<lparr>srv_fs = fresh, srv_host = ()\<rparr>) [0 \<mapsto> Dir 0 []] (Mkdir [] [97])"
    using fresh_ok(1) covered_a by simp_all
qed (fact tree_root carried_a asks.mkdir)+

text \<open>
  C6: from a server started on a formatted disk, after any sequence of covered requests to the
  mounted file system (\<open>mounted_refines\<close>; an entry that goes is the last of its
  directory) and of requests that read (\<open>mounted_answers\<close>), the server is still
  running and its disk represents a well-formed tree, the one that the specification gives for
  those requests.
\<close>

lemma mounted_tree:
  assumes "commons_lib E" and "list_lib L" and "sizeof_ptr E = 4" and "off_ok C E"
    and "mounted C E L H w A"
  shows "\<exists>v Q. w = Some v \<and> store_ok E (srv_fs v) A Q \<and> tree_ok A"
  by (rule commons_lib.mounted_ok [OF assms])

lemma mounted_tree_witness:
  "\<forall>H :: unit host. \<exists>w. mounted ref_env ref_env ref_lists H w (snd (effect (first_free ref_env fresh) (Mkdir [] [97]) [0 \<mapsto> Dir 0 []])) \<and>
    (\<exists>v Q. w = Some v \<and>
      store_ok ref_env (srv_fs v) (snd (effect (first_free ref_env fresh) (Mkdir [] [97]) [0 \<mapsto> Dir 0 []])) Q \<and>
      tree_ok (snd (effect (first_free ref_env fresh) (Mkdir [] [97]) [0 \<mapsto> Dir 0 []])))"
proof
  fix H :: "unit host"
  obtain w where w: "mounted ref_env ref_env ref_lists H w (snd (effect (first_free ref_env fresh) (Mkdir [] [97]) [0 \<mapsto> Dir 0 []]))"
    using mounted_a by blast
  with mounted_tree [OF ref.commons_lib_axioms ref_list.list_lib_axioms ref_ptr ref_off w]
  show "\<exists>w. mounted ref_env ref_env ref_lists H w (snd (effect (first_free ref_env fresh) (Mkdir [] [97]) [0 \<mapsto> Dir 0 []])) \<and>
    (\<exists>v Q. w = Some v \<and>
      store_ok ref_env (srv_fs v) (snd (effect (first_free ref_env fresh) (Mkdir [] [97]) [0 \<mapsto> Dir 0 []])) Q \<and>
      tree_ok (snd (effect (first_free ref_env fresh) (Mkdir [] [97]) [0 \<mapsto> Dir 0 []])))" by blast
qed

text \<open>
  C7: what a program writes through \<open>do_write\<close> of the mounted file system, at an
  offset inside a file or in its first block, it reads back through \<open>do_read\<close>:
  client, messages, server, file system and disk in composition, with as many blocks as the data
  needs.
\<close>

lemma fuse_write_then_read:
  assumes "commons_lib E" and "store_ok E (srv_fs v) A Q" and "sizeof_ptr E = 4" and "wire_ok C E"
    and "A n = Some (File p bs)" and "correct_path C path"
    and "fillable off (length bs)" and "length bs < 2 ^ 31" and "off + length data < 2 ^ 31"
    and "data \<noteq> []" and "length buffer = length data"
    and "write_need off (length data) \<le> card (free_data E (srv_fs v))"
  shows "\<exists>v1 v2. do_write C t (server_peer E L H False) data (length data) (int off) (of_nat n) (Some v) =
      Inr (int (length data), Some v1) \<and>
    do_read C u (server_peer E L H False) path buffer (length data) (int off) (of_nat n) (Some v1) =
      Inr (int (length data), data, Some v2)"
  by (rule commons_lib.do_write_then_read [OF assms])

lemma fuse_write_then_read_witness:
  "\<forall>H. \<exists>v1 v2. do_write ref_env 0 (server_peer ref_env ref_lists H False) [104, 105] (length [104, 105 :: byte])
      (int 0) (of_nat 1) (Some \<lparr>srv_fs = with_f, srv_host = ()\<rparr>) = Inr (int (length [104, 105 :: byte]), Some v1) \<and>
    do_read ref_env 9 (server_peer ref_env ref_lists H False) [47, 102] [0, 0] (length [104, 105 :: byte])
      (int 0) (of_nat 1) (Some v1) = Inr (int (length [104, 105 :: byte]), [104, 105], Some v2)"
proof
  fix H :: "unit host"
  obtain Q where "store_ok ref_env with_f [1 \<mapsto> File 2 [], 0 \<mapsto> Dir 0 [([102], 1)]] Q" using with_f_ok(1) by blast
  then show "\<exists>v1 v2. do_write ref_env 0 (server_peer ref_env ref_lists H False) [104, 105] (length [104, 105 :: byte])
      (int 0) (of_nat 1) (Some \<lparr>srv_fs = with_f, srv_host = ()\<rparr>) = Inr (int (length [104, 105 :: byte]), Some v1) \<and>
    do_read ref_env 9 (server_peer ref_env ref_lists H False) [47, 102] [0, 0] (length [104, 105 :: byte])
      (int 0) (of_nat 1) (Some v1) = Inr (int (length [104, 105 :: byte]), [104, 105], Some v2)"
    using with_f_ok(2)
    by (intro fuse_write_then_read [OF ref.commons_lib_axioms, where p = 2 and bs = "[]" and Q = Q and
          A = "[1 \<mapsto> File 2 [], 0 \<mapsto> Dir 0 [([102], 1)]]"])
       (simp_all add: ref_ptr ref_wire ref_correct write_need_def fillable_def)
qed

text \<open>
  C8: the requests to the mounted file system that read are answered from the abstract tree, and
  leave it as it is: getattr and readdir are asked of valid paths that look for nothing inside a
  file; getattr gives the type, number and size of the node or ENOENT (where the two bytes that
  the server reads behind the stat message can be read, \<open>slack\<close>), readdir the two
  dots and the names of the directory in their order, or ENOENT for a file or a missing path;
  read of a file that has bytes, with the handle of its node and sizes and offsets below
  \<open>2 ^ 31\<close>, gives the bytes from the offset on, none at the end of the file or
  beyond (a file without bytes is left out, see \<open>fuse_read_empty\<close>). Getattr, open,
  read and release of a path that the client hides, and flush, opendir and access, are answered
  with 0 and without the server. Release does not answer from the tree: for the handle of a node
  it gives 1 when the number of the node is at least 2, and 0 otherwise.
\<close>

lemma mounted_answers:
  assumes "commons_lib E" and "sizeof_ptr E = 4" and "off_ok C E"
    and "store_ok E (srv_fs v) A Q" and "tree_ok A" and "askable C E A q"
  shows "\<exists>r v'. do_oper C uid gid t (server_peer E L H False) q (Some v) = Inr (r, Some v') \<and>
    answers C A q r \<and> store_ok E (srv_fs v') A Q"
  by (rule commons_lib.query_answered [OF assms])

lemma mounted_answers_witness:
  "\<forall>H. \<exists>r v'. do_oper ref_env 0 0 0 (server_peer ref_env ref_lists H False) (Fuse_getattr [47])
      (Some \<lparr>srv_fs = fresh, srv_host = ()\<rparr>) = Inr (r, Some v') \<and>
    answers ref_env [0 \<mapsto> Dir 0 []] (Fuse_getattr [47]) r \<and> store_ok ref_env (srv_fs v') [0 \<mapsto> Dir 0 []] (\<lambda>_. {})"
proof (rule allI, rule mounted_answers [OF ref.commons_lib_axioms ref_ptr ref_off])
  show "store_ok ref_env (srv_fs \<lparr>srv_fs = fresh, srv_host = ()\<rparr>) [0 \<mapsto> Dir 0 []] (\<lambda>_. {})"
    using fresh_ok(1) by simp
  show "askable ref_env ref_env [0 \<mapsto> Dir 0 []] (Fuse_getattr [47])" by (auto simp: root_path intro: ref_slack)
qed (fact tree_root)

text \<open>
  C9: in the Linux mode of the server a request is one call of the host, on the same path below
  the base directory, and the host is left as the call leaves it. For mkdir, create, open,
  write, unlink, rmdir, rename, truncate and release the reply is that for the status of the
  call, success or failure (\<open>status_reply\<close>: the handle or EACCES for create and
  open, the status for the others, -2 of rmdir as ENOTEMPTY); getattr gives the fields of the
  host's \<open>stat\<close> in the widths of the message, or ENOENT when it fails; readdir the
  names of the host after \<open>.\<close> and \<open>..\<close>, and read the bytes of the
  host, when the call of the host succeeds (a failed read is
  \<open>linux_read_unchecked\<close>). Descriptors are below 32768, sizes and offsets below
  \<open>2 ^ 31\<close>. Flush, opendir, access and what is asked of a path that the client
  hides make no call, and the client answers 0. The disk of the file system is not touched.
\<close>

lemma linux_passthrough:
  assumes "string_lib E" and "off_ok C E"
    and "(\<exists>i. host_does C H rq (srv_host v) i h' \<and> - (2 ^ 31) \<le> i \<and> i < 2 ^ 31 \<and> r = status_reply rq i) \<or>
      host_reads C E uid gid H rq (srv_host v) r h' \<or> client_only C rq r \<and> h' = srv_host v"
  shows "\<exists>v'. do_oper C uid gid t (server_peer E L H True) rq (Some v) = Inr (r, Some v') \<and>
    srv_host v' = h' \<and> disk (srv_fs v') = disk (srv_fs v) \<and> bitmap (srv_fs v') = bitmap (srv_fs v)"
proof (cases "client_only C rq r \<and> h' = srv_host v")
  case True
  then show ?thesis by (intro exI [of _ v]) (simp add: client_only_run)
next
  case False
  then have "do_oper C uid gid t (server_peer E L H True) rq (Some v) = Inr (r, Some ((ticks 4 v)\<lparr>srv_host := h'\<rparr>))"
    using assms(3)
    by (elim disjE exE conjE)
      (simp_all add: string_lib.linux_run [OF assms(1) _ assms(2)] string_lib.linux_query [OF assms(1) _ assms(2)])
  then show ?thesis by (simp add: ticks_def)
qed

lemma linux_passthrough_witness:
  "(\<exists>v'. do_oper ref_env 0 0 0 (server_peer ref_env ref_lists dir_host True) (Fuse_mkdir [47, 97] 511)
      (Some \<lparr>srv_fs = fresh, srv_host = []\<rparr>) = Inr (Result 0, Some v') \<and>
    srv_host v' = [BASE_PATH @ [47, 97]] \<and> disk (srv_fs v') = disk fresh \<and> bitmap (srv_fs v') = bitmap fresh) \<and>
   (\<exists>v'. do_oper ref_env 0 0 0 (server_peer ref_env ref_lists dir_host True) (Fuse_getattr [47, 97])
      (Some \<lparr>srv_fs = fresh, srv_host = []\<rparr>) = Inr (Attributes (- ENOENT) None, Some v') \<and>
    srv_host v' = [] \<and> disk (srv_fs v') = disk fresh \<and> bitmap (srv_fs v') = bitmap fresh)"
proof -
  let ?v = "\<lparr>srv_fs = fresh, srv_host = []\<rparr>" and ?p = "[47, 97]"
  have "host_does ref_env dir_host (Fuse_mkdir ?p 511) (srv_host ?v) 0 [BASE_PATH @ ?p]"
    by (intro host_does.mkdir) (simp_all add: dir_host_def cpath_def path_fits_def is_cstr_def)
  then have 1: "\<exists>i. host_does ref_env dir_host (Fuse_mkdir ?p 511) (srv_host ?v) i [BASE_PATH @ ?p] \<and>
      - (2 ^ 31) \<le> i \<and> i < 2 ^ 31 \<and> Result 0 = status_reply (Fuse_mkdir ?p 511) i"
    by (intro exI [of _ 0]) simp
  have 2: "host_reads ref_env ref_env 0 0 dir_host (Fuse_getattr ?p) (srv_host ?v) (Attributes (- ENOENT) None) []"
    by (intro host_reads.missing) (simp_all add: dir_host_def cpath_def path_fits_def is_cstr_def ref_slack correct_a)
  show ?thesis
    using linux_passthrough [OF ref.string_lib_axioms ref_off disjI1 [OF 1], where t = 0 and L = ref_lists]
      linux_passthrough [OF ref.string_lib_axioms ref_off disjI2 [OF disjI1 [OF 2]], where t = 0 and L = ref_lists] by simp
qed

section \<open>Files\<close>

text \<open>
  C10: \<open>sac_write\<close> of \<open>count\<close> bytes at an offset inside a file, or
  past its end in the first block, returns \<open>count\<close>, and the contents of the file
  are then the old ones, with zeros up to the offset, and those bytes put at the offset, grown
  when they go past the end; the node table keeps its bits, and at most
  \<open>write_need\<close> free blocks are taken.
\<close>

lemma write_puts_bytes:
  assumes "commons_lib E" and "store_ok E s A Q" and "sizeof_ptr E = 4" and "A n = Some (File p bs)"
    and "fillable off (length bs)" and "length bs < 2 ^ 31" and "off + count < 2 ^ 31"
    and "count \<le> length data" and "write_need off count \<le> card (free_data E s)"
  shows "\<exists>R s'. sac_write E (int n) data count (int off) s = Inr (int count, s') \<and>
    store_ok E s' (A(n \<mapsto> File p (memput (padded off bs) off (take count data)))) (Q(n := R)) \<and>
    (\<forall>k < 34. used E s' k = used E s k) \<and>
    card (free_data E s) \<le> card (free_data E s') + write_need off count"
  by (rule bitarray_lib.write_padded [OF commons_lib.axioms(1) [OF assms(1)] assms(2-)])

lemma write_puts_bytes_witness:
  "\<exists>Q R s'. sac_write ref_env (int 1) [104, 105] 2 (int 10) with_f = Inr (int 2, s') \<and>
    store_ok ref_env s' ([1 \<mapsto> File 2 [], 0 \<mapsto> Dir 0 [([102], 1)]](1 \<mapsto> File 2 (memput (padded 10 []) 10 (take 2 [104, 105]))))
      (Q(1 := R)) \<and>
    (\<forall>k < 34. used ref_env s' k = used ref_env with_f k) \<and>
    card (free_data ref_env with_f) \<le> card (free_data ref_env s') + write_need 10 2"
proof -
  obtain Q where "store_ok ref_env with_f [1 \<mapsto> File 2 [], 0 \<mapsto> Dir 0 [([102], 1)]] Q" using with_f_ok(1) by blast
  from write_puts_bytes [OF ref.commons_lib_axioms this ref_ptr, of 1 2 "[]" 10 2 "[104, 105]"] with_f_ok(2)
  show ?thesis by (auto simp: write_need_def fillable_def)
qed

text \<open>
  C11: \<open>sac_read\<close> of \<open>count\<close> bytes at an offset before the end of a
  file returns the bytes of the contents from there, as many as asked for or as there are,
  across any number of blocks, and leaves the tree and the bitmap as they are.
\<close>

lemma read_gives_bytes:
  assumes "store_ok E s A Q" and "sizeof_ptr E = 4" and "A n = Some (File p bs)"
    and "off < length bs" and "length bs < 2 ^ 31"
  shows "\<exists>s'. sac_read E (int n) count (int off) s =
      Inr (int (min count (length bs - off)), take count (drop off bs), s') \<and>
    store_ok E s' A Q \<and> bitmap s' = bitmap s"
  by (rule File_Read.read_file [OF assms])

lemma read_gives_bytes_witness:
  "\<exists>s Q s'. store_ok ref_env s [1 \<mapsto> File 2 [104, 105], 0 \<mapsto> Dir 0 [([102], 1)]] Q \<and>
    sac_read ref_env (int 1) 10 (int 1) s = Inr (int (min 10 (length [104, 105 :: byte] - 1)), take 10 (drop 1 [104, 105]), s') \<and>
    store_ok ref_env s' [1 \<mapsto> File 2 [104, 105], 0 \<mapsto> Dir 0 [([102], 1)]] Q \<and> bitmap s' = bitmap s"
proof -
  obtain s Q where st: "store_ok ref_env s [1 \<mapsto> File 2 [104, 105], 0 \<mapsto> Dir 0 [([102], 1)]] Q"
    using with_text by blast
  from read_gives_bytes [OF st ref_ptr, of 1 2 "[104, 105]" 1 10] st show ?thesis
    by - (rule exI [of _ s], rule exI [of _ Q], simp)
qed

text \<open>
  C12: \<open>sac_open\<close> of a name that is not in its directory creates the file: it
  returns the least free node, and the disk then represents the tree with an empty file there
  and one more entry at the end of its directory.
\<close>

lemma open_new_file:
  assumes "commons_lib E" and "store_ok E s A Q" and "folder_ok pre" and "component_ok nm"
    and "walk A (tokens slash pre) 0 = Some m" and "A m = Some (Dir p es)"
    and "nm \<notin> fst ` set es" and "length es < 31" and "free_node E s n"
    and "es = [] \<longrightarrow> 2 \<le> card (free_data E s)"
  shows "\<exists>s' Q'. sac_open E (child_path pre nm) mode s = Inr (int n, s') \<and>
    store_ok E s' (A(n \<mapsto> File (of_nat (2 + m)) [], m \<mapsto> Dir p (es @ [(nm, of_nat n)]))) Q'"
  using commons_lib.open_creates [OF assms] by blast

lemma open_new_file_witness:
  "\<exists>s' Q'. sac_open ref_env (child_path [] [102]) 0 fresh = Inr (int 1, s') \<and>
    store_ok ref_env s' ([0 \<mapsto> Dir 0 []](1 \<mapsto> File (of_nat (2 + 0)) [], 0 \<mapsto> Dir 0 ([] @ [([102], of_nat 1)]))) Q'"
  by (rule open_new_file [OF ref.commons_lib_axioms fresh_ok(1)]) (simp_all add: fresh_ok [simplified])

text \<open>
  C13: \<open>sac_truncate\<close> of a file to a length not above its own, when the file has no
  spare pointer block (\<open>no_spare\<close>: its last data block is not the last of a pointer
  block, where an overwrite may have left one and the code then goes wrong), returns 0 and
  leaves the first \<open>shrunk\<close> bytes of it; no block is taken, none of another node is
  freed. That is the length asked for when less than a block is to be cut, or when the old
  length is a multiple of the block size; otherwise it can be shorter.
\<close>

lemma truncate_shorter:
  assumes "commons_lib E" and "store_ok E s A Q" and "sizeof_ptr E = 4" and "is_valid_path E path"
    and "walk A (tokens slash path) 0 = Some n" and "A n = Some (File p bs)"
    and "length bs < 2 ^ 31" and "l \<le> length bs" and "no_spare bs"
  shows "(\<exists>s' R. sac_truncate E path (int l) s = Inr (0, s') \<and>
      store_ok E s' (A(n \<mapsto> File p (take (shrunk (length bs) l) bs))) (Q(n := R)) \<and> R \<subseteq> Q n \<and>
      free_data E s \<subseteq> free_data E s' \<and> (\<forall>k < 34. used E s' k = used E s k)) \<and>
    (length bs < l + 4096 \<or> 4096 dvd length bs \<longrightarrow> shrunk (length bs) l = l)"
  using commons_lib.truncate_shrinks [OF assms] shrunk_near [OF assms(8)] shrunk_aligned [OF assms(8)] by blast

lemma truncate_shorter_witness:
  "\<exists>s Q. (\<exists>s' R. sac_truncate ref_env (child_path [] [102]) (int 1) s = Inr (0, s') \<and>
      store_ok ref_env s' ([1 \<mapsto> File 2 [104, 105], 0 \<mapsto> Dir 0 [([102], 1)]]
        (1 \<mapsto> File 2 (take (shrunk (length [104, 105 :: byte]) 1) [104, 105]))) (Q(1 := R)) \<and> R \<subseteq> Q 1 \<and>
      free_data ref_env s \<subseteq> free_data ref_env s' \<and> (\<forall>k < 34. used ref_env s' k = used ref_env s k)) \<and>
    (length [104, 105 :: byte] < 1 + 4096 \<or> 4096 dvd length [104, 105 :: byte] \<longrightarrow>
      shrunk (length [104, 105 :: byte]) 1 = 1)"
proof -
  obtain s Q where st: "store_ok ref_env s [1 \<mapsto> File 2 [104, 105], 0 \<mapsto> Dir 0 [([102], 1)]] Q"
    using with_text by blast
  show ?thesis
    by (intro exI [of _ s] exI [of _ Q] truncate_shorter [OF ref.commons_lib_axioms st ref_ptr])
       (simp_all add: ref.valid_child_path tokens_child no_spare_def)
qed

text \<open>
  C14: \<open>sac_truncate\<close> of a file to a greater length returns 0 and adds bytes up to
  that length, each of them the letter A, taking at most \<open>write_need\<close> free blocks.
\<close>

lemma truncate_longer:
  assumes "commons_lib E" and "store_ok E s A Q" and "sizeof_ptr E = 4" and "folder_ok pre" and "component_ok nm"
    and "walk A (tokens slash pre) 0 = Some m" and "A m = Some (Dir q es)"
    and "map_of es nm = Some k" and "A (unat k) = Some (File p bs)"
    and "length bs < l" and "l < 2 ^ 31" and "write_need (length bs) (l - length bs) \<le> card (free_data E s)"
  shows "\<exists>s' R. sac_truncate E (child_path pre nm) (int l) s = Inr (0, s') \<and>
    store_ok E s' (A(unat k \<mapsto> File p (bs @ replicate (l - length bs) 65))) (Q(unat k := R)) \<and>
    (\<forall>k < 34. used E s' k = used E s k) \<and>
    card (free_data E s) \<le> card (free_data E s') + write_need (length bs) (l - length bs)"
  by (rule commons_lib.truncate_grows [OF assms])

lemma truncate_longer_witness:
  "\<exists>Q s' R. sac_truncate ref_env (child_path [] [102]) (int 3) with_f = Inr (0, s') \<and>
    store_ok ref_env s' ([1 \<mapsto> File 2 [], 0 \<mapsto> Dir 0 [([102], 1)]]
      (unat (1 :: u32) \<mapsto> File 2 ([] @ replicate (3 - length ([] :: bytes)) 65))) (Q(unat (1 :: u32) := R)) \<and>
    (\<forall>k < 34. used ref_env s' k = used ref_env with_f k) \<and>
    card (free_data ref_env with_f) \<le> card (free_data ref_env s') + write_need (length ([] :: bytes)) (3 - length ([] :: bytes))"
proof -
  obtain Q where st: "store_ok ref_env with_f [1 \<mapsto> File 2 [], 0 \<mapsto> Dir 0 [([102], 1)]] Q" using with_f_ok(1) by blast
  show ?thesis
    using with_f_ok(2)
    by (intro exI [of _ Q] truncate_longer [OF ref.commons_lib_axioms st ref_ptr, where m = 0 and q = 0 and es = "[([102], 1)]"])
       (simp_all add: write_need_def)
qed

text \<open>
  C15: \<open>sac_remove\<close> of a file whose entry is the last of its directory (for the
  others see \<open>delete_garbles\<close>) returns 0, the disk then represents the tree without
  the file and without its entry, the node of the file is free, and its pointer and data blocks,
  all of them and no others, are given back.
\<close>

lemma remove_frees_file:
  assumes "commons_lib E" and "is_last nm es" and "store_ok E s A Q" and "folder_ok pre" and "component_ok nm"
    and "walk A (tokens slash pre) 0 = Some m" and "A m = Some (Dir p es)"
    and "map_of es nm = Some k" and "A (unat k) = Some (File (of_nat (2 + m)) bs)"
  shows "\<exists>s' R. sac_remove E (child_path pre nm) s = Inr (0, s') \<and>
    store_ok E s' (A(unat k := None, m \<mapsto> Dir p (del_entry nm es))) (Q(unat k := {}, m := R)) \<and>
    \<not> used E s' (2 + unat k) \<and> free_data E s' = free_data E s \<union> Q (unat k)"
  by (rule commons_lib.remove_file [OF assms])

lemma remove_frees_file_witness:
  "\<exists>Q s' R. sac_remove ref_env (child_path [] [102]) with_f = Inr (0, s') \<and>
    store_ok ref_env s' ([1 \<mapsto> File 2 [], 0 \<mapsto> Dir 0 [([102], 1)]]
      (unat (1 :: u32) := None, 0 \<mapsto> Dir 0 (del_entry [102] [([102], 1)]))) (Q(unat (1 :: u32) := {}, 0 := R)) \<and>
    \<not> used ref_env s' (2 + unat (1 :: u32)) \<and> free_data ref_env s' = free_data ref_env with_f \<union> Q (unat (1 :: u32))"
proof -
  obtain Q where st: "store_ok ref_env with_f [1 \<mapsto> File 2 [], 0 \<mapsto> Dir 0 [([102], 1)]] Q" using with_f_ok(1) by blast
  show ?thesis
    by (intro exI [of _ Q] remove_frees_file [OF ref.commons_lib_axioms _ st, where bs = "[]" and p = 0 and es = "[([102], 1)]"])
       (simp_all add: is_last_def)
qed

section \<open>Directories\<close>

text \<open>
  C16: \<open>sac_mkdir\<close> of a new name in an existing directory with room returns 0, and
  the disk then represents the same tree with one more empty directory, numbered by the least
  free node, and one more entry at the end of its parent.
\<close>

lemma mkdir_new:
  assumes "commons_lib E" and "store_ok E s A Q" and "folder_ok pre" and "component_ok nm"
    and "walk A (tokens slash pre) 0 = Some m" and "A m = Some (Dir p es)"
    and "nm \<notin> fst ` set es" and "length es < 31" and "free_node E s n"
    and "es = [] \<longrightarrow> 2 \<le> card (free_data E s)"
  shows "\<exists>s' Q'. sac_mkdir E (child_path pre nm) mode s = Inr (0, s') \<and>
    store_ok E s' (A(n \<mapsto> Dir (of_nat (2 + m)) [], m \<mapsto> Dir p (es @ [(nm, of_nat n)]))) Q'"
  using commons_lib.mkdir_creates [OF assms] by blast

lemma mkdir_new_witness:
  "\<exists>s' Q'. sac_mkdir ref_env (child_path [] [97]) 0 fresh = Inr (0, s') \<and>
    store_ok ref_env s' ([0 \<mapsto> Dir 0 []](1 \<mapsto> Dir (of_nat (2 + 0)) [], 0 \<mapsto> Dir 0 ([] @ [([97], of_nat 1)]))) Q'"
  by (rule mkdir_new [OF ref.commons_lib_axioms fresh_ok(1)]) (simp_all add: fresh_ok [simplified])

text \<open>
  C17: with the 32 nodes of the table taken, \<open>sac_mkdir\<close> of a new name does not
  return: the search of the bitmap goes on behind the node table. When a data block is free it
  stops there and the process ends with \<open>exit(-1)\<close>; on a full disk it reads past
  the end of the bitmap.
\<close>

lemma mkdir_no_node:
  assumes "commons_lib E" and "store_ok E s A Q" and "folder_ok pre" and "component_ok nm"
    and "walk A (tokens slash pre) 0 = Some m" and "A m = Some (Dir p es)"
    and "nm \<notin> fst ` set es" and "\<forall>k < 32. used E s (2 + k)"
  shows "sac_mkdir E (child_path pre nm) mode s = Inl (if free_data E s = {} then Out_of_bounds else Exit (- 1))"
  by (rule commons_lib.mkdir_table_full [OF assms])

lemma mkdir_no_node_witness:
  "\<exists>s. (\<forall>k < 32. used ref_env s (2 + k)) \<and> free_data ref_env s \<noteq> {} \<and>
    sac_mkdir ref_env (child_path [] [98]) 0 s = Inl (Exit (- 1))"
proof -
  obtain s where st: "store_ok ref_env s [0 \<mapsto> Dir 0 []] (\<lambda>_. {})" and full: "\<forall>k < 32. used ref_env s (2 + k)"
    and free: "free_data ref_env s \<noteq> {}"
    using table_full by blast
  have "sac_mkdir ref_env (child_path [] [98]) 0 s =
      Inl (if free_data ref_env s = {} then Out_of_bounds else Exit (- 1))"
    by (rule mkdir_no_node [OF ref.commons_lib_axioms st _ _ _ _ _ full, where m = 0 and p = 0 and es = "[]"]) simp_all
  with full free show ?thesis by auto
qed

text \<open>
  C18: \<open>sac_rmdir\<close> of an empty directory whose entry is the last of its parent (for
  the others see \<open>delete_garbles\<close>) ends and returns 0: the loop that collects its
  descendants finishes, the disk then represents the tree without the directory and without its
  entry, and its node is free.
\<close>

lemma rmdir_ends_empty:
  assumes "commons_lib E" and "is_last nm es" and "list_lib L" and "store_ok E s A Q"
    and "folder_ok pre" and "component_ok nm"
    and "walk A (tokens slash pre) 0 = Some m" and "A m = Some (Dir p es)"
    and "map_of es nm = Some k" and "A (unat k) = Some (Dir (of_nat (2 + m)) [])" and "m \<noteq> unat k"
  shows "\<exists>s' R. sac_rmdir E L (child_path pre nm) s = Some (Inr (0, s')) \<and>
    store_ok E s' (A(unat k := None, m \<mapsto> Dir p (del_entry nm es))) (Q(m := R)) \<and> \<not> used E s' (2 + unat k)"
  using commons_lib.rmdir_empty [OF assms] by blast

lemma rmdir_ends_empty_witness:
  "\<exists>Q s' R. sac_rmdir ref_env ref_lists (child_path [] [97]) with_a = Some (Inr (0, s')) \<and>
    store_ok ref_env s' ([1 \<mapsto> Dir 2 [], 0 \<mapsto> Dir 0 [([97], 1)]]
      (unat (1 :: u32) := None, 0 \<mapsto> Dir 0 (del_entry [97] [([97], 1)]))) (Q(0 := R)) \<and>
    \<not> used ref_env s' (2 + unat (1 :: u32))"
proof -
  obtain Q where st: "store_ok ref_env with_a [1 \<mapsto> Dir 2 [], 0 \<mapsto> Dir 0 [([97], 1)]] Q" using with_a_ok(1) by blast
  show ?thesis
    by (intro exI [of _ Q] rmdir_ends_empty [OF ref.commons_lib_axioms _ ref_list.list_lib_axioms st])
       (simp_all add: is_last_def)
qed

text \<open>
  C19: \<open>sac_mkdir\<close> in an empty directory and \<open>sac_rmdir\<close> of what it
  made both return 0 and leave the tree as it was, with the node free again, but two data blocks
  fewer are free: the pointer block and the data block that the entry took are forgotten by
  \<open>delete_directory_entry\<close> and not given back.
\<close>

lemma mkdir_rmdir_leaks:
  assumes "commons_lib E" and "list_lib L" and "store_ok E s A Q" and "folder_ok pre" and "component_ok nm"
    and "walk A (tokens slash pre) 0 = Some m" and "A m = Some (Dir p [])"
    and "free_node E s n" and "2 \<le> card (free_data E s)"
  shows "\<exists>s1 s2 R. sac_mkdir E (child_path pre nm) mode s = Inr (0, s1) \<and>
    sac_rmdir E L (child_path pre nm) s1 = Some (Inr (0, s2)) \<and> store_ok E s2 A R \<and>
    \<not> used E s2 (2 + n) \<and> card (free_data E s2) + 2 = card (free_data E s)"
  by (rule commons_lib.mkdir_rmdir [OF assms])

lemma mkdir_rmdir_leaks_witness:
  "\<exists>s1 s2 R. sac_mkdir ref_env (child_path [] [97]) 0 fresh = Inr (0, s1) \<and>
    sac_rmdir ref_env ref_lists (child_path [] [97]) s1 = Some (Inr (0, s2)) \<and> store_ok ref_env s2 [0 \<mapsto> Dir 0 []] R \<and>
    \<not> used ref_env s2 (2 + 1) \<and> card (free_data ref_env s2) + 2 = card (free_data ref_env fresh)"
  by (rule mkdir_rmdir_leaks [OF ref.commons_lib_axioms ref_list.list_lib_axioms fresh_ok(1), where m = 0 and p = 0])
     (simp_all add: fresh_ok [simplified])

text \<open>
  C20: \<open>sac_rename\<close> of an existing entry that is the last of its directory (for the
  others see \<open>delete_garbles\<close>) returns 0, and the disk then represents the tree
  with that entry taken out of the old directory, an entry of the new name put at the end of the
  new one, and the new directory as the parent of the node; the old and the new directory can be
  the same.
\<close>

lemma rename_moves_entry:
  assumes "commons_lib E" and "is_last nm es" and "store_ok E s A Q"
    and "folder_ok pre" and "component_ok nm" and "folder_ok pre'" and "component_ok nm'"
    and "walk A (tokens slash pre) 0 = Some m" and "A m = Some (Dir p es)"
    and "walk A (tokens slash pre') 0 = Some m'"
    and "map_of es nm = Some k" and "A (unat k) \<noteq> None"
    and "delete_from nm m A m' = Some (Dir p' es')" and "length es' < 31"
    and "es' = [] \<longrightarrow> 2 \<le> card (free_data E s)"
  shows "\<exists>s' Q'. sac_rename E (child_path pre nm) (child_path pre' nm') s = Inr (0, s') \<and>
    store_ok E s' (move nm m nm' m' k A) Q'"
  by (rule commons_lib.rename_moves [OF assms])

lemma rename_moves_entry_witness:
  "\<exists>s' Q'. sac_rename ref_env (child_path [] [102]) (child_path [] [98]) with_f = Inr (0, s') \<and>
    store_ok ref_env s' (move [102] 0 [98] 0 1 [1 \<mapsto> File 2 [], 0 \<mapsto> Dir 0 [([102], 1)]]) Q'"
proof -
  obtain Q where st: "store_ok ref_env with_f [1 \<mapsto> File 2 [], 0 \<mapsto> Dir 0 [([102], 1)]] Q" using with_f_ok(1) by blast
  show ?thesis
    using with_f_ok(2)
    by (intro rename_moves_entry [OF ref.commons_lib_axioms _ st, where p = 0 and es = "[([102], 1)]"
          and p' = 0 and es' = "[]"]) (simp_all add: delete_from_def is_last_def)
qed

section \<open>Bitmap, nodes and blocks\<close>

text \<open>
  C21: the loop of \<open>_get_free_block\<close> always ends, and gives what its specification
  does: the least free bit from where it starts, or a read past the end of the bitmap when there
  is none (it is not bounded by the end of the area it searches).
\<close>

lemma bitmap_search:
  "next_free E s i =
    (if \<exists>j. i \<le> j \<and> j < 8 * ba_size (bitmap s) \<and> \<not> used E s j
     then Inr (LEAST j. i \<le> j \<and> j < 8 * ba_size (bitmap s) \<and> \<not> used E s j)
     else Inl Out_of_bounds)"
proof (cases "\<exists>j. i \<le> j \<and> j < 8 * ba_size (bitmap s) \<and> \<not> used E s j")
  case True
  let ?P = "\<lambda>j. i \<le> j \<and> j < 8 * ba_size (bitmap s) \<and> \<not> used E s j"
  have "?P (LEAST j. ?P j)" using True by (rule LeastI_ex)
  moreover have "used E s k" if "i \<le> k" "k < (LEAST j. ?P j)" for k
    using that calculation not_less_Least [of k ?P] by auto
  ultimately show ?thesis using True by (simp add: next_free_found)
qed (simp add: next_free_none)

text \<open>
  C22: with a data block free, \<open>get_free_data_block\<close> returns one that was free and
  lies in the data area, marks it and no other block, and touches nothing on disk.
\<close>

lemma data_block_least:
  assumes "bitarray_lib E" and "bitmap_ok s" and "free_data E s \<noteq> {}"
  shows "\<exists>b s'. get_free_data_block E s = Inr (b, s') \<and> bitmap_ok s' \<and> disk s' = disk s \<and>
    34 \<le> unat b \<and> unat b < 3000 \<and> \<not> used E s (unat b) \<and>
    free_data E s' = free_data E s - {unat b} \<and>
    (\<forall>k < 3000. used E s' k \<longleftrightarrow> k = unat b \<or> used E s k)"
  using bitarray_lib.get_free_data_block_spec [OF assms] by blast

lemma data_block_least_witness:
  "\<exists>b s'. get_free_data_block ref_env fresh = Inr (b, s') \<and> bitmap_ok s' \<and> disk s' = disk fresh \<and>
    34 \<le> unat b \<and> unat b < 3000 \<and> \<not> used ref_env fresh (unat b) \<and>
    free_data ref_env s' = free_data ref_env fresh - {unat b} \<and>
    (\<forall>k < 3000. used ref_env s' k \<longleftrightarrow> k = unat b \<or> used ref_env fresh k)"
  by (rule data_block_least [OF ref.bitarray_lib_axioms store_okD(2) [OF fresh_ok(1)]]) (simp add: fresh_ok(3))

text \<open>
  C23: the bitmap stored with \<open>bitmap_to_block\<close> is the one
  \<open>block_to_bitmap\<close> reads back, and no other block of the disk changes.
\<close>

lemma bitmap_roundtrip:
  assumes "bitarray_lib E" and "bitmap_ok s" and "length (disk s h) = 4096"
  shows "\<exists>s'. bitmap_to_block (bitmap s) [h] s = Inr s' \<and> block_to_bitmap E [h] s' = Inr (bitmap s) \<and>
    (\<forall>b. b \<noteq> h \<longrightarrow> disk s' b = disk s b)"
  using bitarray_lib.bitmap_roundtrip_block [OF assms] by blast

lemma bitmap_roundtrip_witness:
  "\<exists>s'. bitmap_to_block (bitmap fresh) [1] fresh = Inr s' \<and> block_to_bitmap ref_env [1] s' = Inr (bitmap fresh) \<and>
    (\<forall>b. b \<noteq> 1 \<longrightarrow> disk s' b = disk fresh b)"
  by (rule bitmap_roundtrip [OF ref.bitarray_lib_axioms store_okD(2) [OF fresh_ok(1)]
        disk_ok_length [OF store_okD(1) [OF fresh_ok(1)]]]) simp

text \<open>
  C24: a node stored in its block is read back with the same fields, the 1000 pointers included;
  only the bytes of the name after its NUL can differ, since the code copies the name as a
  string.
\<close>

lemma node_roundtrip:
  assumes "named nd" and "length block = 4096"
  shows "\<exists>nd'. block_to_node E (node_to_block nd block) s = Inr (nd', s\<lparr>tick := Suc (tick s)\<rparr>) \<and>
    named nd' \<and> nview nd' = nview nd"
proof -
  have ok: "node_ok nd" using assms(1) by (simp add: named_def)
  have "node_of (node_bytes nd) = nd" and "length (node_bytes nd) = 4096"
    using node_codec.decode [OF ok] node_codec.width [OF ok] by simp_all
  with block_to_node_spec [of "node_bytes nd" E s] assms(1) show ?thesis
    by (simp add: node_to_block_eq [OF ok assms(2)])
qed

lemma node_roundtrip_witness:
  "\<exists>nd. named nd \<and> (\<exists>nd'. block_to_node ref_env (node_to_block nd (replicate 4096 9)) blank =
      Inr (nd', blank\<lparr>tick := Suc (tick blank)\<rparr>) \<and> named nd' \<and> nview nd' = nview nd)"
proof -
  let ?nd = "\<lparr>state = 1, file_name = replicate 71 0, parent_block = 2, file_size = 5, creation_date = 0,
    modification_date = 0, indirect_pointer_block = replicate 1000 34\<rparr>"
  have nd: "named ?nd" by (simp add: named_def node_ok_def)
  have "\<exists>nd'. block_to_node ref_env (node_to_block ?nd (replicate 4096 9)) blank =
      Inr (nd', blank\<lparr>tick := Suc (tick blank)\<rparr>) \<and> named nd' \<and> nview nd' = nview ?nd"
    by (rule node_roundtrip [OF nd]) simp
  with nd show ?thesis by blast
qed

text \<open>
  C25: \<open>getBlockNumberFromNodeDataBlock\<close> of data block \<open>k\<close> of a node,
  below its limit of 1000 * 1024 blocks, is with 4-byte pointers cell \<open>k mod 1024\<close>
  of pointer block \<open>k div 1024\<close>. With 8-byte pointers neither it nor
  \<open>get_data_block_from_node\<close> returns: \<open>sizeof\<close> is taken of a pointer,
  so both read 8 bytes, from data block 512 of a pointer block on past that block, and otherwise
  copy them into an allocation of 4.
\<close>

lemma block_number:
  assumes "k < 1024000" and "unat (indirect_pointer_block nd ! (k div 1024)) < TOTAL_BLOCKS"
  shows "(sizeof_ptr E = 4 \<longrightarrow>
      getBlockNumberFromNodeDataBlock E nd (of_nat k) s = Inr (data_block_num s nd k)) \<and>
    (sizeof_ptr E = 8 \<longrightarrow>
      getBlockNumberFromNodeDataBlock E nd (of_nat k) s = Inl (if k mod 1024 < 512 then Overrun else Bad_map) \<and>
      get_data_block_from_node E nd (of_nat k) s = Inl (if k mod 1024 < 512 then Overrun else Bad_map))"
  using getBlockNumber_spec [OF _ assms] getBlockNumber_lp64 [OF _ assms] by (simp add: get_data_block_eq)

lemma block_number_witness:
  "getBlockNumberFromNodeDataBlock ref_env (node_at blank 0) (of_nat 1030) blank =
      Inr (data_block_num blank (node_at blank 0) 1030) \<and>
   getBlockNumberFromNodeDataBlock (ref_env\<lparr>sizeof_ptr := 8\<rparr>) (node_at blank 0) (of_nat 1030) blank = Inl Overrun \<and>
   get_data_block_from_node (ref_env\<lparr>sizeof_ptr := 8\<rparr>) (node_at blank 0) (of_nat 1030) blank = Inl Overrun"
  using block_number [of 1030 "node_at blank 0" ref_env blank]
    block_number [of 1030 "node_at blank 0" "ref_env\<lparr>sizeof_ptr := 8\<rparr>" blank]
  by (simp add: ref_ptr blank_pointer const_simps)

text \<open>
  C26: two connections that ask for a data block at the same time can be given the same one:
  whatever block one of them alone would get, there is an interleaving of the two calls after
  which both have it, since nothing locks the bitmap between the test of a bit and its store.
\<close>

lemma block_given_twice:
  assumes "get_free_data_block E s = Inr (w, s')" and "i \<noteq> k"
  shows "\<exists>y. together E TOTAL_BLOCKS (start_alloc s (NODE_TABLE_INITIAL_BLOCK + NODE_TABLE_BLOCKS)) y \<and>
    pc y i = Returned (unat w) \<and> pc y k = Returned (unat w)"
  using get_free_twice [OF assms(1) [unfolded get_free_data_block_def] order_refl assms(2)] .

lemma block_given_twice_witness:
  "\<exists>y w. together ref_env TOTAL_BLOCKS (start_alloc fresh (NODE_TABLE_INITIAL_BLOCK + NODE_TABLE_BLOCKS)) y \<and>
    pc y 0 = Returned (unat (w :: u32)) \<and> pc y 1 = Returned (unat w)"
proof -
  obtain w s' where g: "get_free_data_block ref_env fresh = Inr (w, s')" using fresh_allocates by blast
  from block_given_twice [OF g, of 0 1] show ?thesis by auto
qed

text \<open>
  C27: in every run of any number of threads in which at most one at a time is between the test
  that found its bit and the store that sets it, no two threads return the same block.
\<close>

lemma block_given_once:
  assumes "bitarray_lib E" and "bitmap_ok s" and "in_turn E to (start_alloc s from_b) y"
    and "pc y i = Returned b" and "pc y k = Returned b"
  shows "i = k"
  by (rule bitarray_lib.given_to_one [OF assms])

lemma block_given_once_witness:
  "\<exists>y b. in_turn ref_env TOTAL_BLOCKS (start_alloc fresh 34) y \<and> pc y 0 = Returned b \<and>
    (\<forall>k. pc y k = Returned b \<longrightarrow> 0 = k)"
proof -
  obtain y b where y: "in_turn ref_env TOTAL_BLOCKS (start_alloc fresh 34) y" "pc y 0 = Returned b"
    using one_in_turn by blast
  from block_given_once [OF ref.bitarray_lib_axioms fresh_bits y] y show ?thesis by blast
qed

section \<open>Messages\<close>

text \<open>
  C28: each of the eleven messages arrives: the server takes from the stream the package that
  was sent and nothing after it, and rebuilds from it the function that was asked for, whose
  arguments its readers take in the widths of the message (\<open>narrowed\<close>): paths as
  they are, a descriptor modulo \<open>2 ^ 16\<close>, a mode as a signed number of 16 bits, a
  count and an offset modulo \<open>2 ^ 32\<close>, a length as an \<open>off_t\<close>; those
  in range (\<open>in_range\<close>) arrive as they were. Asked for are paths without NUL below
  the 16-bit limit; for a write a client with 4-byte \<open>size_t\<close> and a buffer of the
  count at least; for truncate an \<open>off_t\<close> of at most 8 bytes at the client and one
  at the server that is not wider; for stat that the two bytes behind the message can be read,
  which the server takes as a mode.
\<close>

lemma messages_delivered:
  assumes "sendable C r" and "readable_at C E (Suc t') r"
  shows "\<exists>p f. packed C t r = Inr p \<and> receive_package E t' (send_package C p @ rest) = (p, rest) \<and>
    deserialize E (Suc t') p = Inr (Some f) \<and> reads_as E f (narrowed E r) \<and> (in_range E r \<longrightarrow> reads_as E f r)"
proof -
  obtain p where p: "packed C t r = Inr p" "receive_package E t' (send_package C p @ rest) = (p, rest)"
      "deserialize E (Suc t') p = Inr (Some (requested E (Suc t') r))"
    using delivered_all [OF assms, of t rest] by auto
  have "reads_as E (requested E (Suc t') r) (narrowed E r)" by (rule requested_read [OF assms])
  moreover have "in_range E r \<longrightarrow> narrowed E r = r" using narrowed_in_range by blast
  ultimately show ?thesis using p by fastforce
qed

lemma messages_delivered_witness:
  "(\<exists>p f. packed ref_env 0 (Write_req 3 [104, 105] 2 7) = Inr p \<and>
      receive_package ref_env 0 (send_package ref_env p @ [1, 2, 3]) = (p, [1, 2, 3]) \<and>
      deserialize ref_env (Suc 0) p = Inr (Some f) \<and> reads_as ref_env f (Write_req 3 [104, 105] 2 7)) \<and>
   (\<exists>p f. packed ref_env 0 (Close_req 65541) = Inr p \<and>
      deserialize ref_env (Suc 0) p = Inr (Some f) \<and> reads_as ref_env f (Close_req 5))"
proof -
  have "sendable ref_env (Write_req 3 [104, 105] 2 7)" "in_range ref_env (Write_req 3 [104, 105] 2 7)"
    by (simp_all add: ref_env_def)
  with messages_delivered [of ref_env "Write_req 3 [104, 105] 2 7" ref_env 0 0 "[1, 2, 3]"]
    messages_delivered [of ref_env "Close_req 65541" ref_env 0 0 "[]"]
  show ?thesis by auto
qed

text \<open>
  C29: where \<open>size_t\<close> has 8 bytes every write message overruns its package: the
  size counts a 4-byte count, and the data and the offset are placed after
  \<open>sizeof(count)\<close>, which is 8.
\<close>

lemma write_message_lp64:
  assumes "sizeof_size_t E = 8" and "count \<le> length buffer" and "count + 10 < 2 ^ 32"
  shows "serialize_write E t fd buffer count offset = Inl Overrun"
  by (rule serialize_write_lp64 [OF assms])

lemma write_message_lp64_witness:
  "serialize_write (ref_env\<lparr>sizeof_size_t := 8\<rparr>) 0 3 [104, 105] 2 7 = Inl Overrun"
  by (rule write_message_lp64) simp_all

text \<open>
  C30: a stat message has no mode, but the server takes it apart as an open message: it reads
  two bytes after the end of the package, and where that memory cannot be read the server
  faults.
\<close>

lemma stat_message_reads_past:
  assumes "path_fits path" and "past_end E' t' 1 = None"
  shows "\<exists>p. serialize_stat E t path = Inr p \<and> deserialize_stat E' t' p = Inl Out_of_bounds"
  using deserialize_stat_faults [OF assms] serialize_path_spec [OF assms(1)] by (simp add: serialize_stat_def)

lemma stat_message_reads_past_witness:
  "\<exists>p. serialize_stat ref_env 0 [47, 97] = Inr p \<and>
    deserialize_stat (ref_env\<lparr>past_end := \<lambda>_ _. None\<rparr>) 5 p = Inl Out_of_bounds"
  by (rule stat_message_reads_past) (simp_all add: path_fits_def)

section \<open>Threads of the server\<close>

text \<open>
  C31: however the main thread and the connections interleave, at most
  \<open>MAX_THREADS\<close> connections are attended at a time.
\<close>

lemma at_most_max_threads:
  assumes "list_lib L" and "server_reach L s"
  shows "card (running s) \<le> MAX_THREADS"
  by (rule threads_bound [OF threads_ok_reach [OF assms]])

lemma at_most_max_threads_witness: "card (running (server_start ref_lists)) \<le> MAX_THREADS"
  by (rule at_most_max_threads [OF ref_list.list_lib_axioms server_reach.start])

text \<open>
  C32: the server can come to a state where it attends nothing and accepts nothing for ever: a
  thread that ends before the main thread has added it stays in the list, and six of those fill
  it.
\<close>

lemma server_stuck:
  assumes "list_lib L"
  shows "\<exists>s. server_reach L s \<and> stuck L s"
  by (rule stuck_reachable [OF assms])

lemma server_stuck_witness: "\<exists>s. server_reach ref_lists s \<and> stuck ref_lists s"
  by (rule server_stuck [OF ref_list.list_lib_axioms])

text \<open>
  C33: in Linux mode a read that the host refuses is answered as a success: the -1 of the call
  becomes the size of the answer, which has message id 0, size 4294967295 and then what
  \<open>send\<close> makes of a buffer of the count asked for; the server goes on. The client
  believes the size: \<open>do_read\<close> copies 4294967295 bytes to the buffer of the caller
  and overruns it.
\<close>

lemma linux_read_unchecked:
  assumes "wire_ok C E" and "n < 32768" and "count < 2 ^ 31" and "off < 2 ^ 31"
    and "host_read H (int n) count (int off) (srv_host v) = (- 1, bs, h')"
    and "correct_path C path" and "length buffer < 2 ^ 31"
  shows "(\<exists>p d. serialize_read C t (int n) count (int off) = Inr p \<and>
      attend_connection E L H True (hello @ send_package C p @ rest) v =
        Some (Inr (le_enc 8 (0 :: u64) @ le_enc 4 (4294967295 :: u32) @ d, (ticks 4 v)\<lparr>srv_host := h'\<rparr>))) \<and>
    do_read C t (server_peer E L H True) path buffer count (int off) (of_nat n) (Some v) = Inl Overrun"
  using linux_read_answer [OF assms(1-5)] linux_read_overrun [OF assms] by blast

lemma linux_read_unchecked_witness:
  "(\<exists>p d. serialize_read ref_env 0 (int 5) 10 (int 0) = Inr p \<and>
      attend_connection ref_env ref_lists dir_host True (hello @ send_package ref_env p @ []) \<lparr>srv_fs = fresh, srv_host = []\<rparr> =
        Some (Inr (le_enc 8 (0 :: u64) @ le_enc 4 (4294967295 :: u32) @ d,
          (ticks 4 \<lparr>srv_fs = fresh, srv_host = []\<rparr>)\<lparr>srv_host := []\<rparr>))) \<and>
    do_read ref_env 0 (server_peer ref_env ref_lists dir_host True) [47, 102] (replicate 10 0) 10 (int 0) (of_nat 5)
      (Some \<lparr>srv_fs = fresh, srv_host = []\<rparr>) = Inl Overrun"
  by (rule linux_read_unchecked [OF ref_wire, where bs = "[]"]) (simp_all add: dir_host_def ref_correct)

section \<open>Defects across components\<close>

text \<open>
  C34: reading a file that has no block yet, as one just created, gives the program success and
  \<open>count\<close> bytes of uninitialised server memory: \<open>sac_read\<close> returns -1,
  which \<open>_sac_read\<close> compares as an unsigned number.
\<close>

lemma fuse_read_empty:
  assumes "commons_lib E" and "store_ok E (srv_fs v) A Q" and "wire_ok C E"
    and "A n = Some (File p bs)" and "Q n = {}" and "correct_path C path"
    and "off < 2 ^ 31" and "count < 2 ^ 31" and "count = length buffer"
  shows "\<exists>v' u. do_read C t (server_peer E L H False) path buffer count (int off) (of_nat n) (Some v) =
      Inr (int count, map (uninit E u) [0..<count], Some v')"
  by (rule commons_lib.do_read_empty [OF assms])

lemma fuse_read_empty_witness:
  "\<forall>H. \<exists>v' u. do_read ref_env 0 (server_peer ref_env ref_lists H False) [47, 102] [0, 0, 0] 3 (int 0) (of_nat 1)
      (Some \<lparr>srv_fs = with_f, srv_host = ()\<rparr>) = Inr (int 3, map (uninit ref_env u) [0..<3], Some v')"
proof
  fix H :: "unit host"
  obtain Q where Q: "store_ok ref_env with_f [1 \<mapsto> File 2 [], 0 \<mapsto> Dir 0 [([102], 1)]] Q" "Q 1 = {}"
    using with_f_ok(1) by blast
  then show "\<exists>v' u. do_read ref_env 0 (server_peer ref_env ref_lists H False) [47, 102] [0, 0, 0] 3 (int 0) (of_nat 1)
      (Some \<lparr>srv_fs = with_f, srv_host = ()\<rparr>) = Inr (int 3, map (uninit ref_env u) [0..<3], Some v')"
    by (intro fuse_read_empty [OF ref.commons_lib_axioms, where p = 2 and bs = "[]" and Q = Q and
          A = "[1 \<mapsto> File 2 [], 0 \<mapsto> Dir 0 [([102], 1)]]"]) (simp_all add: ref_wire ref_correct)
qed

text \<open>
  C35: \<open>delete_directory_entry\<close> closes the gap with a \<open>memcpy\<close> whose
  ranges overlap (in each of the first 30 places of a directory), and ISO C does not say what it
  leaves: with a \<open>memcpy\<close> that copies from the last byte to the first
  (\<open>descending\<close>), deleting an entry puts the 128 bytes of the last slot of the
  page, number 31, in the place of every entry behind it, while the node counts one entry less.
\<close>

lemma delete_garbles:
  assumes "dir_ok s nd (pre @ (nm, n) # post)" and "nm \<notin> fst ` set pre"
  shows "\<exists>s'. delete_directory_entry (descending E) nd nm s = Inr (after_delete nd (pre @ post), s') \<and>
    (\<forall>k. length pre \<le> k \<and> k < length (pre @ post) \<longrightarrow>
      memget (disk s' (unat (dir_data s nd))) (128 * k) 128 = memget (disk s (unat (dir_data s nd))) (128 * 31) 128)"
proof -
  let ?d = "unat (dir_data s nd)"
  have "length (disk s ?d) = 4096" and "length (pre @ (nm, n) # post) < 32" using assms(1) by (simp_all add: dir_ok_def)
  then show ?thesis using delete_entry_present [OF assms, of "descending E"] descending_cut [of "disk s ?d"] by simp
qed

lemma delete_garbles_witness:
  "\<exists>s nd s'. dir_ok s nd ([] @ ([97], 1) # [([102], 2)]) \<and>
    delete_directory_entry (descending ref_env) nd [97] s = Inr (after_delete nd ([] @ [([102], 2)]), s') \<and>
    (\<forall>k. length ([] :: entries) \<le> k \<and> k < length ([] @ [([102], 2)] :: entries) \<longrightarrow>
      memget (disk s' (unat (dir_data s nd))) (128 * k) 128 = memget (disk s (unat (dir_data s nd))) (128 * 31) 128)"
proof -
  obtain s Q where st: "store_ok ref_env s [2 \<mapsto> File 2 [], 1 \<mapsto> Dir 2 [], 0 \<mapsto> Dir 0 [([97], 1), ([102], 2)]] Q"
    using with_both by blast
  have "inode_ok s (node_at s 0) (Dir 0 [([97], 1), ([102], 2)]) (Q 0)" by (rule store_nodeD(4) [OF st]) simp
  then have d: "dir_ok s (node_at s 0) ([] @ ([97], 1) # [([102], 2)])" by simp
  from delete_garbles [OF d, of ref_env] d show ?thesis by auto
qed

text \<open>
  C36: \<open>sac_rename\<close> of the last entry of a directory to a name that the target
  directory already has returns 0 and leaves two entries of that name there, the new one behind
  the old: the tree is no longer well formed. The lookup of the directory stops at the first, so
  the name still gives the node that had it before, and the entry of the node that was moved is
  hidden behind it.
\<close>

lemma rename_duplicates:
  assumes "commons_lib E" and "is_last nm es" and "store_ok E s A Q"
    and "folder_ok pre" and "component_ok nm" and "folder_ok pre'" and "component_ok nm'"
    and "walk A (tokens slash pre) 0 = Some m" and "A m = Some (Dir p es)"
    and "walk A (tokens slash pre') 0 = Some m'"
    and "map_of es nm = Some k" and "A (unat k) \<noteq> None"
    and "delete_from nm m A m' = Some (Dir p' es')" and "length es' < 31"
    and "es' = [] \<longrightarrow> 2 \<le> card (free_data E s)"
    and "map_of es' nm' = Some k'" and "m' \<noteq> unat k"
  shows "\<exists>s' A' Q' e. sac_rename E (child_path pre nm) (child_path pre' nm') s = Inr (0, s') \<and>
    store_ok E s' A' Q' \<and> A' m' = Some (Dir p' (es' @ [(nm', k)])) \<and> \<not> tree_ok A' \<and>
    get_entry (node_at s' m') nm' s' = Inr e \<and> entry_name e = nm' \<and> node_num e = k'"
proof -
  obtain s' Q' where r: "sac_rename E (child_path pre nm) (child_path pre' nm') s = Inr (0, s')"
      "store_ok E s' (move nm m nm' m' k A) Q'"
    using commons_lib.rename_moves [OF assms(1-15)] by blast
  have t: "move nm m nm' m' k A m' = Some (Dir p' (es' @ [(nm', k)]))"
    using assms(13,17) by (simp add: move_def add_to_def)
  have "nm' \<in> fst ` set es'" using assms(16) by (metis domI dom_map_of_conv_image_fst)
  then have "\<not> distinct (map fst (es' @ [(nm', k)]))" by auto
  with t have "\<not> tree_ok (move nm m nm' m' k A)" using tree_okD(3) by blast
  moreover have "dir_ok s' (node_at s' m') (es' @ [(nm', k)])" using store_nodeD(4) [OF r(2) t] by simp
  from dir_lookup [OF this, of nm'] assms(16)
  obtain e where "get_entry (node_at s' m') nm' s' = Inr e" "entry_name e = nm'" "node_num e = k'" by auto
  ultimately show ?thesis using r t by blast
qed

lemma rename_duplicates_witness:
  "\<exists>s s' A' Q' e. sac_rename ref_env (child_path [] [102]) (child_path [] [97]) s = Inr (0, s') \<and>
    store_ok ref_env s' A' Q' \<and> A' 0 = Some (Dir 0 ([([97], 1)] @ [([97], 2)])) \<and> \<not> tree_ok A' \<and>
    get_entry (node_at s' 0) [97] s' = Inr e \<and> entry_name e = [97] \<and> node_num e = 1"
proof -
  obtain s Q where st: "store_ok ref_env s [2 \<mapsto> File 2 [], 1 \<mapsto> Dir 2 [], 0 \<mapsto> Dir 0 [([97], 1), ([102], 2)]] Q"
    using with_both by blast
  show ?thesis
    by (intro exI [of _ s] rename_duplicates [OF ref.commons_lib_axioms _ st, where p = 0 and m = 0 and
          es = "[([97], 1), ([102], 2)]"]) (simp_all add: delete_from_def is_last_def)
qed

text \<open>
  C37: \<open>sac_rename\<close> of a name that is not in its directory returns 0, where
  rename(2) fails with ENOENT, and gives the target directory an entry of the new name for node
  0, the root: the tree then has a cycle and is no longer well formed.
\<close>

lemma rename_creates_cycle:
  assumes "commons_lib E" and "store_ok E s A Q" and "tree_ok A"
    and "folder_ok pre" and "component_ok nm" and "folder_ok pre'" and "component_ok nm'"
    and "walk A (tokens slash pre) 0 = Some m" and "A m = Some (Dir p es)"
    and "walk A (tokens slash pre') 0 = Some m'" and "A m' = Some (Dir p' es')"
    and "nm \<notin> fst ` set es" and "length es' < 31" and "es' = [] \<longrightarrow> 2 \<le> card (free_data E s)"
  shows "\<exists>s' A' Q'. sac_rename E (child_path pre nm) (child_path pre' nm') s = Inr (0, s') \<and>
    store_ok E s' A' Q' \<and> entry_in A' m' nm' 0 \<and> \<not> tree_ok A'"
proof -
  have root: "A 0 \<noteq> None" using tree_okD(1) [OF assms(3)] by auto
  obtain s' Q' where r: "sac_rename E (child_path pre nm) (child_path pre' nm') s = Inr (0, s')"
      "store_ok E s' (move [] m nm' m' 0 A) Q'"
    using commons_lib.rename_missing [OF assms(1,2,4-12) root assms(13,14)] by blast
  have "entry_in (move [] m nm' m' 0 A) m' nm' 0" by (rule moved_root_entry [OF assms(2,9,11)])
  moreover from this have "\<not> tree_ok (move [] m nm' m' 0 A)" using tree_okD(4) by blast
  ultimately show ?thesis using r by blast
qed

lemma rename_creates_cycle_witness:
  "\<exists>s' A' Q'. sac_rename ref_env (child_path [] [98]) (child_path [] [99]) fresh = Inr (0, s') \<and>
    store_ok ref_env s' A' Q' \<and> entry_in A' 0 [99] 0 \<and> \<not> tree_ok A'"
  using fresh_ok
  by (intro rename_creates_cycle [OF ref.commons_lib_axioms fresh_ok(1) tree_root, where m = 0 and p = 0 and
        es = "[]" and p' = 0 and es' = "[]"]) simp_all

text \<open>
  C38: \<open>sac_write\<close> past the end of a file, inside its last block and not in its
  first, makes the file end at the end of that block, and gives a block to the place after the
  next: the next data block is the number that the pointer block held before, so a write that
  appends there faults if that is outside the disk, and otherwise stores its bytes in that
  block, whatever it belongs to.
\<close>

lemma hole_corrupts:
  assumes "commons_lib E" and "store_ok E s A Q" and "sizeof_ptr E = 4" and "A n = Some (File p bs)"
    and "length bs div 4096 = q" and "1 \<le> q" and "q + 2 < 1024"
    and "length bs < off" and "off div 4096 = q" and "2 \<le> card (free_data E s)"
    and "0 < count" and "count \<le> length data" and "off mod 4096 + count < 4096"
    and "0 < count'" and "count' \<le> length data'" and "count' < 4096"
  shows "\<exists>s1. sac_write E (int n) data count (int off) s = Inr (int count, s1) \<and>
    file_size (node_at s1 n) = of_nat (4096 * Suc q) \<and>
    (case read_block (data_block_num s (node_at s n) (Suc q)) of
       Inl e \<Rightarrow> sac_write E (int n) data' count' (int (4096 * Suc q)) s1 = Inl e
     | Inr k \<Rightarrow> \<exists>s2. sac_write E (int n) data' count' (int (4096 * Suc q)) s1 = Inr (int count', s2) \<and>
         (k = 2 + n \<or> disk s2 k = memput (disk s1 k) 0 (take count' data')))"
  by (rule bitarray_lib.hole_append [OF commons_lib.axioms(1) [OF assms(1)] assms(2-)])

lemma hole_corrupts_witness:
  "\<exists>s s1. sac_write ref_env (int 1) [104] 1 (int 6000) s = Inr (int 1, s1) \<and>
    file_size (node_at s1 1) = of_nat (4096 * Suc 1) \<and>
    (case read_block (data_block_num s (node_at s 1) (Suc 1)) of
       Inl e \<Rightarrow> sac_write ref_env (int 1) [105] 1 (int (4096 * Suc 1)) s1 = Inl e
     | Inr k \<Rightarrow> \<exists>s2. sac_write ref_env (int 1) [105] 1 (int (4096 * Suc 1)) s1 = Inr (int 1, s2) \<and>
         (k = 2 + 1 \<or> disk s2 k = memput (disk s1 k) 0 (take 1 [105])))"
proof -
  obtain s Q where st: "store_ok ref_env s [1 \<mapsto> File 2 (replicate 5000 65), 0 \<mapsto> Dir 0 [([102], 1)]] Q"
      "2964 \<le> card (free_data ref_env s) + write_need 0 5000"
    using with_bytes [of 5000 65] by (auto simp: write_need_def)
  show ?thesis
    by (rule exI [of _ s], rule hole_corrupts [OF ref.commons_lib_axioms st(1) ref_ptr, where p = 2 and bs = "replicate 5000 65"])
       (use st(2) in \<open>simp_all add: write_need_def\<close>)
qed

text \<open>
  C39: \<open>sac_truncate\<close> can cut more than it is asked for, also where the file has no
  spare pointer block (\<open>no_spare\<close>): when a block or more is to go, and the new
  length is above the start of the block before the last, the file ends at that start and the
  bytes from there to the new length are lost, while the result is 0.
\<close>

lemma truncate_too_short:
  assumes "commons_lib E" and "store_ok E s A Q" and "sizeof_ptr E = 4" and "is_valid_path E path"
    and "walk A (tokens slash path) 0 = Some n" and "A n = Some (File p bs)" and "length bs < 2 ^ 31" and "no_spare bs"
    and "l + 4096 \<le> length bs" and "(length bs div 4096 - 1) * 4096 < l"
  shows "\<exists>s' Q' cs. sac_truncate E path (int l) s = Inr (0, s') \<and> store_ok E s' (A(n \<mapsto> File p cs)) Q' \<and>
    cs = take ((length bs div 4096 - 1) * 4096) bs \<and> length cs < l"
proof -
  have "shrunk (length bs) l = (length bs div 4096 - 1) * 4096" using assms(9,10) by (simp add: shrunk_def)
  then show ?thesis using commons_lib.truncate_shrinks [OF assms(1-7) _ assms(8), of l] assms(9,10) by fastforce
qed

lemma truncate_too_short_witness:
  "\<exists>s s' Q' cs. sac_truncate ref_env (child_path [] [102]) (int 4500) s = Inr (0, s') \<and>
    store_ok ref_env s' ([1 \<mapsto> File 2 (replicate 9000 7), 0 \<mapsto> Dir 0 [([102], 1)]](1 \<mapsto> File 2 cs)) Q' \<and>
    cs = take ((length (replicate 9000 (7 :: byte)) div 4096 - 1) * 4096) (replicate 9000 7) \<and> length cs < 4500"
proof -
  obtain s Q where st: "store_ok ref_env s [1 \<mapsto> File 2 (replicate 9000 7), 0 \<mapsto> Dir 0 [([102], 1)]] Q"
    using with_bytes [of 9000 7] by (auto simp: write_need_def)
  show ?thesis
    by (intro exI [of _ s] truncate_too_short [OF ref.commons_lib_axioms st ref_ptr])
       (simp_all add: ref.valid_child_path tokens_child no_spare_def)
qed

text \<open>
  C40: what is allocated while the server runs is lost when it starts again: the bitmap is
  stored only after \<open>server_init\<close>, which does not return, so after a
  \<open>mkdir\<close> and a restart the node of the new directory counts as the least free one,
  and is the one that \<open>get_free_node_block\<close> gives out next.
\<close>

lemma restart_forgets:
  assumes "commons_lib E" and "store_ok E s A Q" and "folder_ok pre" and "component_ok nm"
    and "walk A (tokens slash pre) 0 = Some m" and "A m = Some (Dir p es)"
    and "nm \<notin> fst ` set es" and "length es < 31" and "free_node E s n"
    and "es = [] \<longrightarrow> 2 \<le> card (free_data E s)"
    and "block_to_bitmap E [1] s = Inr (bitmap s)"
  shows "\<exists>s' Q' s''. sac_mkdir E (child_path pre nm) mode s = Inr (0, s') \<and>
    store_ok E s' (A(n \<mapsto> Dir (of_nat (2 + m)) [], m \<mapsto> Dir p (es @ [(nm, of_nat n)]))) Q' \<and>
    start E [prog] s' = Inr (Default_config, s'') \<and> free_node E s'' n \<and>
    (\<exists>s3. get_free_node_block E s'' = Inr (of_nat (2 + n), s3))"
proof -
  obtain s' Q' where r: "sac_mkdir E (child_path pre nm) mode s = Inr (0, s')"
      "store_ok E s' (A(n \<mapsto> Dir (of_nat (2 + m)) [], m \<mapsto> Dir p (es @ [(nm, of_nat n)]))) Q'"
      "node_taken E s s' n (if es = [] then 2 else 0)"
    using commons_lib.mkdir_creates [OF assms(1-10)] by blast
  have lib: "bitarray_lib E" using assms(1) by (simp add: commons_lib_def)
  have low: "disk s' 1 = disk s 1" using r(3) by (simp add: node_taken_def)
  have d: "disk_ok s" "disk_ok s'" using store_okD(1) assms(2) r(2) by blast+
  have "start E [prog] s' = Inr (Default_config, s'\<lparr>bitmap := bitmap s\<rparr>)"
    using block_to_bitmap_same [OF d low] assms(11) by (simp add: start_def validate_input_def load_bitmap_def bitmap_window)
  moreover have "free_node E (s'\<lparr>bitmap := bitmap s\<rparr>) n" using assms(9) free_node_bitmap [of "s'\<lparr>bitmap := bitmap s\<rparr>" s] by simp
  moreover have "bitmap_ok (s'\<lparr>bitmap := bitmap s\<rparr>)" using store_okD(2) [OF assms(2)] by (simp add: bitmap_ok_def)
  then have "\<exists>s3. get_free_node_block E (s'\<lparr>bitmap := bitmap s\<rparr>) = Inr (of_nat (2 + n), s3)"
    using bitarray_lib.get_free_node_block_spec [OF lib, of "s'\<lparr>bitmap := bitmap s\<rparr>" n] calculation(2)
    by (auto simp: free_node_def)
  ultimately show ?thesis using r(1,2) by blast
qed

lemma restart_forgets_witness:
  "\<exists>s' Q' s''. sac_mkdir ref_env (child_path [] [97]) 0 fresh = Inr (0, s') \<and>
    store_ok ref_env s' ([0 \<mapsto> Dir 0 []](1 \<mapsto> Dir (of_nat (2 + 0)) [], 0 \<mapsto> Dir 0 ([] @ [([97], of_nat 1)]))) Q' \<and>
    start ref_env [[115]] s' = Inr (Default_config, s'') \<and> free_node ref_env s'' 1 \<and>
    (\<exists>s3. get_free_node_block ref_env s'' = Inr (of_nat (2 + 1), s3))"
  by (rule restart_forgets [OF ref.commons_lib_axioms fresh_ok(1)]) (simp_all add: fresh_ok [simplified] fresh_bitmap [simplified])

end
